(* ===== verification/Go_Prelude.thy ===== *)
theory Go_Prelude
  imports Main "HOL-Library.Word" "HOL-Library.AList"
begin

unbundle bit_operations_syntax

text \<open>
  The shared vocabulary of the development: bytes and byte slices, the wrap-around of Go's
  64-bit \<^verbatim>\<open>int\<close>, the built-in \<^verbatim>\<open>copy\<close>, the reference function that cuts a list into
  pieces of a fixed length, Go error values, and the list and word lemmas that several
  components use.
\<close>

section \<open>Collections of rules\<close>

named_theorems wire_consts \<open>the constants of the wire protocol\<close>

text \<open>The case splits of a chain of fallible calls.\<close>

lemmas result_splits = option.splits sum.splits prod.splits

section \<open>Bytes, integers and slices\<close>

type_synonym byte = "8 word"
type_synonym bytes = "byte list"

text \<open>Go's \<^verbatim>\<open>int\<close> and \<^verbatim>\<open>int64\<close>: a mathematical integer brought back into the 64-bit range.\<close>

definition wrap64 :: "int \<Rightarrow> int" where
  "wrap64 x = (x + 2 ^ 63) mod 2 ^ 64 - 2 ^ 63"

definition int64_range :: "int \<Rightarrow> bool" where
  "int64_range x \<longleftrightarrow> - (2 ^ 63) \<le> x \<and> x < 2 ^ 63"

text \<open>\<^verbatim>\<open>copy(dst[off:], src)\<close>: as many elements as fit, the rest of \<open>dst\<close> unchanged.\<close>

definition go_copy :: "'a list \<Rightarrow> nat \<Rightarrow> 'a list \<Rightarrow> 'a list" where
  "go_copy dst off src =
     take off dst @ take (length dst - off) src @ drop (off + length src) dst"

text \<open>Reference definition of cutting a sequence into consecutive pieces of length \<open>n\<close>.\<close>

function chunks_of :: "nat \<Rightarrow> 'a list \<Rightarrow> 'a list list" where
  "chunks_of n xs = (if n = 0 \<or> xs = [] then [] else take n xs # chunks_of n (drop n xs))"
  by pat_completeness auto
termination
  by (relation "measure (\<lambda>(n, xs). length xs)") auto

declare chunks_of.simps [simp del]

section \<open>Lemmas on integers\<close>

lemma wrap64_id: "int64_range x \<Longrightarrow> wrap64 x = x"
  by (simp add: wrap64_def int64_range_def)

lemma wrap64_range: "int64_range (wrap64 x)"
proof -
  have "0 \<le> (x + 2 ^ 63) mod 2 ^ 64" and "(x + 2 ^ 63) mod 2 ^ 64 < 2 ^ 64"
    by simp_all
  then show ?thesis
    unfolding wrap64_def int64_range_def by auto
qed

lemma wrap64_over:
  assumes "2 ^ 63 \<le> x" and "x < 2 ^ 64"
  shows "wrap64 x = x - 2 ^ 64"
proof -
  have "(x + 2 ^ 63) mod 2 ^ 64 = (x + 2 ^ 63 - 2 ^ 64) mod 2 ^ 64" by (simp only: minus_mod_self2)
  also have "\<dots> = x + 2 ^ 63 - 2 ^ 64" using assms by (intro mod_pos_pos_trivial) simp_all
  finally show ?thesis by (simp add: wrap64_def)
qed

lemma wrap64_add_left: "wrap64 (wrap64 x + y) = wrap64 (x + y)"
proof -
  have "wrap64 x + y + 2 ^ 63 = (x + 2 ^ 63) mod 2 ^ 64 + y"
    by (simp add: wrap64_def)
  also have "\<dots> mod 2 ^ 64 = (x + y + 2 ^ 63) mod 2 ^ 64"
    by (subst mod_add_left_eq) (simp only: ac_simps)
  finally show ?thesis
    by (simp only: wrap64_def [of "wrap64 x + y"] wrap64_def [of "x + y"])
qed

section \<open>Lemmas on lists\<close>

lemma go_copy_length [simp]: "length (go_copy dst off src) = length dst"
  by (simp add: go_copy_def)

lemma go_copy_fill:
  "length src \<le> length dst \<Longrightarrow> go_copy dst 0 src = src @ drop (length src) dst"
  by (simp add: go_copy_def)

lemma go_copy_append:
  "length xs = off \<Longrightarrow> length src \<le> length ys \<Longrightarrow>
   go_copy (xs @ ys) off src = xs @ src @ drop (length src) ys"
  by (simp add: go_copy_def)

lemma chunks_of_Nil [simp]: "chunks_of n [] = []"
  by (simp add: chunks_of.simps)

lemma chunks_of_step:
  "0 < n \<Longrightarrow> xs \<noteq> [] \<Longrightarrow> chunks_of n xs = take n xs # chunks_of n (drop n xs)"
  by (subst chunks_of.simps) simp

lemma chunks_of_short:
  "0 < n \<Longrightarrow> xs \<noteq> [] \<Longrightarrow> length xs \<le> n \<Longrightarrow> chunks_of n xs = [xs]"
  by (simp add: chunks_of_step)

lemma concat_chunks_of: "0 < n \<Longrightarrow> concat (chunks_of n xs) = xs"
proof (induction n xs rule: chunks_of.induct)
  case (1 n xs)
  then show ?case
    by (cases "xs = []") (simp_all add: chunks_of_step)
qed

lemma chunks_of_nonempty_members: "c \<in> set (chunks_of n xs) \<Longrightarrow> c \<noteq> []"
proof (induction n xs rule: chunks_of.induct)
  case (1 n xs)
  then show ?case
    by (cases "n = 0 \<or> xs = []") (auto simp: chunks_of.simps [of n xs])
qed

lemma chunks_of_member_length: "c \<in> set (chunks_of n xs) \<Longrightarrow> length c \<le> n"
proof (induction n xs rule: chunks_of.induct)
  case (1 n xs)
  then show ?case
    by (cases "n = 0 \<or> xs = []") (auto simp: chunks_of.simps [of n xs])
qed

lemma chunks_of_butlast: "c \<in> set (butlast (chunks_of n xs)) \<Longrightarrow> length c = n"
proof (induction n xs rule: chunks_of.induct)
  case (1 n xs)
  show ?case
  proof (cases "n = 0 \<or> xs = []")
    case True
    with 1 show ?thesis by (auto simp: chunks_of.simps [of n xs])
  next
    case False
    with 1 show ?thesis
      by (cases "length xs \<le> n") (auto simp: chunks_of_step split: if_splits)
  qed
qed

lemma chunks_of_eq_Nil: "0 < n \<Longrightarrow> chunks_of n xs = [] \<longleftrightarrow> xs = []"
  by (cases "xs = []") (simp_all add: chunks_of_step)

lemma chunks_of_full:
  "0 < n \<Longrightarrow> n \<le> length xs \<Longrightarrow> chunks_of n xs = take n xs # chunks_of n (drop n xs)"
  by (rule chunks_of_step) auto

lemma length_chunks_of: "0 < n \<Longrightarrow> length (chunks_of n xs) = (length xs + n - 1) div n"
proof (induction n xs rule: chunks_of.induct)
  case (1 n xs)
  show ?case
  proof (cases "xs = []")
    case True
    with 1 show ?thesis by simp
  next
    case False
    have pos: "0 < length xs" using False by simp
    have IH: "length (chunks_of n (drop n xs)) = (length xs - n + n - 1) div n"
      using 1 False by simp
    have "Suc ((length xs - n + n - 1) div n) = (length xs + n - 1) div n"
    proof (cases "length xs \<le> n")
      case True
      then have "length xs + n - 1 = (length xs - 1) + n" and "length xs - 1 < n"
        using pos "1.prems" by linarith+
      then show ?thesis
        using True "1.prems" by (simp only: div_add_self2) simp
    next
      case False
      then have "length xs + n - 1 = (length xs - n + n - 1) + n"
        using pos by simp
      then show ?thesis using "1.prems" by (simp only: div_add_self2)
    qed
    with IH False "1.prems" show ?thesis by (simp add: chunks_of_step)
  qed
qed

section \<open>Go error values\<close>

text \<open>
  An error of the code is a text (\<^verbatim>\<open>errors.New\<close>, \<^verbatim>\<open>fmt.Errorf\<close> without \<^verbatim>\<open>%w\<close>), a text in
  front of a wrapped error (every \<^verbatim>\<open>%w\<close> of the sources ends its format), a sentinel of
  the standard library, an error of a library the sources only call, or a panic of the
  runtime, which ends the call like an error. Paths are a directory and a name in it.
\<close>

type_synonym path = "string \<times> string"

datatype errno = ENOENT | EIO | EISDIR | ENOTDIR | ENOTEMPTY

datatype go_error =
    Errorf string
  | Wrapf string go_error
  | Io_EOF
  | Io_ErrUnexpectedEOF
  | Fs_ErrNotExist
  | PathError string path errno
  | LinkError string path path errno
  | Hex_InvalidByteError char
  | Hex_ErrLength
  | Net_ErrClosed
  | ExtError string
  | GoPanic string

type_synonym 'a result = "go_error + 'a"

lemma sum_result_cases: "(\<exists>e. r = Inl e) \<or> (\<exists>v. r = Inr (v :: 'a))" for r :: "'a result"
  by (cases r) auto

end
