(* ===== verification/Go_Strings.thy ===== *)
theory Go_Strings
  imports Go_Prelude
begin

text \<open>
  The string functions of the standard library that the sources use: decimal and
  hexadecimal conversion (\<^verbatim>\<open>strconv.Itoa\<close> as done by \<^verbatim>\<open>%d\<close>,
  \<^verbatim>\<open>hex.EncodeToString\<close>, \<^verbatim>\<open>hex.DecodeString\<close>) and the text of an error
  (\<^verbatim>\<open>err.Error()\<close>, the verb \<^verbatim>\<open>%v\<close>). A Go string is a sequence of bytes, here a \<open>string\<close>.
  The lemmas are the round trips and the case-folding law of the hexadecimal decoder.
\<close>

section \<open>Hexadecimal\<close>

definition hextable :: string where
  "hextable = ''0123456789abcdef''"

definition hex_EncodeToString :: "bytes \<Rightarrow> string" where
  "hex_EncodeToString bs =
     concat (map (\<lambda>b. [hextable ! unat (drop_bit 4 b), hextable ! unat (b AND 0x0f)]) bs)"

definition unhex :: "char \<Rightarrow> byte option" where
  "unhex c =
     (let n = of_char c :: nat in
      if 48 \<le> n \<and> n \<le> 57 then Some (of_nat (n - 48))
      else if 97 \<le> n \<and> n \<le> 102 then Some (of_nat (n - 87))
      else if 65 \<le> n \<and> n \<le> 70 then Some (of_nat (n - 55))
      else None)"

fun hex_DecodeString :: "string \<Rightarrow> bytes result" where
  "hex_DecodeString [] = Inr []"
| "hex_DecodeString [p] =
     (case unhex p of None \<Rightarrow> Inl (Hex_InvalidByteError p) | Some _ \<Rightarrow> Inl Hex_ErrLength)"
| "hex_DecodeString (p # q # r) =
     (case unhex p of
        None \<Rightarrow> Inl (Hex_InvalidByteError p)
      | Some a \<Rightarrow>
          (case unhex q of
             None \<Rightarrow> Inl (Hex_InvalidByteError q)
           | Some b \<Rightarrow>
               (case hex_DecodeString r of
                  Inl e \<Rightarrow> Inl e
                | Inr bs \<Rightarrow> Inr ((push_bit 4 a OR b) # bs))))"

text \<open>The lower-case form of a hexadecimal digit; other characters are unchanged.\<close>

definition hex_lower :: "char \<Rightarrow> char" where
  "hex_lower c = (case unhex c of None \<Rightarrow> c | Some v \<Rightarrow> hextable ! unat v)"

section \<open>Decimal\<close>

definition digit_char :: "nat \<Rightarrow> char" where
  "digit_char d = ''0123456789'' ! d"

fun nat_str :: "nat \<Rightarrow> string" where
  "nat_str n = (if n < 10 then [digit_char n] else nat_str (n div 10) @ [digit_char (n mod 10)])"

declare nat_str.simps [simp del]

definition itoa :: "int \<Rightarrow> string" where
  "itoa i = (if i < 0 then CHR ''-'' # nat_str (nat (- i)) else nat_str (nat i))"

section \<open>The text of an error\<close>

fun errno_str :: "errno \<Rightarrow> string" where
  "errno_str ENOENT = ''no such file or directory''"
| "errno_str EIO = ''input/output error''"
| "errno_str EISDIR = ''is a directory''"
| "errno_str ENOTDIR = ''not a directory''"
| "errno_str ENOTEMPTY = ''directory not empty''"

definition path_str :: "path \<Rightarrow> string" where
  "path_str p = fst p @ ''/'' @ snd p"

text \<open>
  The verb \<^verbatim>\<open>%#U\<close> of an invalid byte: the code point, and the character in quotes where
  it is printable (a code point above 127 is two bytes of UTF-8).
\<close>

definition utf8_latin1 :: "nat \<Rightarrow> string" where
  "utf8_latin1 n =
     (if n < 128 then [char_of n] else [char_of (192 + n div 64), char_of (128 + n mod 64)])"

definition quoted_code_point :: "char \<Rightarrow> string" where
  "quoted_code_point c =
     (let n = of_char c :: nat; up = ''0123456789ABCDEF'' in
      ''U+00'' @ [up ! (n div 16), up ! (n mod 16)]
      @ (if 32 \<le> n \<and> n < 127 \<or> 161 \<le> n \<and> n \<noteq> 173
         then [CHR '' '', CHR 0x27] @ utf8_latin1 n @ [CHR 0x27] else []))"

fun Error_str :: "go_error \<Rightarrow> string" where
  "Error_str (Errorf s) = s"
| "Error_str (Wrapf s e) = s @ Error_str e"
| "Error_str Io_EOF = ''EOF''"
| "Error_str Io_ErrUnexpectedEOF = ''unexpected EOF''"
| "Error_str Fs_ErrNotExist = ''file does not exist''"
| "Error_str (PathError op p e) = op @ '' '' @ path_str p @ '': '' @ errno_str e"
| "Error_str (LinkError op p q e) =
     op @ '' '' @ path_str p @ '' '' @ path_str q @ '': '' @ errno_str e"
| "Error_str (Hex_InvalidByteError c) = ''encoding/hex: invalid byte: '' @ quoted_code_point c"
| "Error_str Hex_ErrLength = ''encoding/hex: odd length hex string''"
| "Error_str Net_ErrClosed = ''use of closed network connection''"
| "Error_str (ExtError s) = s"
| "Error_str (GoPanic s) = s"

section \<open>Lemmas on the hexadecimal codec\<close>

lemma unhex_hextable: "n < 16 \<Longrightarrow> unhex (hextable ! n) = Some (of_nat n)"
proof -
  have "\<forall>n \<in> set [0..<16]. unhex (hextable ! n) = Some (of_nat n)"
    by (simp add: hextable_def unhex_def upt_rec numeral_nat)
  then show "n < 16 \<Longrightarrow> ?thesis" by simp
qed

lemma low_nibble: "b AND 0x0f = take_bit 4 (b :: byte)"
  by (simp add: take_bit_eq_mask mask_eq_exp_minus_1)

lemma unat_high_nibble: "unat (drop_bit 4 (b :: byte)) < 16"
proof -
  have "unat (drop_bit 4 b) = unat b div 16"
    by (simp add: drop_bit_eq_div unat_div)
  moreover have "unat b < 256" using unsigned_less [of b] by simp
  ultimately show ?thesis by simp
qed

lemma unat_low_nibble: "unat ((b :: byte) AND 0x0f) < 16"
  unfolding low_nibble by (simp add: take_bit_eq_mod unat_mod)

lemma nibbles_join: "push_bit 4 (drop_bit 4 b) OR (b AND 0x0f) = (b :: byte)"
  unfolding low_nibble by (rule bit_word_eqI) (auto simp: bit_simps)

lemma hex_EncodeToString_simps [simp]:
  "hex_EncodeToString [] = []"
  "hex_EncodeToString (b # bs) =
     hextable ! unat (drop_bit 4 b) # hextable ! unat (b AND 0x0f) # hex_EncodeToString bs"
  by (simp_all add: hex_EncodeToString_def)

lemma hex_decode_encode: "hex_DecodeString (hex_EncodeToString bs) = Inr bs"
  by (induction bs)
    (simp_all add: unhex_hextable unat_high_nibble unat_low_nibble nibbles_join del: word_and_le1)

lemma length_hex_encode [simp]: "length (hex_EncodeToString bs) = 2 * length bs"
  by (induction bs) simp_all

lemma hex_encode_inject: "hex_EncodeToString a = hex_EncodeToString b \<longleftrightarrow> a = b"
  by (metis hex_decode_encode sum.inject(2))

lemma length_hex_decode: "hex_DecodeString s = Inr bs \<Longrightarrow> length s = 2 * length bs"
  by (induction s arbitrary: bs rule: hex_DecodeString.induct)
    (auto split: option.splits sum.splits)

lemma unhex_bound: "unhex c = Some v \<Longrightarrow> unat v < 16"
proof -
  assume "unhex c = Some v"
  then obtain k where "v = of_nat k" and "k < 16"
    unfolding unhex_def Let_def by (fastforce split: if_splits simp del: of_nat_diff)
  then show ?thesis by (simp add: unat_of_nat)
qed

lemma small_take_bit: "unat a < 16 \<Longrightarrow> take_bit 4 a = (a :: byte)"
  by (simp add: word_unat_eq_iff take_bit_eq_mod unat_mod)

lemma nibbles_split:
  assumes "unat a < 16" and "unat b < 16"
  shows "drop_bit 4 (push_bit 4 a OR b) = a" and "(push_bit 4 a OR b) AND 0x0f = (b :: byte)"
proof -
  have "drop_bit 4 (push_bit 4 (take_bit 4 a) OR take_bit 4 b) = take_bit 4 a"
    by (rule bit_word_eqI) (auto simp: bit_simps)
  moreover have "take_bit 4 (push_bit 4 (take_bit 4 a) OR take_bit 4 b) = take_bit 4 b"
    by (rule bit_word_eqI) (auto simp: bit_simps)
  ultimately show "drop_bit 4 (push_bit 4 a OR b) = a" and "(push_bit 4 a OR b) AND 0x0f = b"
    using assms by (simp_all only: small_take_bit low_nibble)
qed

text \<open>Decoding ignores the case of the digits, encoding writes lower case.\<close>

lemma hex_encode_decode: "hex_DecodeString s = Inr bs \<Longrightarrow> hex_EncodeToString bs = map hex_lower s"
proof (induction s arbitrary: bs rule: hex_DecodeString.induct)
  case (3 p q r)
  then obtain a b bs' where ab: "unhex p = Some a" "unhex q = Some b"
    and r: "hex_DecodeString r = Inr bs'" and bs: "bs = (push_bit 4 a OR b) # bs'"
    by (auto split: option.splits sum.splits)
  have "hex_EncodeToString bs' = map hex_lower r"
    using 3 ab r by simp
  with ab bs show ?case
    by (simp add: hex_lower_def nibbles_split unhex_bound del: drop_bit_or)
qed (auto split: option.splits)

lemma hex_encode_chars: "c \<in> set (hex_EncodeToString bs) \<Longrightarrow> unhex c \<noteq> None"
  by (induction bs) (auto simp: unhex_hextable unat_high_nibble unat_low_nibble)

lemma hex_decode_chars: "hex_DecodeString s = Inr bs \<Longrightarrow> c \<in> set s \<Longrightarrow> unhex c \<noteq> None"
  by (induction s arbitrary: bs rule: hex_DecodeString.induct)
    (auto split: option.splits sum.splits)

lemma Error_str_Wrapf_nonempty [simp]: "s \<noteq> [] \<Longrightarrow> Error_str (Wrapf s e) \<noteq> []"
  by simp

lemma unhex_lower [simp]: "unhex (hex_lower c) = unhex c"
  by (auto simp: hex_lower_def unhex_hextable unhex_bound split: option.splits)

lemma hex_decode_lower: "hex_DecodeString (map hex_lower s) = Inr bs \<longleftrightarrow> hex_DecodeString s = Inr bs"
  by (induction s arbitrary: bs rule: hex_DecodeString.induct) (fastforce split: option.splits sum.splits)+

end
