(* ===== verification/Kad_Id.thy ===== *)
theory Kad_Id
  imports Go_Strings
begin

text \<open>
  Kademlia identifiers, \<^verbatim>\<open>internal/dht/id.go\<close>: arrays of 20 bytes with the loops for XOR,
  equality, the lexicographic order and the number of leading zero bits. \<open>ID_val\<close> reads an
  identifier as a 160-bit number; against it the loops are shown correct: \<open>ID_Less\<close> is the
  numeric order (and makes the type a linear order), \<open>ID_PrefixLen\<close> is the position of the
  most significant bit, and XOR is a metric.
\<close>

section \<open>The array type\<close>

definition IDBits :: nat where
  "IDBits = 160"

definition IDBytes :: nat where
  "IDBytes = IDBits div 8"

typedef ID = "{bs :: bytes. length bs = 20}"
  morphisms ID_arr Abs_ID
  by (rule exI [of _ "replicate 20 0"]) simp

setup_lifting type_definition_ID

lift_definition ID_zero :: ID is "replicate 20 0 :: bytes"
  by simp

lift_definition ID_of_slice :: "bytes \<Rightarrow> ID" is "\<lambda>b :: bytes. go_copy (replicate 20 0) 0 b"
  by simp

section \<open>Operations\<close>

text \<open>\<open>rnd\<close> is the outcome of \<^verbatim>\<open>rand.Read\<close> on the array.\<close>

definition NewRandomID :: "bytes result \<Rightarrow> ID result" where
  "NewRandomID rnd =
     (case rnd of Inl e \<Rightarrow> Inl (Wrapf ''NewRandomID: '' e) | Inr bs \<Rightarrow> Inr (ID_of_slice bs))"

definition MustRandomID :: "bytes result \<Rightarrow> ID option" where
  "MustRandomID rnd = (case NewRandomID rnd of Inl _ \<Rightarrow> None | Inr i \<Rightarrow> Some i)"

definition IDFromBytes :: "bytes \<Rightarrow> ID result" where
  "IDFromBytes b =
     (if length b \<noteq> IDBytes
      then Inl (Errorf (''IDFromBytes: invalid length '' @ itoa (int (length b)) @ '', want '' @ itoa (int IDBytes)))
      else Inr (ID_of_slice b))"

definition IDFromHex :: "string \<Rightarrow> ID result" where
  "IDFromHex s =
     (case hex_DecodeString s of
        Inl e \<Rightarrow> Inl (Wrapf ''IDFromHex: decode error: '' e)
      | Inr raw \<Rightarrow> IDFromBytes raw)"

definition ID_String :: "ID \<Rightarrow> string" where
  "ID_String i = hex_EncodeToString (ID_arr i)"

lift_definition ID_XOR :: "ID \<Rightarrow> ID \<Rightarrow> ID" is "\<lambda>a b :: bytes. map2 (XOR) a b"
  by simp

fun equals_loop :: "bytes \<Rightarrow> bytes \<Rightarrow> bool" where
  "equals_loop (x # xs) (y # ys) = (if x \<noteq> y then False else equals_loop xs ys)"
| "equals_loop _ _ = True"

definition ID_Equals :: "ID \<Rightarrow> ID \<Rightarrow> bool" where
  "ID_Equals a b = equals_loop (ID_arr a) (ID_arr b)"

fun less_loop :: "bytes \<Rightarrow> bytes \<Rightarrow> bool" where
  "less_loop (x # xs) (y # ys) = (if x < y then True else if y < x then False else less_loop xs ys)"
| "less_loop _ _ = False"

definition ID_Less :: "ID \<Rightarrow> ID \<Rightarrow> bool" where
  "ID_Less a b = less_loop (ID_arr a) (ID_arr b)"

text \<open>The inner loop, from bit \<open>j - 1\<close> down; the flag says that a one bit was met.\<close>

fun lead_loop :: "byte \<Rightarrow> nat \<Rightarrow> nat \<Rightarrow> nat \<times> bool" where
  "lead_loop b 0 count = (count, False)"
| "lead_loop b (Suc j) count =
     (if b AND push_bit j 1 = 0 then lead_loop b j (count + 1) else (count, True))"

fun prefix_loop :: "bytes \<Rightarrow> nat \<Rightarrow> nat" where
  "prefix_loop [] count = count"
| "prefix_loop (b # bs) count =
     (if b = 0 then prefix_loop bs (count + 8)
      else case lead_loop b 8 count of
             (c, True) \<Rightarrow> c
           | (c, False) \<Rightarrow> prefix_loop bs c)"

definition ID_PrefixLen :: "ID \<Rightarrow> nat" where
  "ID_PrefixLen i = prefix_loop (ID_arr i) 0"

section \<open>Identifiers as numbers\<close>

fun be_val :: "bytes \<Rightarrow> nat" where
  "be_val [] = 0"
| "be_val (b # bs) = unat b * 256 ^ length bs + be_val bs"

definition ID_val :: "ID \<Rightarrow> nat" where
  "ID_val i = be_val (ID_arr i)"

lemma unat_byte_less: "unat (b :: byte) < 256"
  using unsigned_less [of b] by simp

lemma be_val_bound: "be_val bs < 256 ^ length bs"
proof (induction bs)
  case (Cons b bs)
  have "unat b * 256 ^ length bs + be_val bs < (unat b + 1) * 256 ^ length bs"
    using Cons by simp
  also have "\<dots> \<le> 256 * 256 ^ length bs"
    using unat_byte_less [of b] by (intro mult_le_mono1) simp
  finally show ?case by simp
qed simp

lemma be_val_Cons_less:
  assumes "length xs = length ys"
  shows "be_val (x # xs) < be_val (y # ys) \<longleftrightarrow> x < y \<or> x = y \<and> be_val xs < be_val ys"
proof -
  let ?m = "256 ^ length ys :: nat"
  have bx: "be_val xs < ?m" and b: "be_val ys < ?m"
    using be_val_bound [of xs] be_val_bound [of ys] assms by simp_all
  have step: "a * ?m + u < c * ?m + v" if "a < c" "u < ?m" for a c u v :: nat
  proof -
    have "a * ?m + u < (a + 1) * ?m" using that by simp
    also have "\<dots> \<le> c * ?m" using that by (intro mult_le_mono1) simp
    finally show ?thesis by simp
  qed
  have len: "(256 :: nat) ^ length xs = ?m" using assms by simp
  consider (lt) "unat x < unat y" | (gt) "unat y < unat x" | (eq) "x = y"
    by (metis nat_neq_iff word_unat_eq_iff)
  then show ?thesis
  proof cases
    case lt
    with step [OF lt bx, of "be_val ys"] show ?thesis by (simp add: len word_less_nat_alt)
  next
    case gt
    then have "\<not> x < y" "x \<noteq> y" by (auto simp: word_less_nat_alt)
    with step [OF gt b, of "be_val xs"] show ?thesis by (simp add: len)
  next
    case eq
    then show ?thesis by (simp add: len)
  qed
qed

lemma be_val_inject: "length xs = length ys \<Longrightarrow> be_val xs = be_val ys \<longleftrightarrow> xs = ys"
proof (induction xs ys rule: list_induct2)
  case (Cons x xs y ys)
  have "be_val (x # xs) = be_val (y # ys) \<longleftrightarrow>
      \<not> be_val (x # xs) < be_val (y # ys) \<and> \<not> be_val (y # ys) < be_val (x # xs)"
    by auto
  also have "\<dots> \<longleftrightarrow> x = y \<and> be_val xs = be_val ys"
    using Cons.hyps unfolding be_val_Cons_less [OF Cons.hyps] be_val_Cons_less [OF Cons.hyps [symmetric]]
    by auto
  finally show ?case using Cons.IH by simp
qed simp

lemma length_ID_arr [simp]: "length (ID_arr i) = 20"
  using ID_arr [of i] by simp

lemma ID_eq_iff: "i = j \<longleftrightarrow> ID_arr i = ID_arr j"
  by (simp add: ID_arr_inject)

lemma ID_val_inject [simp]: "ID_val a = ID_val b \<longleftrightarrow> a = b"
  by (simp add: ID_val_def be_val_inject ID_eq_iff)

lemma ID_val_bound: "ID_val a < 2 ^ 160"
proof -
  have "ID_val a < 256 ^ 20"
    using be_val_bound [of "ID_arr a"] by (simp add: ID_val_def)
  also have "(256 :: nat) ^ 20 = 2 ^ 160" by simp
  finally show ?thesis .
qed

section \<open>Equality and order\<close>

lemma equals_loop_iff: "length xs = length ys \<Longrightarrow> equals_loop xs ys \<longleftrightarrow> xs = ys"
  by (induction xs ys rule: list_induct2) auto

lemma ID_Equals_iff [simp]: "ID_Equals a b \<longleftrightarrow> a = b"
  by (simp add: ID_Equals_def equals_loop_iff ID_eq_iff)

lemma less_loop_val: "length xs = length ys \<Longrightarrow> less_loop xs ys \<longleftrightarrow> be_val xs < be_val ys"
proof (induction xs ys rule: list_induct2)
  case (Cons x xs y ys)
  show ?case
    unfolding be_val_Cons_less [OF Cons.hyps] using Cons.IH by auto
qed simp

lemma ID_Less_val: "ID_Less a b \<longleftrightarrow> ID_val a < ID_val b"
  by (simp add: ID_Less_def ID_val_def less_loop_val)

instantiation ID :: linorder
begin

definition less_ID :: "ID \<Rightarrow> ID \<Rightarrow> bool" where
  "less_ID a b \<longleftrightarrow> ID_Less a b"

definition less_eq_ID :: "ID \<Rightarrow> ID \<Rightarrow> bool" where
  "less_eq_ID a b \<longleftrightarrow> a = b \<or> ID_Less a b"

instance
  by standard (auto simp: less_ID_def less_eq_ID_def ID_Less_val)

end

lemma ID_less_eq_val: "a \<le> b \<longleftrightarrow> ID_val a \<le> ID_val b"
  by (auto simp: less_eq_ID_def ID_Less_val le_less)

instantiation ID :: equal
begin

definition equal_ID :: "ID \<Rightarrow> ID \<Rightarrow> bool" where
  "equal_ID a b \<longleftrightarrow> ID_Equals a b"

instance
  by standard (simp add: equal_ID_def)

end

section \<open>Printing and parsing\<close>

lemma ID_of_slice_arr: "length b = 20 \<Longrightarrow> ID_arr (ID_of_slice b) = b"
  by (simp add: ID_of_slice.rep_eq go_copy_fill)

lemma IDBytes_20 [simp]: "IDBytes = 20"
  by (simp add: IDBytes_def IDBits_def)

lemma IDFromHex_String: "IDFromHex (ID_String i) = Inr i"
  by (simp add: IDFromHex_def ID_String_def hex_decode_encode IDFromBytes_def ID_eq_iff ID_of_slice_arr)

lemma ID_String_inject [simp]: "ID_String a = ID_String b \<longleftrightarrow> a = b"
  by (simp add: ID_String_def hex_encode_inject ID_eq_iff)

section \<open>XOR\<close>

lemma arr_XOR [simp]: "ID_arr (ID_XOR a b) = map2 (XOR) (ID_arr a) (ID_arr b)"
  by (simp add: ID_XOR.rep_eq)

lemma map2_xor_comm: "map2 (XOR) xs ys = map2 (XOR) ys (xs :: bytes)"
  by (rule nth_equalityI) (simp_all add: xor.commute)

lemma map2_xor_cancel: "length xs = length ys \<Longrightarrow> map2 (XOR) xs (map2 (XOR) xs ys) = (ys :: bytes)"
  by (induction xs ys rule: list_induct2) (simp_all add: xor.assoc [symmetric])

lemma ID_XOR_comm: "ID_XOR a b = ID_XOR b a"
  by (simp add: ID_eq_iff map2_xor_comm)

lemma ID_XOR_cancel [simp]: "ID_XOR a (ID_XOR a b) = b"
  by (simp add: ID_eq_iff map2_xor_cancel)

lemma ID_XOR_inject [simp]: "ID_XOR a b = ID_XOR a c \<longleftrightarrow> b = c"
  by (metis ID_XOR_cancel)

lemma ID_XOR_self: "ID_XOR a a = ID_zero"
proof -
  have "map2 (XOR) xs xs = replicate (length xs) (0 :: byte)" for xs :: bytes
    by (induction xs) simp_all
  then show ?thesis by (simp add: ID_eq_iff ID_zero.rep_eq)
qed

lemma ID_XOR_zero_iff: "ID_XOR a b = ID_zero \<longleftrightarrow> a = b"
  using ID_XOR_inject [of a b a] by (auto simp: ID_XOR_self)

lemma ID_XOR_trans: "ID_XOR (ID_XOR a b) (ID_XOR b c) = ID_XOR a c"
proof -
  have "length xs = length ys \<Longrightarrow> length ys = length zs \<Longrightarrow>
      map2 (XOR) (map2 (XOR) xs ys) (map2 (XOR) ys zs) = map2 (XOR) xs zs" for xs ys zs :: bytes
  proof (induction xs ys zs rule: list_induct3)
    case (Cons x xs y ys z zs)
    have "(x XOR y) XOR (y XOR z) = x XOR z"
      by (metis xor.assoc xor.left_commute xor_self_eq xor.right_neutral)
    with Cons show ?case by simp
  qed simp
  then show ?thesis by (simp add: ID_eq_iff)
qed

lemma nat_xor_le: "m XOR n \<le> m + (n :: nat)"
proof (induction "m + n" arbitrary: m n rule: less_induct)
  case less
  show ?case
  proof (cases "m + n = 0")
    case False
    then have "m div 2 + n div 2 < m + n" by presburger
    then have "m div 2 XOR n div 2 \<le> m div 2 + n div 2" by (rule less)
    then have "2 * (m div 2 XOR n div 2) \<le> 2 * (m div 2) + 2 * (n div 2)" by simp
    moreover have "of_bool (odd m \<noteq> odd n) + 2 * (m div 2) + 2 * (n div 2) \<le> m + n"
      by (cases "odd m"; cases "odd n") simp_all
    ultimately show ?thesis
      by (subst xor_nat_rec) linarith
  qed simp
qed

lemma unat_xor_le: "unat (x XOR y) \<le> unat x + unat (y :: byte)"
  by (simp add: unsigned_xor_eq nat_xor_le)

lemma be_val_xor_le: "length xs = length ys \<Longrightarrow> be_val (map2 (XOR) xs ys) \<le> be_val xs + be_val ys"
proof (induction xs ys rule: list_induct2)
  case (Cons x xs y ys)
  have "unat (x XOR y) * 256 ^ length ys \<le> (unat x + unat y) * 256 ^ length ys"
    by (intro mult_le_mono1 unat_xor_le)
  then show ?case using Cons by (simp add: algebra_simps)
qed simp

lemma ID_XOR_triangle: "ID_val (ID_XOR a c) \<le> ID_val (ID_XOR a b) + ID_val (ID_XOR b c)"
  using be_val_xor_le [of "ID_arr (ID_XOR a b)" "ID_arr (ID_XOR b c)"]
  by (simp add: ID_val_def ID_XOR_trans [of a b c, symmetric])

section \<open>Leading zero bits\<close>

lemma bit_byte_iff: "j < 8 \<Longrightarrow> (b AND push_bit j 1 = 0) \<longleftrightarrow> \<not> bit (b :: byte) j"
  by (simp add: push_bit_eq_mult and_exp_eq_0_iff_not_bit)

lemma nat_top_bit:
  assumes "n < 2 ^ Suc j"
  shows "bit (n :: nat) j \<longleftrightarrow> 2 ^ j \<le> n"
proof (cases "n < 2 ^ j")
  case True
  then show ?thesis by (simp add: bit_iff_odd)
next
  case False
  then have "n div 2 ^ j = 1"
    using assms by (intro div_nat_eqI) simp_all
  with False show ?thesis by (simp add: bit_iff_odd)
qed

lemma lead_loop_spec:
  assumes "unat b < 2 ^ j" and "b \<noteq> 0" and "j \<le> 8"
  shows "\<exists>t < j. lead_loop b j count = (count + (j - 1 - t), True) \<and> 2 ^ t \<le> unat b \<and> unat b < 2 ^ Suc t"
  using assms
proof (induction j arbitrary: count)
  case (Suc j)
  have bit: "(b AND push_bit j 1 = 0) \<longleftrightarrow> \<not> 2 ^ j \<le> unat b"
    using Suc.prems nat_top_bit [of "unat b" j] bit_byte_iff [of j b] by (simp add: bit_unsigned_iff)
  show ?case
  proof (cases "2 ^ j \<le> unat b")
    case True
    with bit Suc.prems show ?thesis by (intro exI [of _ j]) simp
  next
    case False
    then obtain t where "t < j" "lead_loop b j (count + 1) = (count + 1 + (j - 1 - t), True)"
      "2 ^ t \<le> unat b" "unat b < 2 ^ Suc t"
      using Suc by (metis Suc_leD not_le)
    with False bit show ?thesis by (intro exI [of _ t]) auto
  qed
qed (simp add: word_unat_eq_iff)

lemma prefix_loop_zero: "be_val bs = 0 \<Longrightarrow> prefix_loop bs count = count + 8 * length bs"
  by (induction bs arbitrary: count) (auto simp: word_unat_eq_iff)

lemma prefix_loop_spec:
  "be_val bs \<noteq> 0 \<Longrightarrow>
   \<exists>p. prefix_loop bs count = count + p \<and> p < 8 * length bs \<and>
       2 ^ (8 * length bs - p - 1) \<le> be_val bs \<and> be_val bs < 2 ^ (8 * length bs - p)"
proof (induction bs arbitrary: count)
  case (Cons b bs)
  let ?n = "8 * length bs"
  have pow: "(256 :: nat) ^ length bs = 2 ^ ?n" by (simp add: power_mult)
  have bnd: "be_val bs < 2 ^ ?n" using be_val_bound [of bs] pow by simp
  show ?case
  proof (cases "b = 0")
    case True
    with Cons obtain p where p: "prefix_loop bs (count + 8) = count + 8 + p" "p < ?n"
      "2 ^ (?n - p - 1) \<le> be_val bs" "be_val bs < 2 ^ (?n - p)"
      by auto
    with True show ?thesis by (intro exI [of _ "8 + p"]) auto
  next
    case False
    then obtain t where t: "t < 8" "lead_loop b 8 count = (count + (7 - t), True)"
      "2 ^ t \<le> unat b" "unat b < 2 ^ Suc t"
      using lead_loop_spec [of b 8 count] unat_byte_less [of b] by auto
    have "2 ^ (t + ?n) \<le> be_val (b # bs)"
    proof -
      have "2 ^ t * 2 ^ ?n \<le> unat b * 2 ^ ?n" using t by simp
      then show ?thesis using pow by (simp add: power_add trans_le_add1)
    qed
    moreover have "be_val (b # bs) < 2 ^ Suc (t + ?n)"
    proof -
      have "unat b * 2 ^ ?n + be_val bs < (unat b + 1) * 2 ^ ?n" using bnd by simp
      also have "\<dots> \<le> 2 ^ Suc t * 2 ^ ?n" using t by (intro mult_le_mono1) simp
      finally show ?thesis using pow by (simp add: power_add)
    qed
    moreover have "8 * length (b # bs) - (7 - t) - 1 = t + ?n"
      "8 * length (b # bs) - (7 - t) = Suc (t + ?n)" using t(1) by auto
    ultimately show ?thesis using False t by (intro exI [of _ "7 - t"]) (simp add: add.commute)
  qed
qed simp

lemma ID_PrefixLen_zero: "ID_PrefixLen ID_zero = 160"
proof -
  have "be_val (replicate n 0) = 0" for n by (induction n) simp_all
  then show ?thesis by (simp add: ID_PrefixLen_def ID_zero.rep_eq prefix_loop_zero)
qed

lemma ID_val_zero: "ID_val i = 0 \<longleftrightarrow> i = ID_zero"
proof -
  have "be_val (replicate n 0) = 0" for n by (induction n) simp_all
  then have "ID_val ID_zero = 0" by (simp add: ID_val_def ID_zero.rep_eq)
  then show ?thesis using ID_val_inject [of i ID_zero] by auto
qed

lemma ID_PrefixLen_bounds:
  assumes "i \<noteq> ID_zero"
  shows "ID_PrefixLen i < 160" and "2 ^ (159 - ID_PrefixLen i) \<le> ID_val i"
    and "ID_val i < 2 ^ (160 - ID_PrefixLen i)"
proof -
  have "be_val (ID_arr i) \<noteq> 0" using assms ID_val_zero by (simp add: ID_val_def)
  then obtain p where "ID_PrefixLen i = p" "p < 160"
    "2 ^ (160 - p - 1) \<le> ID_val i" "ID_val i < 2 ^ (160 - p)"
    using prefix_loop_spec [of "ID_arr i" 0] by (auto simp: ID_PrefixLen_def ID_val_def)
  then show "ID_PrefixLen i < 160" and "2 ^ (159 - ID_PrefixLen i) \<le> ID_val i"
    and "ID_val i < 2 ^ (160 - ID_PrefixLen i)"
    by simp_all
qed

lemma ID_PrefixLen_le: "ID_PrefixLen i \<le> 160"
  using ID_PrefixLen_bounds(1) [of i] ID_PrefixLen_zero by (cases "i = ID_zero") auto

section \<open>Properties\<close>

text \<open>
  The XOR distance is a metric: it is zero exactly between equal identifiers, symmetric, satisfies
  the triangle inequality, and is unidirectional (for a point and a distance there is exactly
  one identifier).
\<close>

theorem ID_XOR_metric:
  "(ID_val (ID_XOR a b) = 0 \<longleftrightarrow> a = b) \<and>
   ID_XOR a b = ID_XOR b a \<and>
   ID_val (ID_XOR a c) \<le> ID_val (ID_XOR a b) + ID_val (ID_XOR b c) \<and>
   (\<exists>!d. ID_XOR a d = b)"
proof (intro conjI)
  show "\<exists>!d. ID_XOR a d = b" by (metis ID_XOR_cancel)
qed (simp_all add: ID_val_zero ID_XOR_zero_iff ID_XOR_comm ID_XOR_triangle)

text \<open>
  \<^verbatim>\<open>Less\<close> is the order of the identifiers read as 160-bit big-endian numbers and \<^verbatim>\<open>Equals\<close> is
  equality; \<^verbatim>\<open>PrefixLen\<close> is 160 for the zero identifier and otherwise the number of bits above
  the highest one bit.
\<close>

theorem ID_order_and_prefix:
  "(ID_Less a b \<longleftrightarrow> ID_val a < ID_val b) \<and> (ID_Equals a b \<longleftrightarrow> a = b) \<and>
   (if ID_val a = 0 then ID_PrefixLen a = 160
    else ID_PrefixLen a < 160 \<and> 2 ^ (159 - ID_PrefixLen a) \<le> ID_val a \<and> ID_val a < 2 ^ (160 - ID_PrefixLen a))"
  using ID_PrefixLen_bounds [of a] by (auto simp: ID_Less_val ID_val_zero ID_PrefixLen_zero)

text \<open>
  \<^verbatim>\<open>IDFromHex\<close> accepts exactly the hexadecimal forms, in either case, of 20-byte identifiers, and
  gives the identifier that prints as the text in lower case.
\<close>

theorem IDFromHex_iff: "IDFromHex s = Inr i \<longleftrightarrow> map hex_lower s = ID_String i"
proof
  assume "IDFromHex s = Inr i"
  then have "hex_DecodeString s = Inr (ID_arr i)"
    by (auto simp: IDFromHex_def IDFromBytes_def ID_of_slice_arr split: sum.splits if_splits)
  then show "map hex_lower s = ID_String i" by (simp add: ID_String_def hex_encode_decode)
next
  assume "map hex_lower s = ID_String i"
  then have "hex_DecodeString s = Inr (ID_arr i)"
    using hex_decode_lower [of s "ID_arr i"] by (simp add: ID_String_def hex_decode_encode)
  then show "IDFromHex s = Inr i"
    by (simp add: IDFromHex_def IDFromBytes_def ID_of_slice_arr ID_eq_iff)
qed

end
