(* ===== verification/Routing_Table.thy ===== *)
theory Routing_Table
  imports Kad_Id "HOL-Library.Multiset"
begin

text \<open>
  The Kademlia routing table, \<^verbatim>\<open>internal/dht/routing_table.go\<close> and
  \<^verbatim>\<open>internal/dht/constants.go\<close>. A bucket is the slice of its contacts, most recently seen
  first. The reading of \<^verbatim>\<open>time.Now()\<close> is the argument \<open>now\<close> of \<open>AddContact\<close>.

  The invariant \<open>rt_inv\<close> says that the table has 160 buckets of at most K contacts, that no
  identifier occurs twice, that every contact is in the bucket of its distance, and that the
  node itself is nowhere. \<open>lru_add\<close> is the least-recently-seen cache a bucket is meant to be,
  and \<open>recency\<close> what such a cache holds after a history of insertions.
\<close>

section \<open>Data\<close>

definition K :: nat where
  "K = 20"

definition Alpha :: nat where
  "Alpha = 3"

text \<open>Nanoseconds from the Unix epoch; the zero \<^verbatim>\<open>time.Time\<close> is January 1 of year 1.\<close>

type_synonym time = int

definition time_zero :: time where
  "time_zero = - 62135596800 * 10 ^ 9"

definition Unix :: "time \<Rightarrow> int" where
  "Unix t = t div 10 ^ 9"

record Contact =
  ct_ID :: ID
  ct_Address :: string
  ct_LastSeen :: time

type_synonym bucket = "Contact list"

record RoutingTable =
  rt_self :: ID
  rt_buckets :: "bucket list"

section \<open>Operations\<close>

fun touch_at :: "bucket \<Rightarrow> Contact list \<Rightarrow> nat \<Rightarrow> ID \<Rightarrow> bucket \<times> bool" where
  "touch_at b [] i nid = (b, False)"
| "touch_at b (c # cs) i nid =
     (if ID_Equals (ct_ID c) nid
      then (if i = 0 then (b, True) else (c # (take i b @ drop (i + 1) b), True))
      else touch_at b cs (i + 1) nid)"

definition touch :: "bucket \<Rightarrow> ID \<Rightarrow> bucket \<times> bool" where
  "touch b nid = touch_at b b 0 nid"

definition bucket_add :: "bucket \<Rightarrow> Contact \<Rightarrow> bucket" where
  "bucket_add b c = (let b' = c # b in if length b' > K then take K b' else b')"

definition bucket_all :: "bucket \<Rightarrow> Contact list" where
  "bucket_all b = map (\<lambda>c. c) b"

definition NewRoutingTable :: "ID \<Rightarrow> RoutingTable" where
  "NewRoutingTable self = \<lparr>rt_self = self, rt_buckets = replicate IDBits []\<rparr>"

definition bucketIndex :: "RoutingTable \<Rightarrow> ID \<Rightarrow> nat" where
  "bucketIndex rt nid =
     (let prefix = ID_PrefixLen (ID_XOR (rt_self rt) nid)
      in if prefix \<ge> IDBits then IDBits - 1 else prefix)"

definition set_front_seen :: "bucket \<Rightarrow> time \<Rightarrow> bucket" where
  "set_front_seen b now = (case b of [] \<Rightarrow> [] | c # cs \<Rightarrow> c\<lparr>ct_LastSeen := now\<rparr> # cs)"

definition AddContact :: "RoutingTable \<Rightarrow> time \<Rightarrow> Contact \<Rightarrow> RoutingTable" where
  "AddContact rt now c =
     (if ID_Equals (rt_self rt) (ct_ID c) then rt
      else let idx = bucketIndex rt (ct_ID c);
               b = rt_buckets rt ! idx
           in case touch b (ct_ID c) of
                (b', True) \<Rightarrow> rt\<lparr>rt_buckets := (rt_buckets rt)[idx := set_front_seen b' now]\<rparr>
              | (b', False) \<Rightarrow>
                  rt\<lparr>rt_buckets := (rt_buckets rt)[idx := bucket_add b' (c\<lparr>ct_LastSeen := now\<rparr>)]\<rparr>)"

text \<open>
  The comparison of \<^verbatim>\<open>sort.Slice\<close> is \<open>ID_Less\<close> on the distances, the order of the type \<open>ID\<close>. A
  negative \<open>n\<close> panics at the slice expression.
\<close>

definition all_contacts :: "RoutingTable \<Rightarrow> Contact list" where
  "all_contacts rt = concat (map bucket_all (rt_buckets rt))"

definition FindClosest :: "RoutingTable \<Rightarrow> ID \<Rightarrow> int \<Rightarrow> Contact list result" where
  "FindClosest rt target n =
     (let allContacts = all_contacts rt
      in if length allContacts = 0 then Inr []
         else let allContacts = sort_key (\<lambda>c. ID_XOR target (ct_ID c)) allContacts;
                  n = (if n > int (length allContacts) then int (length allContacts) else n)
              in if n < 0 then Inl (GoPanic ''slice bounds out of range'')
                 else Inr (take (nat n) allContacts))"

section \<open>The least-recently-seen cache\<close>

definition lru_add :: "nat \<Rightarrow> 'a \<Rightarrow> 'a list \<Rightarrow> 'a list" where
  "lru_add k x xs = take k (x # removeAll x xs)"

primrec recency :: "'a list \<Rightarrow> 'a list" where
  "recency [] = []"
| "recency (x # xs) = x # removeAll x (recency xs)"

abbreviation ids :: "Contact list \<Rightarrow> ID list" where
  "ids cs \<equiv> map ct_ID cs"

lemma set_recency [simp]: "set (recency xs) = set xs"
  by (induction xs) auto

lemma distinct_recency [simp]: "distinct (recency xs)"
  by (induction xs) (auto simp: distinct_removeAll)

lemma take_removeAll:
  assumes "distinct r"
  shows "take k (removeAll x (take (Suc k) r)) = take k (removeAll x r)"
proof -
  let ?p = "take (Suc k) r" and ?q = "drop (Suc k) r"
  have r: "removeAll x r = removeAll x ?p @ removeAll x ?q"
    by (metis append_take_drop_id removeAll_append)
  show ?thesis
  proof (cases "x \<in> set ?p")
    case True
    have "distinct ?p" using assms by simp
    then have len: "length (removeAll x ?p) = length ?p - 1"
      using True by (simp add: distinct_remove1_removeAll [symmetric] length_remove1)
    show ?thesis
    proof (cases "length r \<le> Suc k")
      case False
      then have "length (removeAll x ?p) = k" using len by simp
      then show ?thesis using r by simp
    qed simp
  next
    case False
    then show ?thesis using r by (cases "length r \<le> Suc k") simp_all
  qed
qed

lemma lru_add_take:
  "distinct r \<Longrightarrow> lru_add k x (take k r) = take k (x # removeAll x r)"
  by (cases k) (simp_all add: lru_add_def take_removeAll)

lemma lru_add_set: "set (lru_add k x xs) \<subseteq> insert x (set xs)"
  using set_take_subset [of k "x # removeAll x xs"] by (auto simp: lru_add_def)

lemma lru_add_distinct: "distinct xs \<Longrightarrow> distinct (lru_add k x xs)"
  by (auto simp: lru_add_def distinct_removeAll intro!: distinct_take)

lemma lru_add_length: "length (lru_add k x xs) \<le> k"
  by (simp add: lru_add_def)

section \<open>Buckets\<close>

lemma touch_at_spec:
  "touch_at b cs i nid =
     (if nid \<in> set (ids cs)
      then let j = i + length (takeWhile (\<lambda>c. ct_ID c \<noteq> nid) cs)
           in (if j = 0 then b else hd (dropWhile (\<lambda>c. ct_ID c \<noteq> nid) cs) # take j b @ drop (j + 1) b, True)
      else (b, False))"
  by (induction cs arbitrary: i) (auto simp: Let_def)

lemma split_at_id:
  assumes "nid \<in> set (ids b)"
  obtains u c v where "b = u @ c # v" and "ct_ID c = nid" and "nid \<notin> set (ids u)"
    and "takeWhile (\<lambda>c. ct_ID c \<noteq> nid) b = u" and "dropWhile (\<lambda>c. ct_ID c \<noteq> nid) b = c # v"
proof -
  obtain c v where cv: "dropWhile (\<lambda>c. ct_ID c \<noteq> nid) b = c # v"
    using assms by (cases "dropWhile (\<lambda>c. ct_ID c \<noteq> nid) b") (auto simp: dropWhile_eq_Nil_conv)
  have "ct_ID c = nid" using hd_dropWhile [of "\<lambda>c. ct_ID c \<noteq> nid" b] cv by fastforce
  moreover have "nid \<notin> set (ids (takeWhile (\<lambda>c. ct_ID c \<noteq> nid) b))"
    by (auto dest: set_takeWhileD)
  moreover have "b = takeWhile (\<lambda>c. ct_ID c \<noteq> nid) b @ c # v"
    using takeWhile_dropWhile_id [of "\<lambda>c. ct_ID c \<noteq> nid" b] cv by simp
  ultimately show ?thesis using that cv by blast
qed

lemma touch_absent: "nid \<notin> set (ids b) \<Longrightarrow> touch b nid = (b, False)"
  by (simp add: touch_def touch_at_spec)

lemma touch_present:
  assumes "b = u @ c # v" and "ct_ID c = nid" and "nid \<notin> set (ids u)"
  shows "touch b nid = (c # u @ v, True)"
proof -
  have "takeWhile (\<lambda>c. ct_ID c \<noteq> nid) b = u" "dropWhile (\<lambda>c. ct_ID c \<noteq> nid) b = c # v"
    using assms by (auto simp: takeWhile_append dropWhile_append image_iff)
  then show ?thesis using assms by (cases u) (auto simp: touch_def touch_at_spec Let_def)
qed

definition bucket_after :: "bucket \<Rightarrow> time \<Rightarrow> Contact \<Rightarrow> bucket" where
  "bucket_after b now c =
     (case touch b (ct_ID c) of
        (b', True) \<Rightarrow> set_front_seen b' now
      | (b', False) \<Rightarrow> bucket_add b' (c\<lparr>ct_LastSeen := now\<rparr>))"

lemma bucket_after_absent:
  "ct_ID c \<notin> set (ids b) \<Longrightarrow> bucket_after b now c = take K (c\<lparr>ct_LastSeen := now\<rparr> # b)"
  by (simp add: bucket_after_def touch_absent bucket_add_def Let_def)

lemma bucket_after_present:
  "b = u @ d # v \<Longrightarrow> ct_ID d = ct_ID c \<Longrightarrow> ct_ID c \<notin> set (ids u) \<Longrightarrow>
   bucket_after b now c = d\<lparr>ct_LastSeen := now\<rparr> # u @ v"
  by (simp add: bucket_after_def touch_present set_front_seen_def)

lemma ids_bucket_after:
  assumes "distinct (ids b)" and "length b \<le> K"
  shows "ids (bucket_after b now c) = lru_add K (ct_ID c) (ids b)"
proof (cases "ct_ID c \<in> set (ids b)")
  case True
  then obtain u d v where b: "b = u @ d # v" "ct_ID d = ct_ID c" "ct_ID c \<notin> set (ids u)"
    by (rule split_at_id)
  moreover from this assms have "ct_ID c \<notin> set (ids v)" by auto
  ultimately show ?thesis using assms by (simp add: bucket_after_present lru_add_def)
qed (simp add: bucket_after_absent lru_add_def take_map [symmetric])

lemma AddContact_eq:
  "AddContact rt now c =
     (if ct_ID c = rt_self rt then rt
      else rt\<lparr>rt_buckets := (rt_buckets rt)
                [bucketIndex rt (ct_ID c) := bucket_after (rt_buckets rt ! bucketIndex rt (ct_ID c)) now c]\<rparr>)"
  by (auto simp: AddContact_def bucket_after_def Let_def split: prod.split bool.split)

section \<open>The invariant\<close>

definition rt_inv :: "RoutingTable \<Rightarrow> bool" where
  "rt_inv rt \<longleftrightarrow>
     length (rt_buckets rt) = IDBits \<and>
     (\<forall>i < IDBits. length (rt_buckets rt ! i) \<le> K \<and> distinct (ids (rt_buckets rt ! i)) \<and>
        (\<forall>c \<in> set (rt_buckets rt ! i). ct_ID c \<noteq> rt_self rt \<and> bucketIndex rt (ct_ID c) = i))"

lemma bucketIndex_less [simp]: "bucketIndex rt nid < IDBits"
  by (simp add: bucketIndex_def Let_def IDBits_def)

lemma bucketIndex_cong: "rt_self rt' = rt_self rt \<Longrightarrow> bucketIndex rt' nid = bucketIndex rt nid"
  by (simp add: bucketIndex_def)

lemma bucketIndex_distance:
  assumes "nid \<noteq> rt_self rt"
  shows "bucketIndex rt nid = ID_PrefixLen (ID_XOR (rt_self rt) nid)"
    and "2 ^ (159 - bucketIndex rt nid) \<le> ID_val (ID_XOR (rt_self rt) nid)"
    and "ID_val (ID_XOR (rt_self rt) nid) < 2 ^ (160 - bucketIndex rt nid)"
proof -
  have "ID_XOR (rt_self rt) nid \<noteq> ID_zero" using assms by (auto simp: ID_XOR_zero_iff)
  note bnds = ID_PrefixLen_bounds [OF this]
  then show eq: "bucketIndex rt nid = ID_PrefixLen (ID_XOR (rt_self rt) nid)"
    by (simp add: bucketIndex_def Let_def IDBits_def)
  show "2 ^ (159 - bucketIndex rt nid) \<le> ID_val (ID_XOR (rt_self rt) nid)"
    and "ID_val (ID_XOR (rt_self rt) nid) < 2 ^ (160 - bucketIndex rt nid)"
    using bnds unfolding eq by simp_all
qed

lemma self_AddContact [simp]: "rt_self (AddContact rt now c) = rt_self rt"
  by (simp add: AddContact_eq)

lemma rt_inv_New [simp]: "rt_inv (NewRoutingTable self)"
  by (simp add: rt_inv_def NewRoutingTable_def)

lemma set_bucket_after: "set (ids (bucket_after b now c)) \<subseteq> insert (ct_ID c) (set (ids b))"
proof (cases "ct_ID c \<in> set (ids b)")
  case True
  then obtain u d v where "b = u @ d # v" "ct_ID d = ct_ID c" "ct_ID c \<notin> set (ids u)"
    by (rule split_at_id)
  then show ?thesis by (auto simp: bucket_after_present)
qed (auto simp: bucket_after_absent dest!: in_set_takeD)

lemma rt_inv_AddContact [intro, simp]:
  assumes "rt_inv rt"
  shows "rt_inv (AddContact rt now c)"
proof (cases "ct_ID c = rt_self rt")
  case False
  let ?i = "bucketIndex rt (ct_ID c)"
  have b: "length (rt_buckets rt ! ?i) \<le> K" "distinct (ids (rt_buckets rt ! ?i))"
    and old: "\<And>d. d \<in> set (rt_buckets rt ! ?i) \<Longrightarrow> ct_ID d \<noteq> rt_self rt \<and> bucketIndex rt (ct_ID d) = ?i"
    using assms bucketIndex_less [of rt "ct_ID c"] unfolding rt_inv_def by blast+
  let ?b = "bucket_after (rt_buckets rt ! ?i) now c"
  have len: "length ?b \<le> K" and dist: "distinct (ids ?b)"
    using ids_bucket_after [OF b(2,1), of now c] lru_add_length lru_add_distinct [OF b(2)]
    by (metis length_map, simp)
  have mem: "ct_ID d \<noteq> rt_self rt \<and> bucketIndex rt (ct_ID d) = ?i" if "d \<in> set ?b" for d
  proof -
    have "ct_ID d \<in> insert (ct_ID c) (set (ids (rt_buckets rt ! ?i)))"
      using that set_bucket_after by fastforce
    with False old show ?thesis by (metis (no_types, lifting) imageE insertE list.set_map)
  qed
  show ?thesis
    using False assms len dist mem
    by (auto simp: AddContact_eq rt_inv_def nth_list_update bucketIndex_cong [of "_\<lparr>rt_buckets := _\<rparr>" rt])
qed (use assms in \<open>simp add: AddContact_eq\<close>)

lemma rt_inv_bucket:
  assumes "rt_inv rt" and "i < IDBits"
  shows "length (rt_buckets rt ! i) \<le> K" and "distinct (ids (rt_buckets rt ! i))"
    and "\<And>c. c \<in> set (rt_buckets rt ! i) \<Longrightarrow> ct_ID c \<noteq> rt_self rt \<and> bucketIndex rt (ct_ID c) = i"
  using assms unfolding rt_inv_def by blast+

section \<open>Histories of insertions\<close>

primrec add_all :: "RoutingTable \<Rightarrow> (time \<times> Contact) list \<Rightarrow> RoutingTable" where
  "add_all rt [] = rt"
| "add_all rt (x # xs) = add_all (AddContact rt (fst x) (snd x)) xs"

lemma add_all_append [simp]: "add_all rt (xs @ ys) = add_all (add_all rt xs) ys"
  by (induction xs arbitrary: rt) simp_all

lemma rt_inv_add_all [simp]: "rt_inv rt \<Longrightarrow> rt_inv (add_all rt xs)"
  by (induction xs arbitrary: rt) simp_all

lemma self_add_all [simp]: "rt_self (add_all rt xs) = rt_self rt"
  by (induction xs arbitrary: rt) simp_all

lemma ids_AddContact:
  assumes "rt_inv rt" and "i < IDBits"
  shows "ids (rt_buckets (AddContact rt now c) ! i) =
    (if ct_ID c \<noteq> rt_self rt \<and> bucketIndex rt (ct_ID c) = i
     then lru_add K (ct_ID c) (ids (rt_buckets rt ! i)) else ids (rt_buckets rt ! i))"
  using ids_bucket_after [OF rt_inv_bucket(2,1) [OF assms], of now c] assms
  by (auto simp: AddContact_eq rt_inv_def)

definition seen_in :: "RoutingTable \<Rightarrow> nat \<Rightarrow> (time \<times> Contact) list \<Rightarrow> ID list" where
  "seen_in rt i xs = filter (\<lambda>x. x \<noteq> rt_self rt \<and> bucketIndex rt x = i) (map (ct_ID \<circ> snd) xs)"

lemma ids_add_all_New:
  assumes "i < IDBits"
  shows "ids (rt_buckets (add_all (NewRoutingTable self) xs) ! i) =
    take K (recency (rev (seen_in (NewRoutingTable self) i xs)))"
proof (induction xs rule: rev_induct)
  case Nil
  then show ?case using assms by (simp add: seen_in_def NewRoutingTable_def)
next
  case (snoc x xs)
  let ?rt = "add_all (NewRoutingTable self) xs"
  have idx: "bucketIndex ?rt y = bucketIndex (NewRoutingTable self) y" for y
    by (rule bucketIndex_cong) simp
  show ?case
    using snoc assms by (simp add: ids_AddContact idx seen_in_def lru_add_take)
qed

section \<open>The closest contacts\<close>

lemma distinct_concat_by_index:
  "(\<And>i. i < length bs \<Longrightarrow> distinct (bs ! i) \<and> (\<forall>x \<in> set (bs ! i). f x = i)) \<Longrightarrow> distinct (concat bs)"
proof (induction bs rule: rev_induct)
  case (snoc b bs)
  have init: "distinct (bs ! i) \<and> (\<forall>x \<in> set (bs ! i). f x = i)" if "i < length bs" for i
    using snoc.prems [of i] that by (simp add: nth_append)
  have "f x < length bs" if "x \<in> set (concat bs)" for x
  proof -
    obtain b' where "b' \<in> set bs" "x \<in> set b'"
      using \<open>x \<in> set (concat bs)\<close> by auto
    then obtain i where "i < length bs" "x \<in> set (bs ! i)" by (auto simp: in_set_conv_nth)
    then show ?thesis using init by auto
  qed
  moreover have "distinct b" "\<forall>x \<in> set b. f x = length bs" using snoc.prems [of "length bs"] by simp_all
  ultimately show ?case using snoc.IH init by fastforce
qed simp

lemma all_contacts_concat: "all_contacts rt = concat (rt_buckets rt)"
  by (simp add: all_contacts_def bucket_all_def [abs_def] map_idI)

lemma distinct_all_contacts:
  assumes "rt_inv rt"
  shows "distinct (ids (all_contacts rt))"
proof -
  have "distinct (concat (map ids (rt_buckets rt)))"
    using rt_inv_bucket [OF assms] assms
    by (intro distinct_concat_by_index [where f = "bucketIndex rt"]) (auto simp: rt_inv_def)
  then show ?thesis by (simp add: all_contacts_concat map_concat)
qed

definition by_distance :: "RoutingTable \<Rightarrow> ID \<Rightarrow> Contact list" where
  "by_distance rt target = sort_key (\<lambda>c. ID_XOR target (ct_ID c)) (all_contacts rt)"

lemma FindClosest_eq: 
  assumes "0 \<le> n"
  shows "FindClosest rt target n = Inr (take (nat n) (by_distance rt target))"
proof (cases "n > int (length (all_contacts rt))")
  case True
  then have "length (all_contacts rt) \<le> nat n" by linarith
  then show ?thesis using True by (simp add: FindClosest_def by_distance_def Let_def)
qed (use assms in \<open>simp add: FindClosest_def by_distance_def Let_def\<close>)

lemma FindClosest_K: "FindClosest rt target (int k) = Inr (take k (by_distance rt target))"
  by (simp add: FindClosest_eq)

lemma FindClosest_negative:
  "n < 0 \<Longrightarrow> all_contacts rt \<noteq> [] \<Longrightarrow> FindClosest rt target n = Inl (GoPanic ''slice bounds out of range'')"
  by (simp add: FindClosest_def Let_def)

lemma set_by_distance [simp]: "set (by_distance rt target) = set (all_contacts rt)"
  by (simp add: by_distance_def)

lemma length_by_distance [simp]: "length (by_distance rt target) = length (all_contacts rt)"
  by (simp add: by_distance_def)

lemma sorted_by_distance: "sorted (map (\<lambda>c. ID_XOR target (ct_ID c)) (by_distance rt target))"
  by (simp add: by_distance_def)

lemma sorted_closest: "sorted (map (\<lambda>c. ID_val (ID_XOR target (ct_ID c))) (take n (by_distance rt target)))"
  using sorted_by_distance [of target rt]
  by (simp add: sorted_map sorted_wrt_take take_map [symmetric] ID_less_eq_val)

lemma inj_on_distance:
  assumes "rt_inv rt"
  shows "inj_on (\<lambda>c. ID_XOR target (ct_ID c)) (set (all_contacts rt))"
  using distinct_all_contacts [OF assms] by (auto simp: inj_on_def distinct_map)

lemma distinct_by_distance:
  assumes "rt_inv rt"
  shows "distinct (ids (by_distance rt target))"
proof -
  have "mset (ids (by_distance rt target)) = mset (ids (all_contacts rt))" by (simp add: by_distance_def)
  then show ?thesis using distinct_all_contacts [OF assms] by (metis mset_eq_imp_distinct_iff)
qed

lemma by_distance_unique:
  assumes "rt_inv rt" and "mset ys = mset (all_contacts rt)"
    and "sorted (map (\<lambda>c. ID_XOR target (ct_ID c)) ys)"
  shows "ys = by_distance rt target"
  unfolding by_distance_def
  using sort_key_inj_key_eq [OF assms(2) [symmetric] inj_on_distance [OF assms(1)] assms(3)] by simp

lemma closest_before_rest:
  assumes "rt_inv rt" and "c \<in> set (take k (by_distance rt target))"
    and "d \<in> set (all_contacts rt)" and "d \<notin> set (take k (by_distance rt target))"
  shows "ID_Less (ID_XOR target (ct_ID c)) (ID_XOR target (ct_ID d))"
proof -
  let ?f = "\<lambda>c. ID_XOR target (ct_ID c)" and ?l = "by_distance rt target"
  have "d \<in> set (drop k ?l)" using assms(3,4) by (metis Un_iff append_take_drop_id set_append set_by_distance)
  moreover have "sorted (map ?f (take k ?l) @ map ?f (drop k ?l))"
    using sorted_by_distance [of target rt] by (metis append_take_drop_id map_append)
  ultimately have "?f c \<le> ?f d" using assms(2) by (fastforce simp: sorted_append)
  moreover have "?f c \<noteq> ?f d"
    using inj_on_distance [OF assms(1), of target] assms(2-4)
    by (metis inj_onD in_set_takeD set_by_distance)
  ultimately show ?thesis by (simp add: ID_Less_val ID_less_eq_val less_le)
qed

section \<open>Properties\<close>

text \<open>
  C17: every sequence of \<^verbatim>\<open>AddContact\<close> calls on a new table, with any clock readings, leaves a table
  with 160 buckets of at most K contacts, no identifier twice in the whole table, the node
  itself nowhere, and every contact in the bucket whose index is the length of the prefix it
  shares with the node, that is at a distance between \<open>2 ^ (159 - i)\<close> and \<open>2 ^ (160 - i)\<close>.
\<close>

theorem routing_table_invariant:
  "let rt = add_all (NewRoutingTable self) xs in
   length (rt_buckets rt) = 160 \<and> distinct (map ct_ID (concat (rt_buckets rt))) \<and>
   (\<forall>i < 160. length (rt_buckets rt ! i) \<le> K \<and>
      (\<forall>c \<in> set (rt_buckets rt ! i). ct_ID c \<noteq> self \<and>
         ID_PrefixLen (ID_XOR self (ct_ID c)) = i \<and>
         2 ^ (159 - i) \<le> ID_val (ID_XOR self (ct_ID c)) \<and> ID_val (ID_XOR self (ct_ID c)) < 2 ^ (160 - i)))"
proof -
  define rt where "rt = add_all (NewRoutingTable self) xs"
  have inv: "rt_inv rt" by (simp add: rt_def)
  have self: "rt_self rt = self" by (simp add: rt_def) (simp add: NewRoutingTable_def)
  have "length (rt_buckets rt ! i) \<le> K \<and>
      (\<forall>c \<in> set (rt_buckets rt ! i). ct_ID c \<noteq> self \<and> ID_PrefixLen (ID_XOR self (ct_ID c)) = i \<and>
         2 ^ (159 - i) \<le> ID_val (ID_XOR self (ct_ID c)) \<and> ID_val (ID_XOR self (ct_ID c)) < 2 ^ (160 - i))"
    if "i < 160" for i
  proof -
    have i: "i < IDBits" using that by (simp add: IDBits_def)
    show ?thesis
      using rt_inv_bucket(1) [OF inv i] rt_inv_bucket(3) [OF inv i] bucketIndex_distance [of _ rt] self by metis
  qed
  moreover have "length (rt_buckets rt) = 160" using inv by (simp add: rt_inv_def IDBits_def)
  moreover have "distinct (map ct_ID (concat (rt_buckets rt)))"
    using distinct_all_contacts [OF inv] by (simp add: all_contacts_concat)
  ultimately show ?thesis by (simp add: Let_def flip: rt_def)
qed

theorem routing_table_invariant_witness:
  "let rt = add_all (NewRoutingTable ID_zero) [(7, \<lparr>ct_ID = ID_of_slice [128], ct_Address = ''a'', ct_LastSeen = 0\<rparr>)]
   in length (rt_buckets rt) = 160 \<and> length (rt_buckets rt ! 0) \<le> K"
  using routing_table_invariant
    [of ID_zero "[(7, \<lparr>ct_ID = ID_of_slice [128], ct_Address = ''a'', ct_LastSeen = 0\<rparr>)]"]
  by (simp add: Let_def del: add_all.simps)

text \<open>
  C18: each bucket is a least-recently-seen cache: after any sequence of \<^verbatim>\<open>AddContact\<close> calls on a new
  table, bucket \<open>i\<close> holds the K identifiers of its distance range that were added last, the
  most recent one first.
\<close>

theorem bucket_is_lru:
  assumes "i < 160"
  shows "map ct_ID (rt_buckets (add_all (NewRoutingTable self) xs) ! i) =
    take K (recency (rev (filter (\<lambda>y. y \<noteq> self \<and> bucketIndex (NewRoutingTable self) y = i)
      (map (ct_ID \<circ> snd) xs))))"
  using ids_add_all_New [of i self xs] assms by (simp add: seen_in_def IDBits_def NewRoutingTable_def)

theorem bucket_is_lru_witness:
  "let a = \<lparr>ct_ID = ID_of_slice [128], ct_Address = ''a'', ct_LastSeen = 0\<rparr>;
       b = \<lparr>ct_ID = ID_of_slice [129], ct_Address = ''b'', ct_LastSeen = 0\<rparr>
   in map ct_ID (rt_buckets (add_all (NewRoutingTable ID_zero) [(1, a), (2, b), (3, a)]) ! 0) =
     [ID_of_slice [128], ID_of_slice [129]]"
proof -
  have "bucketIndex (NewRoutingTable ID_zero) (ID_of_slice [128]) = 0"
    "bucketIndex (NewRoutingTable ID_zero) (ID_of_slice [129]) = 0"
    "ID_of_slice [128] \<noteq> ID_zero" "ID_of_slice [129] \<noteq> ID_zero" "ID_of_slice [128] \<noteq> ID_of_slice [129]"
    by code_simp+
  then show ?thesis by (simp add: Let_def bucket_is_lru K_def del: add_all.simps)
qed

text \<open>
  C19: \<^verbatim>\<open>FindClosest\<close> with a non-negative count returns the contacts of the table closest to the
  target: as many as asked for or all, in the order of increasing distance, each strictly
  closer than every contact left out. It is the same for every order in which a sorting
  algorithm may leave equal elements.
\<close>

theorem FindClosest_closest:
  assumes "rt_inv rt" and "0 \<le> n"
  shows "\<exists>out. FindClosest rt target n = Inr out \<and>
    length out = min (nat n) (length (concat (rt_buckets rt))) \<and>
    set out \<subseteq> set (concat (rt_buckets rt)) \<and> distinct (map ct_ID out) \<and>
    sorted (map (\<lambda>c. ID_val (ID_XOR target (ct_ID c))) out) \<and>
    (\<forall>c \<in> set out. \<forall>d \<in> set (concat (rt_buckets rt)) - set out.
       ID_val (ID_XOR target (ct_ID c)) < ID_val (ID_XOR target (ct_ID d))) \<and>
    (\<forall>ys. mset ys = mset (concat (rt_buckets rt)) \<longrightarrow>
       sorted (map (\<lambda>c. ID_XOR target (ct_ID c)) ys) \<longrightarrow> take (nat n) ys = out)"
proof (intro exI conjI)
  let ?l = "by_distance rt target"
  show "FindClosest rt target n = Inr (take (nat n) ?l)" using assms(2) by (rule FindClosest_eq)
  show "length (take (nat n) ?l) = min (nat n) (length (concat (rt_buckets rt)))"
    by (simp add: all_contacts_concat min.commute)
  show "set (take (nat n) ?l) \<subseteq> set (concat (rt_buckets rt))"
    using set_take_subset [of "nat n" ?l] by (simp add: all_contacts_concat)
  show "distinct (map ct_ID (take (nat n) ?l))"
    using distinct_by_distance [OF assms(1)] by (simp add: take_map [symmetric])
  show "sorted (map (\<lambda>c. ID_val (ID_XOR target (ct_ID c))) (take (nat n) ?l))"
    by (rule sorted_closest)
  show "\<forall>c \<in> set (take (nat n) ?l). \<forall>d \<in> set (concat (rt_buckets rt)) - set (take (nat n) ?l).
      ID_val (ID_XOR target (ct_ID c)) < ID_val (ID_XOR target (ct_ID d))"
    using closest_before_rest [OF assms(1), of _ "nat n" target] by (auto simp: all_contacts_concat ID_Less_val)
  show "\<forall>ys. mset ys = mset (concat (rt_buckets rt)) \<longrightarrow>
      sorted (map (\<lambda>c. ID_XOR target (ct_ID c)) ys) \<longrightarrow> take (nat n) ys = take (nat n) ?l"
    using by_distance_unique [OF assms(1)] by (auto simp: all_contacts_concat)
qed

theorem FindClosest_closest_witness:
  "\<exists>out. FindClosest (AddContact (NewRoutingTable ID_zero) 7 \<lparr>ct_ID = ID_of_slice [1], ct_Address = ''a'', ct_LastSeen = 0\<rparr>)
     ID_zero 20 = Inr out"
  using FindClosest_closest [of "AddContact (NewRoutingTable ID_zero) 7
      \<lparr>ct_ID = ID_of_slice [1], ct_Address = ''a'', ct_LastSeen = 0\<rparr>" 20 ID_zero]
  by auto

text \<open>
  Refreshing a known contact moves it to the front of its bucket with the new time and its old
  address: \<^verbatim>\<open>AddContact\<close> never changes the address under which an identifier is known.
\<close>

theorem AddContact_keeps_address:
  assumes "rt_inv rt" and "d \<in> set (concat (rt_buckets rt))" and "ct_ID d = ct_ID c"
  shows "d\<lparr>ct_LastSeen := now\<rparr> = hd (rt_buckets (AddContact rt now c) ! bucketIndex rt (ct_ID c)) \<and>
    (\<forall>e \<in> set (concat (rt_buckets (AddContact rt now c))). ct_ID e = ct_ID c \<longrightarrow> ct_Address e = ct_Address d)"
proof -
  let ?i = "bucketIndex rt (ct_ID c)"
  have len: "length (rt_buckets rt) = IDBits" using assms(1) by (simp add: rt_inv_def)
  obtain j where j: "j < IDBits" "d \<in> set (rt_buckets rt ! j)"
    using assms(2) len by (auto simp: in_set_conv_nth) (metis nth_mem)
  with rt_inv_bucket(3) [OF assms(1) j(1) j(2)] assms(3) have d: "d \<in> set (rt_buckets rt ! ?i)"
    and ns: "ct_ID c \<noteq> rt_self rt" by auto
  then have "ct_ID c \<in> set (ids (rt_buckets rt ! ?i))" using assms(3) by (metis image_eqI list.set_map)
  then obtain u e v where b: "rt_buckets rt ! ?i = u @ e # v" "ct_ID e = ct_ID c" "ct_ID c \<notin> set (ids u)"
    by (rule split_at_id)
  have "e = d"
    using rt_inv_bucket(2) [OF assms(1) bucketIndex_less, of rt "ct_ID c"] b d assms(3)
    by (auto simp: rev_image_eqI)
  then have front: "rt_buckets (AddContact rt now c) ! ?i = d\<lparr>ct_LastSeen := now\<rparr> # u @ v"
    using ns b len by (simp add: AddContact_eq bucket_after_present [OF refl])
  have "distinct (ids (concat (rt_buckets (AddContact rt now c))))"
    using distinct_all_contacts [OF rt_inv_AddContact [OF assms(1)]] by (simp add: all_contacts_concat)
  moreover have "d\<lparr>ct_LastSeen := now\<rparr> \<in> set (concat (rt_buckets (AddContact rt now c)))"
    using front len by (auto simp: AddContact_eq intro!: bexI [OF _ nth_mem [of ?i]])
  ultimately have only: "e' = d\<lparr>ct_LastSeen := now\<rparr>"
    if "e' \<in> set (concat (rt_buckets (AddContact rt now c)))" "ct_ID e' = ct_ID c" for e'
    using that assms(3) by (auto simp: distinct_map inj_on_def)
  have "\<forall>e' \<in> set (concat (rt_buckets (AddContact rt now c))). ct_ID e' = ct_ID c \<longrightarrow> ct_Address e' = ct_Address d"
    using only by fastforce
  then show ?thesis using front by simp
qed

lemma first_contact:
  assumes "ct_ID c \<noteq> self"
  shows "c\<lparr>ct_LastSeen := now\<rparr> \<in> set (concat (rt_buckets (AddContact (NewRoutingTable self) now c)))"
proof -
  let ?i = "bucketIndex (NewRoutingTable self) (ct_ID c)"
  have "rt_buckets (AddContact (NewRoutingTable self) now c) = (replicate IDBits [])[?i := [c\<lparr>ct_LastSeen := now\<rparr>]]"
    using assms by (simp add: AddContact_eq bucket_after_absent K_def) (simp add: NewRoutingTable_def bucket_after_absent K_def)
  then show ?thesis by (auto simp: set_update_memI intro!: bexI [of _ "[c\<lparr>ct_LastSeen := now\<rparr>]"])
qed

lemma ID_of_slice_neq: "ID_of_slice [1] \<noteq> ID_zero"
  by (simp add: ID_eq_iff ID_of_slice.rep_eq ID_zero.rep_eq go_copy_def numeral_eq_Suc)

theorem AddContact_keeps_address_witness:
  "let c = \<lparr>ct_ID = ID_of_slice [1], ct_Address = ''a'', ct_LastSeen = 0\<rparr>;
       rt = AddContact (NewRoutingTable ID_zero) 7 c
   in ct_Address (hd (rt_buckets (AddContact rt 9 (c\<lparr>ct_Address := ''b''\<rparr>)) ! bucketIndex rt (ct_ID c))) = ''a''"
proof -
  let ?c = "\<lparr>ct_ID = ID_of_slice [1], ct_Address = ''a'', ct_LastSeen = 0\<rparr>"
  let ?rt = "AddContact (NewRoutingTable ID_zero) 7 ?c"
  have "?c\<lparr>ct_LastSeen := 7\<rparr> \<in> set (concat (rt_buckets ?rt))"
    by (rule first_contact) (simp add: ID_of_slice_neq)
  from AddContact_keeps_address [OF _ this, of "?c\<lparr>ct_Address := ''b''\<rparr>" 9] show ?thesis
    by (simp add: Let_def) (metis Contact.select_convs(2))
qed

end
