(* ===== verification/Sha256.thy ===== *)
theory Sha256
  imports Go_Prelude
begin

text \<open>
  The hash function of the standard library that the sources call as
  \<^verbatim>\<open>sha256.Sum256\<close> (FIPS 180-4): padding, message schedule, compression and the final
  concatenation, on 32-bit words. Chunk identifiers, Merkle nodes and DHT keys are all
  computed with it. The lemmas show that a digest has 32 bytes, that padding
  yields whole blocks, and that words and their big-endian bytes determine each other.
\<close>

type_synonym u32 = "32 word"
type_synonym sha_state = "u32 \<times> u32 \<times> u32 \<times> u32 \<times> u32 \<times> u32 \<times> u32 \<times> u32"

text \<open>The constants of the standard: the first 32 bits of the fractional parts of the cube roots of the
  first 64 primes, and of the square roots of the first 8.\<close>

definition sha_K :: "u32 list" where
  "sha_K =
    [1116352408, 1899447441, 3049323471, 3921009573, 961987163, 1508970993, 2453635748, 2870763221,
     3624381080, 310598401, 607225278, 1426881987, 1925078388, 2162078206, 2614888103, 3248222580,
     3835390401, 4022224774, 264347078, 604807628, 770255983, 1249150122, 1555081692, 1996064986,
     2554220882, 2821834349, 2952996808, 3210313671, 3336571891, 3584528711, 113926993, 338241895,
     666307205, 773529912, 1294757372, 1396182291, 1695183700, 1986661051, 2177026350, 2456956037,
     2730485921, 2820302411, 3259730800, 3345764771, 3516065817, 3600352804, 4094571909, 275423344,
     430227734, 506948616, 659060556, 883997877, 958139571, 1322822218, 1537002063, 1747873779,
     1955562222, 2024104815, 2227730452, 2361852424, 2428436474, 2756734187, 3204031479, 3329325298]"

definition sha_init :: sha_state where
  "sha_init =
    (1779033703, 3144134277, 1013904242, 2773480762, 1359893119, 2600822924, 528734635, 1541459225)"

definition sha_rotr :: "nat \<Rightarrow> u32 \<Rightarrow> u32" where
  "sha_rotr n x = drop_bit n x OR push_bit (32 - n) x"

definition sha_Sigma0 :: "u32 \<Rightarrow> u32" where
  "sha_Sigma0 x = sha_rotr 2 x XOR sha_rotr 13 x XOR sha_rotr 22 x"

definition sha_Sigma1 :: "u32 \<Rightarrow> u32" where
  "sha_Sigma1 x = sha_rotr 6 x XOR sha_rotr 11 x XOR sha_rotr 25 x"

definition sha_sigma0 :: "u32 \<Rightarrow> u32" where
  "sha_sigma0 x = sha_rotr 7 x XOR sha_rotr 18 x XOR drop_bit 3 x"

definition sha_sigma1 :: "u32 \<Rightarrow> u32" where
  "sha_sigma1 x = sha_rotr 17 x XOR sha_rotr 19 x XOR drop_bit 10 x"

fun sha_round :: "u32 \<Rightarrow> u32 \<Rightarrow> sha_state \<Rightarrow> sha_state" where
  "sha_round k w (a, b, c, d, e, f, g, h) =
     (let t1 = h + sha_Sigma1 e + ((e AND f) XOR (NOT e AND g)) + k + w;
          t2 = sha_Sigma0 a + ((a AND b) XOR (a AND c) XOR (b AND c))
      in (t1 + t2, a, b, c, d + t1, e, f, g))"

text \<open>
  The schedule is kept as a window of sixteen words: each round consumes the first and
  appends the word sixteen places later.
\<close>

fun sha_rounds :: "u32 list \<Rightarrow> u32 list \<Rightarrow> sha_state \<Rightarrow> sha_state" where
  "sha_rounds (k # ks) (w # ws) s =
     sha_rounds ks (ws @ [sha_sigma1 (ws ! 13) + ws ! 8 + sha_sigma0 (ws ! 0) + w]) (sha_round k w s)"
| "sha_rounds _ _ s = s"

fun sha_add :: "sha_state \<Rightarrow> sha_state \<Rightarrow> sha_state" where
  "sha_add (a, b, c, d, e, f, g, h) (a', b', c', d', e', f', g', h') =
     (a + a', b + b', c + c', d + d', e + e', f + f', g + g', h + h')"

definition be32_word :: "byte \<Rightarrow> byte \<Rightarrow> byte \<Rightarrow> byte \<Rightarrow> u32" where
  "be32_word a b c d =
     push_bit 24 (ucast a) OR push_bit 16 (ucast b) OR push_bit 8 (ucast c) OR ucast d"

definition be32_bytes :: "u32 \<Rightarrow> bytes" where
  "be32_bytes w = [ucast (drop_bit 24 w), ucast (drop_bit 16 w), ucast (drop_bit 8 w), ucast w]"

fun sha_words :: "bytes \<Rightarrow> u32 list" where
  "sha_words (a # b # c # d # r) = be32_word a b c d # sha_words r"
| "sha_words _ = []"

function sha_blocks :: "sha_state \<Rightarrow> bytes \<Rightarrow> sha_state" where
  "sha_blocks s bs =
     (if length bs < 64 then s
      else sha_blocks (sha_add s (sha_rounds sha_K (sha_words (take 64 bs)) s)) (drop 64 bs))"
  by pat_completeness auto
termination
  by (relation "measure (\<lambda>(s, bs). length bs)") auto

declare sha_blocks.simps [simp del]

definition sha_pad :: "bytes \<Rightarrow> bytes" where
  "sha_pad m =
     m @ [0x80] @ replicate ((119 - length m mod 64) mod 64) 0
     @ map (\<lambda>i. ucast (drop_bit (56 - 8 * i) (of_nat (8 * length m) :: 64 word))) [0..<8]"

definition sha256_Sum256 :: "bytes \<Rightarrow> bytes" where
  "sha256_Sum256 m =
     (case sha_blocks sha_init (sha_pad m) of
        (a, b, c, d, e, f, g, h) \<Rightarrow> concat (map be32_bytes [a, b, c, d, e, f, g, h]))"

lemma length_be32_bytes [simp]: "length (be32_bytes w) = 4"
  by (simp add: be32_bytes_def)

lemma length_sha256 [simp]: "length (sha256_Sum256 m) = 32"
  by (simp add: sha256_Sum256_def split: prod.split)

text \<open>Padding yields whole blocks, so the block loop consumes the entire message.\<close>

lemma sha_pad_blocks: "64 dvd length (sha_pad m)"
proof -
  define q r where "q = length m div 64" and "r = length m mod 64"
  then have l: "length m = 64 * q + r" and r: "r < 64"
    by simp_all
  have "64 dvd r + 9 + (119 - r) mod 64"
  proof (cases "r < 56")
    case True
    then have "(119 - r) mod 64 = 55 - r"
      by (subst le_mod_geq) auto
    with True show ?thesis by simp
  next
    case False
    with r have "(119 - r) mod 64 = 119 - r"
      by (intro mod_less) linarith
    with r show ?thesis by simp
  qed
  then have "64 dvd 64 * q + (r + 9 + (119 - r) mod 64)"
    by (rule dvd_add [OF dvd_triv_left])
  moreover have "length (sha_pad m) = 64 * q + (r + 9 + (119 - r) mod 64)"
    using l unfolding r_def [symmetric] sha_pad_def by (simp add: r_def [symmetric])
  ultimately show ?thesis by simp
qed

lemma be32_bytes_word: "be32_bytes (be32_word a b c d) = [a, b, c, d]"
  unfolding be32_bytes_def be32_word_def
  by (intro list.inject [THEN iffD2] conjI refl bit_word_eqI)
    (auto simp: bit_simps dest: bit_imp_le_length)

lemma be32_word_inj:
  "be32_word a b c d = be32_word a' b' c' d' \<Longrightarrow> a = a' \<and> b = b' \<and> c = c' \<and> d = d'"
proof -
  assume "be32_word a b c d = be32_word a' b' c' d'"
  then have "be32_bytes (be32_word a b c d) = be32_bytes (be32_word a' b' c' d')"
    by simp
  then show ?thesis by (simp only: be32_bytes_word list.inject)
qed

end
