(* ===== verification/Chunk_Id.thy ===== *)
theory Chunk_Id
  imports Sha256 Go_Strings
begin

text \<open>
  Content identifiers of chunks, \<^verbatim>\<open>internal/storage/chunkid.go\<close>: a \<^verbatim>\<open>ChunkID\<close> is an array
  of 32 bytes, here the type of byte lists of that length. \<open>NewChunkID\<close> hashes, \<open>String\<close> and
  \<open>ChunkIDFromHex\<close> print and parse. The lemmas are the parse/print round trip, the exact set
  of accepted strings and both error branches.
\<close>

section \<open>The array type\<close>

typedef ChunkID = "{bs :: bytes. length bs = 32}"
  morphisms ChunkID_arr Abs_ChunkID
  by (rule exI [of _ "replicate 32 0"]) simp

setup_lifting type_definition_ChunkID

instantiation ChunkID :: equal
begin

lift_definition equal_ChunkID :: "ChunkID \<Rightarrow> ChunkID \<Rightarrow> bool" is "(=)" .

instance
  by standard (transfer, rule refl)

end

lift_definition ChunkID_zero :: ChunkID is "replicate 32 0 :: bytes"
  by simp

section \<open>Operations\<close>

lift_definition NewChunkID :: "bytes \<Rightarrow> ChunkID" is sha256_Sum256
  by simp

definition ChunkID_Bytes :: "ChunkID \<Rightarrow> bytes" where
  "ChunkID_Bytes i = go_copy (replicate 32 0) 0 (ChunkID_arr i)"

definition ChunkID_String :: "ChunkID \<Rightarrow> string" where
  "ChunkID_String i = hex_EncodeToString (ChunkID_arr i)"

text \<open>\<^verbatim>\<open>copy(id[:], b)\<close> into a zero array: bytes beyond the array are dropped.\<close>

lift_definition ChunkID_of_slice :: "bytes \<Rightarrow> ChunkID" is "\<lambda>b :: bytes. go_copy (replicate 32 0) 0 b"
  by simp

definition ChunkIDFromHex :: "string \<Rightarrow> ChunkID result" where
  "ChunkIDFromHex s =
     (case hex_DecodeString s of
        Inl e \<Rightarrow> Inl (Wrapf ''ChunkIDFromHex: decode error: '' e)
      | Inr b \<Rightarrow>
          if length b \<noteq> 32
          then Inl (Errorf (''ChunkIDFromHex: invalid length: got '' @ itoa (int (length b)) @ '', want 32''))
          else Inr (ChunkID_of_slice b))"

text \<open>\<open>None\<close> stands for the panic.\<close>

definition MustChunkIDFromHex :: "string \<Rightarrow> ChunkID option" where
  "MustChunkIDFromHex s = (case ChunkIDFromHex s of Inl _ \<Rightarrow> None | Inr i \<Rightarrow> Some i)"

definition ChunkID_Equal :: "ChunkID \<Rightarrow> ChunkID \<Rightarrow> bool" where
  "ChunkID_Equal i j \<longleftrightarrow> i = j"

section \<open>Lemmas\<close>

lemma length_ChunkID_arr [simp]: "length (ChunkID_arr i) = 32"
  using ChunkID_arr [of i] by simp

lemma ChunkID_eq_iff: "i = j \<longleftrightarrow> ChunkID_arr i = ChunkID_arr j"
  by (simp add: ChunkID_arr_inject)

lemma ChunkID_Bytes_arr [simp]: "ChunkID_Bytes i = ChunkID_arr i"
  by (simp add: ChunkID_Bytes_def go_copy_fill)

lemma length_ChunkID_String [simp]: "length (ChunkID_String i) = 64"
  by (simp add: ChunkID_String_def)

lemma ChunkID_of_slice_arr: "length b = 32 \<Longrightarrow> ChunkID_arr (ChunkID_of_slice b) = b"
  by (simp add: ChunkID_of_slice.rep_eq go_copy_fill)

lemma ChunkID_String_inject [simp]: "ChunkID_String i = ChunkID_String j \<longleftrightarrow> i = j"
  by (simp add: ChunkID_String_def hex_encode_inject ChunkID_eq_iff)

lemma ChunkIDFromHex_String [simp]: "ChunkIDFromHex (ChunkID_String i) = Inr i"
  by (simp add: ChunkIDFromHex_def ChunkID_String_def hex_decode_encode ChunkID_eq_iff
      ChunkID_of_slice_arr)

lemma ChunkIDFromHex_Inr:
  "ChunkIDFromHex s = Inr i \<Longrightarrow> hex_DecodeString s = Inr (ChunkID_arr i)"
  by (auto simp: ChunkIDFromHex_def ChunkID_of_slice_arr split: sum.splits if_splits)

lemma ChunkIDFromHex_lower:
  "ChunkIDFromHex s = Inr i \<Longrightarrow> ChunkID_String i = map hex_lower s"
  by (simp add: ChunkID_String_def hex_encode_decode ChunkIDFromHex_Inr)

lemma ChunkIDFromHex_length: "ChunkIDFromHex s = Inr i \<Longrightarrow> length s = 64"
  using ChunkIDFromHex_Inr length_hex_decode by fastforce

text \<open>A name with the suffix of a temporary file never parses.\<close>

lemma ChunkIDFromHex_tmp: "ChunkIDFromHex (ChunkID_String i @ ''.tmp'') \<noteq> Inr j"
proof
  assume "ChunkIDFromHex (ChunkID_String i @ ''.tmp'') = Inr j"
  then have "length (ChunkID_String i @ ''.tmp'') = 64"
    by (rule ChunkIDFromHex_length)
  then show False by simp
qed

lemma arr_NewChunkID [simp]: "ChunkID_arr (NewChunkID d) = sha256_Sum256 d"
  by (simp add: NewChunkID.rep_eq)

section \<open>Properties\<close>

text \<open>
  \<^verbatim>\<open>ChunkIDFromHex\<close> accepts exactly the hexadecimal forms of an identifier, in either case:
  it returns \<open>i\<close> if and only if the text, in lower case, is what \<^verbatim>\<open>String\<close> prints for \<open>i\<close>.
\<close>

theorem ChunkIDFromHex_iff: "ChunkIDFromHex s = Inr i \<longleftrightarrow> map hex_lower s = ChunkID_String i"
proof
  assume "map hex_lower s = ChunkID_String i"
  then have "hex_DecodeString s = Inr (ChunkID_arr i)"
    using hex_decode_lower [of s "ChunkID_arr i"] by (simp add: ChunkID_String_def hex_decode_encode)
  then show "ChunkIDFromHex s = Inr i"
    by (simp add: ChunkIDFromHex_def ChunkID_of_slice_arr ChunkID_eq_iff)
qed (simp add: ChunkIDFromHex_lower)

end
