(* ===== verification/Go_Os.thy ===== *)
theory Go_Os
  imports Go_Prelude "HOL-Library.Char_ord" "HOL-Library.List_Lexorder"
begin

text \<open>
  The part of \<^verbatim>\<open>os\<close> and \<^verbatim>\<open>io\<close> that the sources use, with its failures. A file system has
  directories and a table of entries; a path is a directory and a name in it. Every system
  call takes one item of the schedule \<open>os_sched\<close>: \<open>None\<close> lets it run, \<open>Some f\<close> makes it
  fail, a write possibly after a prefix of the data has reached the file. A schedule without
  failures is \<open>os_healthy\<close>, and so is the empty one. A theorem for every schedule thus covers
  every combination of failing calls.

  An \<^verbatim>\<open>io.Reader\<close> is the list of byte segments its calls deliver, the error it ends with
  and whether that error comes together with the last segment; a read never returns more
  than the buffer holds, and a longer segment is delivered in parts. The lemmas are the
  effect of each call on the entries and on the schedule.
\<close>

section \<open>File system\<close>

datatype fnode = RegFile bytes | SubDir "string list"

datatype fault = FailEarly | FailAfter nat

record os =
  os_dirs :: "string list"
  os_files :: "(path \<times> fnode) list"
  os_sched :: "fault option list"

definition os_node :: "os \<Rightarrow> path \<Rightarrow> fnode option" where
  "os_node s p = map_of (os_files s) p"

definition os_set :: "path \<Rightarrow> fnode \<Rightarrow> os \<Rightarrow> os" where
  "os_set p n s = s\<lparr>os_files := AList.update p n (os_files s)\<rparr>"

definition os_unset :: "path \<Rightarrow> os \<Rightarrow> os" where
  "os_unset p s = s\<lparr>os_files := AList.delete p (os_files s)\<rparr>"

definition os_fault :: "os \<Rightarrow> fault option" where
  "os_fault s = (case os_sched s of [] \<Rightarrow> None | f # _ \<Rightarrow> f)"

definition os_tick :: "os \<Rightarrow> os" where
  "os_tick s = s\<lparr>os_sched := tl (os_sched s)\<rparr>"

definition os_healthy :: "os \<Rightarrow> bool" where
  "os_healthy s \<longleftrightarrow> list_all (\<lambda>f. f = None) (os_sched s)"

fun os_IsNotExist :: "go_error \<Rightarrow> bool" where
  "os_IsNotExist (PathError _ _ n) \<longleftrightarrow> n = ENOENT"
| "os_IsNotExist (LinkError _ _ _ n) \<longleftrightarrow> n = ENOENT"
| "os_IsNotExist Fs_ErrNotExist \<longleftrightarrow> True"
| "os_IsNotExist _ \<longleftrightarrow> False"

definition os_MkdirAll :: "os \<Rightarrow> string \<Rightarrow> go_error option \<times> os" where
  "os_MkdirAll s dir =
     (case os_fault s of
        Some _ \<Rightarrow> (Some (PathError ''mkdir'' (dir, []) EIO), os_tick s)
      | None \<Rightarrow> (None, (os_tick s)\<lparr>os_dirs := List.insert dir (os_dirs s)\<rparr>))"

definition os_Stat :: "os \<Rightarrow> path \<Rightarrow> go_error option \<times> os" where
  "os_Stat s p =
     (case os_fault s of
        Some _ \<Rightarrow> (Some (PathError ''stat'' p EIO), os_tick s)
      | None \<Rightarrow>
          (case os_node s p of
             None \<Rightarrow> (Some (PathError ''stat'' p ENOENT), os_tick s)
           | Some _ \<Rightarrow> (None, os_tick s)))"

text \<open>Opening for writing, creating or truncating: why it would fail.\<close>

definition os_open_error :: "os \<Rightarrow> path \<Rightarrow> go_error option" where
  "os_open_error s p =
     (if fst p \<notin> set (os_dirs s) then Some (PathError ''open'' p ENOENT)
      else case os_node s p of
             Some (SubDir _) \<Rightarrow> Some (PathError ''open'' p EISDIR)
           | _ \<Rightarrow> None)"

definition os_WriteFile :: "os \<Rightarrow> path \<Rightarrow> bytes \<Rightarrow> go_error option \<times> os" where
  "os_WriteFile s p d =
     (case os_open_error s p of
        Some e \<Rightarrow> (Some e, os_tick s)
      | None \<Rightarrow>
          (case os_fault s of
             Some FailEarly \<Rightarrow> (Some (PathError ''open'' p EIO), os_tick s)
           | Some (FailAfter n) \<Rightarrow>
               (Some (PathError ''write'' p EIO), os_set p (RegFile (take n d)) (os_tick s))
           | None \<Rightarrow> (None, os_set p (RegFile d) (os_tick s))))"

text \<open>\<^verbatim>\<open>os.Create\<close>, and \<^verbatim>\<open>Write\<close> on the file it returned, at the end of what was written so far.\<close>

definition os_Create :: "os \<Rightarrow> path \<Rightarrow> go_error option \<times> os" where
  "os_Create s p =
     (case os_open_error s p of
        Some e \<Rightarrow> (Some e, os_tick s)
      | None \<Rightarrow>
          (case os_fault s of
             Some _ \<Rightarrow> (Some (PathError ''open'' p EIO), os_tick s)
           | None \<Rightarrow> (None, os_set p (RegFile []) (os_tick s))))"

definition os_Append :: "os \<Rightarrow> path \<Rightarrow> bytes \<Rightarrow> go_error option \<times> os" where
  "os_Append s p d =
     (case os_node s p of
        Some (RegFile old) \<Rightarrow>
          (case os_fault s of
             Some FailEarly \<Rightarrow> (Some (PathError ''write'' p EIO), os_tick s)
           | Some (FailAfter n) \<Rightarrow> (Some (PathError ''write'' p EIO), os_set p (RegFile (old @ take n d)) (os_tick s))
           | None \<Rightarrow> (None, os_set p (RegFile (old @ d)) (os_tick s)))
      | _ \<Rightarrow> (if os_fault s = None then None else Some (PathError ''write'' p EIO), os_tick s))"

definition os_Rename :: "os \<Rightarrow> path \<Rightarrow> path \<Rightarrow> go_error option \<times> os" where
  "os_Rename s p q =
     (case os_fault s of
        Some _ \<Rightarrow> (Some (LinkError ''rename'' p q EIO), os_tick s)
      | None \<Rightarrow>
          (case (os_node s p, os_node s q) of
             (None, _) \<Rightarrow> (Some (LinkError ''rename'' p q ENOENT), os_tick s)
           | (Some (RegFile _), Some (SubDir _)) \<Rightarrow>
               (Some (LinkError ''rename'' p q EISDIR), os_tick s)
           | (Some (SubDir _), Some (RegFile _)) \<Rightarrow>
               (Some (LinkError ''rename'' p q ENOTDIR), os_tick s)
           | (Some (SubDir _), Some (SubDir (_ # _))) \<Rightarrow>
               (Some (LinkError ''rename'' p q ENOTEMPTY), os_tick s)
           | (Some n, _) \<Rightarrow> (None, os_set q n (os_unset p (os_tick s)))))"

definition os_Remove :: "os \<Rightarrow> path \<Rightarrow> go_error option \<times> os" where
  "os_Remove s p =
     (case os_fault s of
        Some _ \<Rightarrow> (Some (PathError ''remove'' p EIO), os_tick s)
      | None \<Rightarrow>
          (case os_node s p of
             None \<Rightarrow> (Some (PathError ''remove'' p ENOENT), os_tick s)
           | Some (SubDir (_ # _)) \<Rightarrow> (Some (PathError ''remove'' p ENOTEMPTY), os_tick s)
           | Some _ \<Rightarrow> (None, os_unset p (os_tick s))))"

definition os_ReadFile :: "os \<Rightarrow> path \<Rightarrow> bytes result \<times> os" where
  "os_ReadFile s p =
     (case os_fault s of
        Some _ \<Rightarrow> (Inl (PathError ''read'' p EIO), os_tick s)
      | None \<Rightarrow>
          (case os_node s p of
             None \<Rightarrow> (Inl (PathError ''open'' p ENOENT), os_tick s)
           | Some (SubDir _) \<Rightarrow> (Inl (PathError ''read'' p EISDIR), os_tick s)
           | Some (RegFile d) \<Rightarrow> (Inr d, os_tick s)))"

text \<open>\<^verbatim>\<open>os.ReadDir\<close> returns the entries of a directory sorted by name.\<close>

definition dir_entries :: "os \<Rightarrow> string \<Rightarrow> (string \<times> fnode) list" where
  "dir_entries s dir =
     sort_key fst (map (\<lambda>(p, n). (snd p, n)) (filter (\<lambda>(p, n). fst p = dir) (os_files s)))"

definition os_ReadDir :: "os \<Rightarrow> string \<Rightarrow> (string \<times> fnode) list result \<times> os" where
  "os_ReadDir s dir =
     (case os_fault s of
        Some _ \<Rightarrow> (Inl (PathError ''readdirent'' (dir, []) EIO), os_tick s)
      | None \<Rightarrow>
          if dir \<notin> set (os_dirs s) then (Inl (PathError ''open'' (dir, []) ENOENT), os_tick s)
          else (Inr (dir_entries s dir), os_tick s))"

section \<open>Readers\<close>

record reader =
  rd_segs :: "bytes list"
  rd_err :: go_error
  rd_joint :: bool

definition rd_Read :: "reader \<Rightarrow> nat \<Rightarrow> bytes \<times> go_error option \<times> reader" where
  "rd_Read r m =
     (case rd_segs r of
        [] \<Rightarrow> ([], Some (rd_err r), r)
      | d # ds \<Rightarrow>
          if m < length d then (take m d, None, r\<lparr>rd_segs := drop m d # ds\<rparr>)
          else (d, if ds = [] \<and> rd_joint r then Some (rd_err r) else None, r\<lparr>rd_segs := ds\<rparr>))"

definition rd_content :: "reader \<Rightarrow> bytes" where
  "rd_content r = concat (rd_segs r)"

text \<open>
  An \<^verbatim>\<open>io.Writer\<close>: what has been written, and the outcomes of the calls to \<^verbatim>\<open>Write\<close> still to come
  (\<open>None\<close>, or the end of the list, for success, an error after some bytes otherwise).
\<close>

record writer =
  w_out :: bytes
  w_sched :: "(nat \<times> go_error) option list"

definition w_Write :: "writer \<Rightarrow> bytes \<Rightarrow> go_error option \<times> writer" where
  "w_Write w d =
     (case w_sched w of
        Some (n, e) # fs \<Rightarrow> (Some e, w\<lparr>w_out := w_out w @ take n d, w_sched := fs\<rparr>)
      | None # fs \<Rightarrow> (None, w\<lparr>w_out := w_out w @ d, w_sched := fs\<rparr>)
      | [] \<Rightarrow> (None, w\<lparr>w_out := w_out w @ d\<rparr>))"

text \<open>A bound on the number of calls: bytes and segments still to come.\<close>

definition rd_size :: "reader \<Rightarrow> nat" where
  "rd_size r = length (concat (rd_segs r)) + length (rd_segs r)"

text \<open>
  \<^verbatim>\<open>os.Open\<close> followed by reads: a regular file delivers its content and then \<^verbatim>\<open>io.EOF\<close>.
  A failure after \<open>n\<close> bytes is a read error behind that prefix.
\<close>

definition os_Open :: "os \<Rightarrow> path \<Rightarrow> reader result \<times> os" where
  "os_Open s p =
     (case os_node s p of
        None \<Rightarrow> (Inl (PathError ''open'' p ENOENT), os_tick s)
      | Some n \<Rightarrow>
          (case os_fault s of
             Some FailEarly \<Rightarrow> (Inl (PathError ''open'' p EIO), os_tick s)
           | f \<Rightarrow>
               (case n of
                  SubDir _ \<Rightarrow>
                    (Inr \<lparr>rd_segs = [], rd_err = PathError ''read'' p EISDIR, rd_joint = False\<rparr>, os_tick s)
                | RegFile d \<Rightarrow>
                    (case f of
                       Some (FailAfter k) \<Rightarrow>
                         (Inr \<lparr>rd_segs = filter (\<lambda>x. x \<noteq> []) [take k d],
                               rd_err = PathError ''read'' p EIO, rd_joint = False\<rparr>, os_tick s)
                     | _ \<Rightarrow>
                         (Inr \<lparr>rd_segs = filter (\<lambda>x. x \<noteq> []) [d], rd_err = Io_EOF, rd_joint = False\<rparr>,
                          os_tick s)))))"

section \<open>Lemmas\<close>

lemma os_node_set [simp]: "os_node (os_set p n s) q = (if q = p then Some n else os_node s q)"
  by (simp add: os_node_def os_set_def update_conv')

lemma os_node_unset [simp]: "os_node (os_unset p s) q = (if q = p then None else os_node s q)"
  by (simp add: os_node_def os_unset_def delete_conv')

lemma os_node_tick [simp]: "os_node (os_tick s) = os_node s"
  by (simp add: os_node_def os_tick_def fun_eq_iff)

lemma os_files_tick [simp]: "os_files (os_tick s) = os_files s"
  by (simp add: os_tick_def)

lemma os_dirs_upd [simp]:
  "os_dirs (os_set p n s) = os_dirs s" "os_dirs (os_unset p s) = os_dirs s"
  "os_dirs (os_tick s) = os_dirs s"
  by (simp_all add: os_set_def os_unset_def os_tick_def)

lemma os_distinct_upd [simp]:
  "distinct (map fst (os_files s)) \<Longrightarrow> distinct (map fst (os_files (os_set p n s)))"
  "distinct (map fst (os_files s)) \<Longrightarrow> distinct (map fst (os_files (os_unset p s)))"
  by (simp_all add: os_set_def os_unset_def distinct_update distinct_delete)

lemma os_healthy_upd [simp]:
  "os_healthy (os_set p n s) = os_healthy s" "os_healthy (os_unset p s) = os_healthy s"
  by (simp_all add: os_healthy_def os_set_def os_unset_def)

lemma os_healthy_tick [simp]: "os_healthy s \<Longrightarrow> os_healthy (os_tick s)"
  by (cases "os_sched s") (auto simp: os_healthy_def os_tick_def)

lemma os_healthy_fault [simp]: "os_healthy s \<Longrightarrow> os_fault s = None"
  by (cases "os_sched s") (auto simp: os_healthy_def os_fault_def)

lemma dir_entries_set:
  assumes "distinct (map fst (os_files s))"
  shows "(name, n) \<in> set (dir_entries s dir) \<longleftrightarrow> os_node s (dir, name) = Some n"
  using assms by (force simp: dir_entries_def os_node_def)

lemma dir_entries_distinct:
  "distinct (map fst (os_files s)) \<Longrightarrow> distinct (map fst (dir_entries s dir))"
proof -
  assume "distinct (map fst (os_files s))"
  then have "distinct (map fst (map (\<lambda>(p, n). (snd p, n)) (filter (\<lambda>(p, n). fst p = dir) (os_files s))))"
    by (fastforce simp: distinct_map inj_on_def)
  then show ?thesis
    by (simp only: dir_entries_def distinct_map distinct_sort set_sort)
qed

lemma rd_Read_content:
  "rd_Read r m = (d, e, r') \<Longrightarrow> rd_content r = d @ rd_content r' \<and> rd_err r' = rd_err r \<and> length d \<le> m"
  by (cases "rd_segs r") (auto simp: rd_Read_def rd_content_def split: if_splits)

lemma rd_Read_error:
  "rd_Read r m = (d, Some e, r') \<Longrightarrow> e = rd_err r \<and> rd_content r' = []"
  by (cases "rd_segs r") (auto simp: rd_Read_def rd_content_def split: if_splits)

lemma rd_Read_size: "rd_Read r m = (d, None, r') \<Longrightarrow> 0 < m \<Longrightarrow> rd_size r' < rd_size r"
  by (cases "rd_segs r") (auto simp: rd_Read_def rd_size_def split: if_splits)

end
