(* ===== verification/Chunk_Store.thy ===== *)
theory Chunk_Store
  imports Chunk_Id Go_Os
begin

text \<open>
  The interface \<^verbatim>\<open>ChunkStore\<close> of \<^verbatim>\<open>internal/storage/store.go\<close>. A value of the Go interface is
  a record of its five methods over some store state \<open>'s\<close>. The locale states what a
  content-addressed store promises when any of its operations may fail: \<open>holds\<close> is the
  abstract map from identifiers to data, \<open>inv\<close> the store's invariant and \<open>healthy\<close> says that
  no operation fails from now on. The lemmas of the locale are the facts every client uses:
  what is readable after a put, and what a sequence of puts leaves in the store.
\<close>

section \<open>The interface\<close>

record 's ChunkStore =
  PutChunk :: "'s \<Rightarrow> bytes \<Rightarrow> ChunkID result \<times> 's"
  GetChunk :: "'s \<Rightarrow> ChunkID \<Rightarrow> bytes result \<times> 's"
  HasChunk :: "'s \<Rightarrow> ChunkID \<Rightarrow> bool result \<times> 's"
  DeleteChunk :: "'s \<Rightarrow> ChunkID \<Rightarrow> go_error option \<times> 's"
  ListChunks :: "'s \<Rightarrow> ChunkID list result \<times> 's"

text \<open>
  Reference definition of storing several pieces one after the other, up to the first
  failure. With the number of the piece, it is also what the callers' loops report.
\<close>

fun put_list :: "'s ChunkStore \<Rightarrow> 's \<Rightarrow> nat \<Rightarrow> bytes list \<Rightarrow> (nat \<times> go_error + ChunkID list) \<times> 's" where
  "put_list S s k [] = (Inr [], s)"
| "put_list S s k (d # ds) =
     (case PutChunk S s d of
        (Inl e, s') \<Rightarrow> (Inl (k, e), s')
      | (Inr i, s') \<Rightarrow>
          (case put_list S s' (Suc k) ds of
             (Inl e, s'') \<Rightarrow> (Inl e, s'')
           | (Inr is, s'') \<Rightarrow> (Inr (i # is), s'')))"

lemma put_list_Cons_Inr:
  "put_list S s k (d # ds) = (Inr is, s') \<longleftrightarrow>
   (\<exists>i s1 js. PutChunk S s d = (Inr i, s1) \<and> put_list S s1 (Suc k) ds = (Inr js, s') \<and> is = i # js)"
  by (auto split: prod.splits sum.splits)

lemma put_list_index: "put_list S s k ds = (Inr is, s') \<Longrightarrow> put_list S s k' ds = (Inr is, s')"
proof (induction ds arbitrary: s k k' "is")
  case (Cons d ds)
  then show ?case unfolding put_list_Cons_Inr by blast
qed simp

lemma put_list_append:
  "put_list S s k ds = (Inr is, s1) \<Longrightarrow> put_list S s1 k' es = (Inr js, s2) \<Longrightarrow>
   put_list S s k (ds @ es) = (Inr (is @ js), s2)"
proof (induction ds arbitrary: s k "is")
  case Nil
  then show ?case by (auto intro: put_list_index)
next
  case (Cons d ds)
  then show ?case unfolding append_Cons put_list_Cons_Inr by fastforce
qed

section \<open>Its contract\<close>

locale chunk_store =
  fixes S :: "'s ChunkStore"
    and holds :: "'s \<Rightarrow> ChunkID \<Rightarrow> bytes option"
    and inv :: "'s \<Rightarrow> bool"
    and healthy :: "'s \<Rightarrow> bool"
  assumes integrity: "inv s \<Longrightarrow> holds s i = Some d \<Longrightarrow> NewChunkID d = i"
    and put_inv: "inv s \<Longrightarrow> PutChunk S s d = (r, s') \<Longrightarrow> inv s'"
    and put_id: "inv s \<Longrightarrow> PutChunk S s d = (Inr i, s') \<Longrightarrow> i = NewChunkID d \<and> holds s' i \<noteq> None"
    and put_frame: "inv s \<Longrightarrow> PutChunk S s d = (r, s') \<Longrightarrow>
      holds s' = holds s \<or> holds s' = (holds s)(NewChunkID d \<mapsto> d)"
    and put_error: "inv s \<Longrightarrow> PutChunk S s d = (Inl e, s') \<Longrightarrow> holds s' = holds s"
    and put_healthy: "inv s \<Longrightarrow> healthy s \<Longrightarrow> PutChunk S s d = (r, s') \<Longrightarrow>
      healthy s' \<and> r = Inr (NewChunkID d)"
    and get_state: "inv s \<Longrightarrow> GetChunk S s i = (g, s') \<Longrightarrow> inv s' \<and> holds s' = holds s"
    and get_result: "inv s \<Longrightarrow> GetChunk S s i = (Inr d, s') \<Longrightarrow> holds s i = Some d"
    and get_missing: "inv s \<Longrightarrow> GetChunk S s i = (Inl Fs_ErrNotExist, s') \<Longrightarrow> holds s i = None"
    and get_healthy: "inv s \<Longrightarrow> healthy s \<Longrightarrow> GetChunk S s i = (g, s') \<Longrightarrow>
      healthy s' \<and> g = (case holds s i of None \<Rightarrow> Inl Fs_ErrNotExist | Some d \<Rightarrow> Inr d)"
    and has_state: "inv s \<Longrightarrow> HasChunk S s i = (h, s') \<Longrightarrow> inv s' \<and> holds s' = holds s"
    and has_result: "inv s \<Longrightarrow> HasChunk S s i = (Inr b, s') \<Longrightarrow> b \<longleftrightarrow> holds s i \<noteq> None"
    and has_healthy: "inv s \<Longrightarrow> healthy s \<Longrightarrow> HasChunk S s i = (h, s') \<Longrightarrow>
      healthy s' \<and> h = Inr (holds s i \<noteq> None)"
    and delete_inv: "inv s \<Longrightarrow> DeleteChunk S s i = (x, s') \<Longrightarrow> inv s'"
    and delete_ok: "inv s \<Longrightarrow> DeleteChunk S s i = (None, s') \<Longrightarrow> holds s' = (holds s)(i := None)"
    and delete_error: "inv s \<Longrightarrow> DeleteChunk S s i = (Some e, s') \<Longrightarrow> holds s' = holds s"
    and delete_healthy: "inv s \<Longrightarrow> healthy s \<Longrightarrow> DeleteChunk S s i = (x, s') \<Longrightarrow>
      healthy s' \<and> x = None"
    and list_state: "inv s \<Longrightarrow> ListChunks S s = (y, s') \<Longrightarrow> inv s' \<and> holds s' = holds s"
    and list_result: "inv s \<Longrightarrow> ListChunks S s = (Inr l, s') \<Longrightarrow> set l = dom (holds s) \<and> distinct l"
    and list_healthy: "inv s \<Longrightarrow> healthy s \<Longrightarrow> ListChunks S s = (y, s') \<Longrightarrow>
      healthy s' \<and> (\<exists>l. y = Inr l)"
begin

lemma put_dom: "inv s \<Longrightarrow> PutChunk S s d = (r, s') \<Longrightarrow> dom (holds s) \<subseteq> dom (holds s')"
  using put_frame by fastforce

lemma put_ran:
  "inv s \<Longrightarrow> PutChunk S s d = (r, s') \<Longrightarrow> ran (holds s') \<subseteq> insert d (ran (holds s))"
  using put_frame by (fastforce simp: ran_def split: if_splits)

text \<open>
  The chunk is stored under its identifier when nothing stored before collides with it.
\<close>

lemma put_stores:
  assumes "inv s" and "PutChunk S s d = (Inr i, s')"
    and inj: "inj_on NewChunkID (insert d (ran (holds s)))"
  shows "holds s' (NewChunkID d) = Some d"
proof -
  from assms put_id obtain d' where d': "holds s' (NewChunkID d) = Some d'"
    by blast
  with assms have "d' \<in> insert d (ran (holds s))"
    using put_ran by (blast intro: ranI)
  moreover have "NewChunkID d' = NewChunkID d"
    using integrity d' put_inv assms by blast
  ultimately have "d' = d"
    by (intro inj_onD [OF inj]) simp_all
  with d' show ?thesis by simp
qed

lemma put_keeps:
  assumes "inv s" and "PutChunk S s d = (r, s')" and "holds s i = Some x"
    and "inj_on NewChunkID (insert d (ran (holds s)))"
  shows "holds s' i = Some x"
proof -
  have "NewChunkID x = i" using assms integrity by blast
  moreover have "x \<in> ran (holds s)" using assms by (blast intro: ranI)
  ultimately have "NewChunkID d = i \<Longrightarrow> d = x"
    by (intro inj_onD [OF assms(4)]) simp_all
  moreover have "holds s' = holds s \<or> holds s' = (holds s)(NewChunkID d \<mapsto> d)"
    using assms put_frame by blast
  ultimately show ?thesis using assms(3) by auto
qed

lemma get_after_put:
  assumes "inv s" and "PutChunk S s d = (Inr i, s')" and "GetChunk S s' i = (Inr d', s'')"
  shows "NewChunkID d' = NewChunkID d"
proof -
  have "inv s'" using assms put_inv by blast
  then have "NewChunkID d' = i"
    using assms(3) get_result integrity by blast
  then show ?thesis using assms put_id by blast
qed

text \<open>Sequences of puts.\<close>

lemma put_list_inv: "inv s \<Longrightarrow> put_list S s k ds = (r, s') \<Longrightarrow> inv s'"
  by (induction ds arbitrary: s k r s')
    (auto split: prod.splits sum.splits dest: put_inv)

lemma put_list_ran:
  "inv s \<Longrightarrow> put_list S s k ds = (r, s') \<Longrightarrow> ran (holds s') \<subseteq> set ds \<union> ran (holds s)"
proof (induction ds arbitrary: s k r s')
  case (Cons d ds)
  obtain r1 s1 where p: "PutChunk S s d = (r1, s1)" by fastforce
  have 1: "inv s1" "ran (holds s1) \<subseteq> insert d (ran (holds s))"
    using put_inv put_ran p Cons.prems by blast+
  obtain r2 s2 where q: "put_list S s1 (Suc k) ds = (r2, s2)" by fastforce
  have "ran (holds s2) \<subseteq> set ds \<union> ran (holds s1)"
    using Cons.IH [OF 1(1) q] .
  then have "ran (holds s2) \<subseteq> set (d # ds) \<union> ran (holds s)" using 1 by auto
  moreover have "s' = s1 \<or> s' = s2"
    using Cons.prems p q by (auto split: sum.splits)
  ultimately show ?case using 1 by auto
qed auto

lemma put_list_ids: "inv s \<Longrightarrow> put_list S s k ds = (Inr is, s') \<Longrightarrow> is = map NewChunkID ds"
proof (induction ds arbitrary: s k "is" s')
  case (Cons d ds)
  obtain r1 s1 where p: "PutChunk S s d = (r1, s1)" by fastforce
  with Cons show ?case
    by (auto split: prod.splits sum.splits dest: put_inv put_id)
qed simp

lemma put_list_healthy:
  "inv s \<Longrightarrow> healthy s \<Longrightarrow> put_list S s k ds = (r, s') \<Longrightarrow> healthy s' \<and> r = Inr (map NewChunkID ds)"
proof (induction ds arbitrary: s k r s')
  case (Cons d ds)
  obtain r1 s1 where p: "PutChunk S s d = (r1, s1)" by fastforce
  then have "healthy s1" "r1 = Inr (NewChunkID d)" "inv s1"
    using Cons.prems put_healthy put_inv by blast+
  moreover obtain r2 s2 where q: "put_list S s1 (Suc k) ds = (r2, s2)" by fastforce
  ultimately have "healthy s2 \<and> r2 = Inr (map NewChunkID ds)" using Cons.IH by blast
  with Cons.prems p q \<open>r1 = Inr (NewChunkID d)\<close> show ?case by auto
qed simp

text \<open>No collision among the pieces and what is stored: everything old and new is readable.\<close>

lemma put_list_keeps:
  assumes "inv s" and "put_list S s k ds = (r, s')" and "holds s i = Some x"
    and "inj_on NewChunkID (set ds \<union> ran (holds s))"
  shows "holds s' i = Some x"
  using assms
proof (induction ds arbitrary: s k r s')
  case (Cons d ds)
  obtain r1 s1 where p: "PutChunk S s d = (r1, s1)" by fastforce
  have inj: "inj_on NewChunkID (insert d (ran (holds s)))"
    using Cons.prems(4) by (rule inj_on_subset) auto
  have 1: "inv s1" "holds s1 i = Some x" "ran (holds s1) \<subseteq> insert d (ran (holds s))"
    using put_inv put_keeps put_ran p Cons.prems inj by blast+
  obtain r2 s2 where q: "put_list S s1 (Suc k) ds = (r2, s2)" by fastforce
  have "inj_on NewChunkID (set ds \<union> ran (holds s1))"
    using Cons.prems(4) by (rule inj_on_subset) (use 1 in auto)
  then have "holds s2 i = Some x" using Cons.IH 1 q by blast
  moreover have "s' = s1 \<or> s' = s2"
    using Cons.prems p q by (auto split: sum.splits)
  ultimately show ?case using 1 by auto
qed simp

lemma put_list_stores:
  assumes "inv s" and "put_list S s k ds = (Inr is, s')" and "d \<in> set ds"
    and "inj_on NewChunkID (set ds \<union> ran (holds s))"
  shows "holds s' (NewChunkID d) = Some d"
  using assms
proof (induction ds arbitrary: s k "is" s')
  case (Cons x ds)
  obtain i s1 where p: "PutChunk S s x = (Inr i, s1)"
    using Cons.prems by (auto split: prod.splits sum.splits)
  then obtain is2 where q: "put_list S s1 (Suc k) ds = (Inr is2, s')"
    using Cons.prems by (auto split: prod.splits sum.splits)
  have inj: "inj_on NewChunkID (insert x (ran (holds s)))"
    using Cons.prems(4) by (rule inj_on_subset) auto
  have 1: "inv s1" "holds s1 (NewChunkID x) = Some x" "ran (holds s1) \<subseteq> insert x (ran (holds s))"
    using put_inv put_stores put_ran p Cons.prems inj by blast+
  have inj1: "inj_on NewChunkID (set ds \<union> ran (holds s1))"
    using Cons.prems(4) by (rule inj_on_subset) (use 1 in auto)
  show ?case
  proof (cases "d = x")
    case True
    with 1 q inj1 show ?thesis using put_list_keeps by blast
  next
    case False
    with Cons 1 q inj1 show ?thesis by auto
  qed
qed simp

end

end
