(* ===== verification/Fs_Store.thy ===== *)
theory Fs_Store
  imports Chunk_Store
begin

text \<open>
  The filesystem store \<^verbatim>\<open>FSChunkStore\<close> of \<^verbatim>\<open>internal/storage/store.go\<close> on the file system of
  \<^verbatim>\<open>Go_Os\<close>: one definition per method, over the base directory and the state of the file
  system. \<open>fs_holds\<close> reads the store as a map, \<open>fs_inv\<close> says that a chunk file holds data
  that hashes to its name. The interpretation at the end proves the contract of
  \<^verbatim>\<open>Chunk_Store\<close> for every schedule of failing system calls; in particular a failing
  \<^verbatim>\<open>PutChunk\<close> never leaves a partial chunk under a chunk's name.
\<close>

section \<open>Operations\<close>

record FSChunkStore =
  baseDir :: string

definition NewFSChunkStore :: "os \<Rightarrow> string \<Rightarrow> FSChunkStore result \<times> os" where
  "NewFSChunkStore s dir =
     (if dir = [] then (Inl (Errorf ''NewFSChunkStore: baseDir is empty''), s)
      else case os_MkdirAll s dir of
             (Some e, s') \<Rightarrow> (Inl (Wrapf ''NewFSChunkStore: mkdir: '' e), s')
           | (None, s') \<Rightarrow> (Inr \<lparr>baseDir = dir\<rparr>, s'))"

definition chunkPath :: "FSChunkStore \<Rightarrow> ChunkID \<Rightarrow> path" where
  "chunkPath st i = (baseDir st, ChunkID_String i)"

definition tmpPath :: "path \<Rightarrow> path" where
  "tmpPath p = (fst p, snd p @ ''.tmp'')"

definition fs_PutChunk :: "FSChunkStore \<Rightarrow> os \<Rightarrow> bytes \<Rightarrow> ChunkID result \<times> os" where
  "fs_PutChunk st s data =
     (let i = NewChunkID data; p = chunkPath st i in
      case os_Stat s p of
        (None, s1) \<Rightarrow> (Inr i, s1)
      | (Some _, s1) \<Rightarrow>
          (case os_WriteFile s1 (tmpPath p) data of
             (Some e, s2) \<Rightarrow> (Inl (Wrapf ''PutChunk: write temp file: '' e), s2)
           | (None, s2) \<Rightarrow>
               (case os_Rename s2 (tmpPath p) p of
                  (Some e, s3) \<Rightarrow> (Inl (Wrapf ''PutChunk: rename: '' e), snd (os_Remove s3 (tmpPath p)))
                | (None, s3) \<Rightarrow> (Inr i, s3))))"

definition fs_GetChunk :: "FSChunkStore \<Rightarrow> os \<Rightarrow> ChunkID \<Rightarrow> bytes result \<times> os" where
  "fs_GetChunk st s i =
     (case os_ReadFile s (chunkPath st i) of
        (Inl e, s') \<Rightarrow>
          if os_IsNotExist e then (Inl Fs_ErrNotExist, s')
          else (Inl (Wrapf ''GetChunk: read: '' e), s')
      | (Inr data, s') \<Rightarrow> (Inr data, s'))"

definition fs_HasChunk :: "FSChunkStore \<Rightarrow> os \<Rightarrow> ChunkID \<Rightarrow> bool result \<times> os" where
  "fs_HasChunk st s i =
     (case os_Stat s (chunkPath st i) of
        (None, s') \<Rightarrow> (Inr True, s')
      | (Some e, s') \<Rightarrow>
          if os_IsNotExist e then (Inr False, s')
          else (Inl (Wrapf ''HasChunk: stat: '' e), s'))"

definition fs_DeleteChunk :: "FSChunkStore \<Rightarrow> os \<Rightarrow> ChunkID \<Rightarrow> go_error option \<times> os" where
  "fs_DeleteChunk st s i =
     (case os_Remove s (chunkPath st i) of
        (Some e, s') \<Rightarrow>
          if \<not> os_IsNotExist e then (Some (Wrapf ''DeleteChunk: remove: '' e), s') else (None, s')
      | (None, s') \<Rightarrow> (None, s'))"

text \<open>The loop over the directory entries.\<close>

fun list_chunk_ids :: "(string \<times> fnode) list \<Rightarrow> ChunkID list" where
  "list_chunk_ids [] = []"
| "list_chunk_ids ((name, n) # es) =
     (case n of
        SubDir _ \<Rightarrow> list_chunk_ids es
      | RegFile _ \<Rightarrow>
          (case ChunkIDFromHex name of
             Inl _ \<Rightarrow> list_chunk_ids es
           | Inr i \<Rightarrow> i # list_chunk_ids es))"

definition fs_ListChunks :: "FSChunkStore \<Rightarrow> os \<Rightarrow> ChunkID list result \<times> os" where
  "fs_ListChunks st s =
     (case os_ReadDir s (baseDir st) of
        (Inl e, s') \<Rightarrow> (Inl (Wrapf ''ListChunks: readdir: '' e), s')
      | (Inr entries, s') \<Rightarrow> (Inr (list_chunk_ids entries), s'))"

text \<open>The store as a value of the interface \<^verbatim>\<open>ChunkStore\<close>.\<close>

definition FSStore :: "FSChunkStore \<Rightarrow> os ChunkStore" where
  "FSStore st =
     \<lparr>PutChunk = fs_PutChunk st, GetChunk = fs_GetChunk st, HasChunk = fs_HasChunk st,
      DeleteChunk = fs_DeleteChunk st, ListChunks = fs_ListChunks st\<rparr>"

section \<open>Abstraction and invariant\<close>

definition fs_holds :: "FSChunkStore \<Rightarrow> os \<Rightarrow> ChunkID \<Rightarrow> bytes option" where
  "fs_holds st s i =
     (case os_node s (chunkPath st i) of Some (RegFile d) \<Rightarrow> Some d | _ \<Rightarrow> None)"

definition fs_plain :: "fnode option \<Rightarrow> bool" where
  "fs_plain n \<longleftrightarrow> (case n of Some (SubDir _) \<Rightarrow> False | _ \<Rightarrow> True)"

definition fs_inv :: "FSChunkStore \<Rightarrow> os \<Rightarrow> bool" where
  "fs_inv st s \<longleftrightarrow>
     baseDir st \<in> set (os_dirs s) \<and> distinct (map fst (os_files s)) \<and>
     (\<forall>i d. os_node s (chunkPath st i) = Some (RegFile d) \<longrightarrow> NewChunkID d = i) \<and>
     (\<forall>i. fs_plain (os_node s (chunkPath st i)) \<and> fs_plain (os_node s (tmpPath (chunkPath st i)))) \<and>
     (\<forall>name d i. os_node s (baseDir st, name) = Some (RegFile d) \<longrightarrow>
        ChunkIDFromHex name = Inr i \<longrightarrow> name = ChunkID_String i)"

section \<open>Lemmas\<close>

lemma chunkPath_inject [simp]: "chunkPath st i = chunkPath st j \<longleftrightarrow> i = j"
  by (simp add: chunkPath_def)

lemma tmpPath_chunkPath [simp]:
  "tmpPath (chunkPath st i) = tmpPath (chunkPath st j) \<longleftrightarrow> i = j"
  by (simp add: tmpPath_def chunkPath_def)

lemma ChunkID_String_tmp [simp]: "ChunkID_String j \<noteq> ChunkID_String i @ ''.tmp''"
proof
  assume "ChunkID_String j = ChunkID_String i @ ''.tmp''"
  then have "length (ChunkID_String j) = length (ChunkID_String i @ ''.tmp'')" by (rule arg_cong)
  then show False by simp
qed

lemma tmpPath_neq [simp]:
  "tmpPath (chunkPath st i) \<noteq> chunkPath st j" "chunkPath st j \<noteq> tmpPath (chunkPath st i)"
  by (simp_all add: tmpPath_def chunkPath_def ChunkID_String_tmp [symmetric])

lemma fst_paths [simp]:
  "fst (chunkPath st i) = baseDir st" "fst (tmpPath (chunkPath st i)) = baseDir st"
  by (simp_all add: chunkPath_def tmpPath_def)

lemma fs_plain_simps [simp]:
  "fs_plain None" "fs_plain (Some (RegFile d))" "\<not> fs_plain (Some (SubDir l))"
  by (simp_all add: fs_plain_def)

lemma fs_inv_tick [simp]: "fs_inv st (os_tick s) = fs_inv st s"
  by (simp add: fs_inv_def)

lemma fs_holds_tick [simp]: "fs_holds st (os_tick s) = fs_holds st s"
  by (simp add: fs_holds_def fun_eq_iff)

lemma fs_inv_node:
  assumes "fs_inv st s"
  shows "os_node s (chunkPath st i) = None \<and> fs_holds st s i = None \<or>
    (\<exists>d. os_node s (chunkPath st i) = Some (RegFile d) \<and> fs_holds st s i = Some d \<and> NewChunkID d = i)"
proof -
  have "fs_plain (os_node s (chunkPath st i))"
    and "os_node s (chunkPath st i) = Some (RegFile d) \<Longrightarrow> NewChunkID d = i" for d
    using assms by (auto simp: fs_inv_def)
  then show ?thesis
    by (cases "os_node s (chunkPath st i)") (auto simp: fs_holds_def fs_plain_def split: fnode.splits)
qed

lemma fs_inv_tmp_plain: "fs_inv st s \<Longrightarrow> fs_plain (os_node s (tmpPath (chunkPath st i)))"
  by (simp add: fs_inv_def)

lemma fs_inv_base: "fs_inv st s \<Longrightarrow> baseDir st \<in> set (os_dirs s)"
  by (simp add: fs_inv_def)

text \<open>Writing a temporary file and removing any file keep the store's contents valid.\<close>

lemma fs_inv_set_tmp:
  "fs_inv st s \<Longrightarrow> fs_inv st (os_set (tmpPath (chunkPath st i)) (RegFile d) s)"
  by (auto simp: fs_inv_def tmpPath_def chunkPath_def ChunkIDFromHex_tmp)

lemma fs_inv_unset: "fs_inv st s \<Longrightarrow> fs_inv st (os_unset p s)"
  by (auto simp: fs_inv_def)

lemma fs_inv_set_chunk:
  "fs_inv st s \<Longrightarrow> fs_inv st (os_set (chunkPath st (NewChunkID d)) (RegFile d) s)"
  by (auto simp: fs_inv_def chunkPath_def)

lemma fs_holds_set_tmp [simp]: "fs_holds st (os_set (tmpPath (chunkPath st i)) n s) = fs_holds st s"
  by (simp add: fs_holds_def fun_eq_iff)

lemma fs_holds_unset_tmp [simp]: "fs_holds st (os_unset (tmpPath (chunkPath st i)) s) = fs_holds st s"
  by (simp add: fs_holds_def fun_eq_iff)

lemma fs_holds_set_chunk [simp]:
  "fs_holds st (os_set (chunkPath st i) (RegFile d) s) = (fs_holds st s)(i \<mapsto> d)"
  by (auto simp: fs_holds_def fun_eq_iff)

lemma fs_holds_unset_chunk [simp]:
  "fs_holds st (os_unset (chunkPath st i) s) = (fs_holds st s)(i := None)"
  by (auto simp: fs_holds_def fun_eq_iff)

text \<open>The system calls, seen through the store.\<close>

lemma os_Stat_result:
  "os_Stat s p = (r, s') \<Longrightarrow>
   s' = os_tick s \<and> (r = None \<longrightarrow> os_node s p \<noteq> None) \<and>
   (\<forall>e. r = Some e \<longrightarrow> os_IsNotExist e \<longrightarrow> os_node s p = None) \<and>
   (os_healthy s \<longrightarrow> (r = None \<longleftrightarrow> os_node s p \<noteq> None) \<and> (\<forall>e. r = Some e \<longrightarrow> os_IsNotExist e))"
  by (auto simp: os_Stat_def split: option.splits)

lemma os_WriteFile_tmp:
  assumes "fs_inv st s" and "os_WriteFile s (tmpPath (chunkPath st i)) d = (r, s')"
  shows "fs_inv st s' \<and> fs_holds st s' = fs_holds st s \<and>
    (r = None \<longrightarrow> os_node s' (tmpPath (chunkPath st i)) = Some (RegFile d)) \<and>
    (os_healthy s \<longrightarrow> r = None \<and> os_healthy s')"
proof -
  have "os_open_error s (tmpPath (chunkPath st i)) = None"
    using fs_inv_tmp_plain [OF assms(1), of i] fs_inv_base [OF assms(1)]
    by (auto simp: os_open_error_def fs_plain_def split: option.splits fnode.splits)
  then show ?thesis
    using assms by (auto simp: os_WriteFile_def fs_inv_set_tmp split: option.splits fault.splits)
qed

lemma os_Rename_tmp:
  assumes "fs_inv st s" and "os_node s (tmpPath (chunkPath st (NewChunkID d))) = Some (RegFile d)"
    and "os_Rename s (tmpPath (chunkPath st (NewChunkID d))) (chunkPath st (NewChunkID d)) = (r, s')"
  shows "fs_inv st s' \<and>
    fs_holds st s' = (if r = None then (fs_holds st s)(NewChunkID d \<mapsto> d) else fs_holds st s) \<and>
    (os_healthy s \<longrightarrow> r = None \<and> os_healthy s')"
  using fs_inv_node [OF assms(1), of "NewChunkID d"] assms
  by (auto simp: os_Rename_def fs_inv_set_chunk fs_inv_unset split: option.splits)

lemma os_Remove_tmp:
  assumes "fs_inv st s"
  shows "fs_inv st (snd (os_Remove s (tmpPath (chunkPath st i))))"
    and "fs_holds st (snd (os_Remove s (tmpPath (chunkPath st i)))) = fs_holds st s"
  using assms by (auto simp: os_Remove_def fs_inv_unset split: option.splits fnode.splits list.splits)

lemma os_Remove_chunk:
  assumes "fs_inv st s" and "os_Remove s (chunkPath st i) = (r, s')"
  shows "fs_inv st s'"
    and "fs_holds st s' = (if r = None \<or> (\<exists>e. r = Some e \<and> os_IsNotExist e)
      then (fs_holds st s)(i := None) else fs_holds st s)"
    and "os_healthy s \<Longrightarrow> os_healthy s' \<and> (\<forall>e. r = Some e \<longrightarrow> os_IsNotExist e)"
proof -
  have same: "fs_holds st s i = None \<Longrightarrow> (fs_holds st s)(i := None) = fs_holds st s" by auto
  show "fs_inv st s'" and "fs_holds st s' = (if r = None \<or> (\<exists>e. r = Some e \<and> os_IsNotExist e)
      then (fs_holds st s)(i := None) else fs_holds st s)"
    and "os_healthy s \<Longrightarrow> os_healthy s' \<and> (\<forall>e. r = Some e \<longrightarrow> os_IsNotExist e)"
    using fs_inv_node [OF assms(1), of i] assms
    by (auto simp: os_Remove_def fs_inv_unset same split: option.splits)
qed

section \<open>The methods\<close>

lemma fs_PutChunk_effect:
  assumes inv: "fs_inv st s" and put: "fs_PutChunk st s d = (r, s')"
  shows "fs_inv st s'"
    and "(\<exists>e. r = Inl e) \<and> fs_holds st s' = fs_holds st s \<or>
      r = Inr (NewChunkID d) \<and> fs_holds st s' (NewChunkID d) \<noteq> None \<and>
      (fs_holds st s' = fs_holds st s \<or> fs_holds st s' = (fs_holds st s)(NewChunkID d \<mapsto> d))"
    and "os_healthy s \<Longrightarrow> os_healthy s' \<and> r = Inr (NewChunkID d)"
proof -
  let ?p = "chunkPath st (NewChunkID d)"
  let ?post = "fs_inv st s' \<and>
    ((\<exists>e. r = Inl e) \<and> fs_holds st s' = fs_holds st s \<or>
      r = Inr (NewChunkID d) \<and> fs_holds st s' (NewChunkID d) \<noteq> None \<and>
      (fs_holds st s' = fs_holds st s \<or> fs_holds st s' = (fs_holds st s)(NewChunkID d \<mapsto> d))) \<and>
    (os_healthy s \<longrightarrow> os_healthy s' \<and> r = Inr (NewChunkID d))"
  obtain r1 s1 where stat: "os_Stat s ?p = (r1, s1)" by fastforce
  note s1 = os_Stat_result [OF stat]
  have ?post
  proof (cases r1)
    case None
    with stat put have "r = Inr (NewChunkID d)" "s' = s1"
      by (simp_all add: fs_PutChunk_def Let_def)
    moreover have "fs_holds st s (NewChunkID d) \<noteq> None"
      using s1 None fs_inv_node [OF inv, of "NewChunkID d"] by auto
    ultimately show ?thesis using s1 inv by simp
  next
    case (Some e1)
    obtain r2 s2 where wr: "os_WriteFile s1 (tmpPath ?p) d = (r2, s2)" by fastforce
    have s2: "fs_inv st s2" "fs_holds st s2 = fs_holds st s"
      "r2 = None \<longrightarrow> os_node s2 (tmpPath ?p) = Some (RegFile d)"
      "os_healthy s \<longrightarrow> r2 = None \<and> os_healthy s2"
      using os_WriteFile_tmp [OF _ wr] s1 inv by auto
    show ?thesis
    proof (cases r2)
      case (Some e)
      with stat wr put \<open>r1 = Some e1\<close> s2 show ?thesis
        by (auto simp: fs_PutChunk_def Let_def)
    next
      case None
      obtain r3 s3 where rn: "os_Rename s2 (tmpPath ?p) ?p = (r3, s3)" by fastforce
      have s3: "fs_inv st s3"
        "fs_holds st s3 = (if r3 = None then (fs_holds st s)(NewChunkID d \<mapsto> d) else fs_holds st s)"
        "os_healthy s \<longrightarrow> r3 = None \<and> os_healthy s3"
        using os_Rename_tmp [OF s2(1) _ rn] s2 None by auto
      show ?thesis
        using stat wr put rn \<open>r1 = Some e1\<close> None s3 os_Remove_tmp [OF s3(1)]
        by (cases r3) (auto simp: fs_PutChunk_def Let_def)
    qed
  qed
  then show "fs_inv st s'"
    and "(\<exists>e. r = Inl e) \<and> fs_holds st s' = fs_holds st s \<or>
      r = Inr (NewChunkID d) \<and> fs_holds st s' (NewChunkID d) \<noteq> None \<and>
      (fs_holds st s' = fs_holds st s \<or> fs_holds st s' = (fs_holds st s)(NewChunkID d \<mapsto> d))"
    and "os_healthy s \<Longrightarrow> os_healthy s' \<and> r = Inr (NewChunkID d)"
    by blast+
qed

lemma fs_GetChunk_effect:
  assumes "fs_inv st s" and "fs_GetChunk st s i = (r, s')"
  shows "s' = os_tick s"
    and "r = Inr d \<Longrightarrow> fs_holds st s i = Some d"
    and "r = Inl Fs_ErrNotExist \<Longrightarrow> fs_holds st s i = None"
    and "os_healthy s \<Longrightarrow> r = (case fs_holds st s i of None \<Rightarrow> Inl Fs_ErrNotExist | Some d \<Rightarrow> Inr d)"
  using fs_inv_node [OF assms(1), of i] assms(2)
  by (auto simp: fs_GetChunk_def os_ReadFile_def split: option.splits fnode.splits)

lemma fs_HasChunk_effect:
  assumes "fs_inv st s" and "fs_HasChunk st s i = (r, s')"
  shows "s' = os_tick s"
    and "r = Inr b \<Longrightarrow> b \<longleftrightarrow> fs_holds st s i \<noteq> None"
    and "os_healthy s \<Longrightarrow> r = Inr (fs_holds st s i \<noteq> None)"
  using fs_inv_node [OF assms(1), of i] assms(2)
  by (auto simp: fs_HasChunk_def os_Stat_def split: option.splits)

lemma fs_DeleteChunk_effect:
  assumes "fs_inv st s" and "fs_DeleteChunk st s i = (r, s')"
  shows "fs_inv st s'"
    and "fs_holds st s' = (if r = None then (fs_holds st s)(i := None) else fs_holds st s)"
    and "os_healthy s \<Longrightarrow> os_healthy s' \<and> r = None"
proof -
  obtain r1 s1 where rm: "os_Remove s (chunkPath st i) = (r1, s1)" by fastforce
  note eff = os_Remove_chunk [OF assms(1) rm]
  show "fs_inv st s'"
    and "fs_holds st s' = (if r = None then (fs_holds st s)(i := None) else fs_holds st s)"
    and "os_healthy s \<Longrightarrow> os_healthy s' \<and> r = None"
    using rm assms eff by (auto simp: fs_DeleteChunk_def split: option.splits if_splits)
qed

lemma list_chunk_ids_set:
  "i \<in> set (list_chunk_ids es) \<longleftrightarrow>
   (\<exists>name d. (name, RegFile d) \<in> set es \<and> ChunkIDFromHex name = Inr i)"
  by (induction es rule: list_chunk_ids.induct) (auto split: fnode.splits sum.splits)

lemma list_chunk_ids_distinct:
  assumes canon: "\<And>name d i. (name, RegFile d) \<in> set es \<Longrightarrow> ChunkIDFromHex name = Inr i \<Longrightarrow> name = ChunkID_String i"
    and "distinct (map fst es)"
  shows "distinct (list_chunk_ids es)"
  using assms
proof (induction es)
  case (Cons e es)
  obtain name n where e: "e = (name, n)" by (cases e)
  have IH: "distinct (list_chunk_ids es)"
    using Cons.prems by (intro Cons.IH) auto
  have "i \<notin> set (list_chunk_ids es)" if "ChunkIDFromHex name = Inr i" "n = RegFile d" for i d
  proof
    assume "i \<in> set (list_chunk_ids es)"
    then obtain name' d' where m: "(name', RegFile d') \<in> set es" "ChunkIDFromHex name' = Inr i"
      by (auto simp: list_chunk_ids_set)
    have "name' = ChunkID_String i" "name = ChunkID_String i"
      using Cons.prems(1) [of name' d' i] Cons.prems(1) [of name d i] m that e by auto
    then show False using Cons.prems(2) m e by force
  qed
  then show ?case using IH e by (auto split: fnode.splits sum.splits)
qed simp

lemma fs_ListChunks_effect:
  assumes inv: "fs_inv st s" and call: "fs_ListChunks st s = (r, s')"
  shows "s' = os_tick s"
    and "r = Inr l \<Longrightarrow> set l = dom (fs_holds st s) \<and> distinct l"
    and "os_healthy s \<Longrightarrow> \<exists>l. r = Inr l"
proof -
  have d: "distinct (map fst (os_files s))" and base: "baseDir st \<in> set (os_dirs s)"
    and canon: "os_node s (baseDir st, name) = Some (RegFile d) \<Longrightarrow> ChunkIDFromHex name = Inr i \<Longrightarrow>
      name = ChunkID_String i" for name d i
    using inv by (auto simp: fs_inv_def)
  show "s' = os_tick s" and "os_healthy s \<Longrightarrow> \<exists>l. r = Inr l"
    using call base by (auto simp: fs_ListChunks_def os_ReadDir_def split: option.splits)
  assume "r = Inr l"
  then have l: "l = list_chunk_ids (dir_entries s (baseDir st))"
    using call base by (auto simp: fs_ListChunks_def os_ReadDir_def split: option.splits)
  have "i \<in> set l \<longleftrightarrow> fs_holds st s i \<noteq> None" for i
  proof
    assume "i \<in> set l"
    then obtain name d where "os_node s (baseDir st, name) = Some (RegFile d)" "ChunkIDFromHex name = Inr i"
      using l d by (auto simp: list_chunk_ids_set dir_entries_set)
    then show "fs_holds st s i \<noteq> None"
      using canon by (auto simp: fs_holds_def chunkPath_def)
  next
    assume "fs_holds st s i \<noteq> None"
    then obtain d where "os_node s (baseDir st, ChunkID_String i) = Some (RegFile d)"
      by (auto simp: fs_holds_def chunkPath_def split: option.splits fnode.splits)
    then show "i \<in> set l"
      using l d by (auto simp: list_chunk_ids_set dir_entries_set intro!: exI [of _ "ChunkID_String i"])
  qed
  moreover have "distinct l"
    unfolding l using d canon
    by (intro list_chunk_ids_distinct dir_entries_distinct) (simp_all add: dir_entries_set)
  ultimately show "set l = dom (fs_holds st s) \<and> distinct l" by auto
qed

section \<open>The store meets the contract\<close>

interpretation fs: chunk_store "FSStore st" "fs_holds st" "fs_inv st" os_healthy
proof (unfold_locales, goal_cases)
  case (1 s i d)
  then show ?case using fs_inv_node [of st s i] by auto
next
  case (2 s d r s')
  then show ?case by (simp add: FSStore_def fs_PutChunk_effect)
next
  case (3 s d i s')
  then show ?case using fs_PutChunk_effect(2) [of st s d "Inr i" s'] by (auto simp: FSStore_def)
next
  case (4 s d r s')
  then show ?case using fs_PutChunk_effect(2) [of st s d r s'] by (auto simp: FSStore_def)
next
  case (5 s d e s')
  then show ?case using fs_PutChunk_effect(2) [of st s d "Inl e" s'] by (auto simp: FSStore_def)
next
  case (6 s d r s')
  then show ?case using fs_PutChunk_effect(3) [of st s d r s'] by (simp add: FSStore_def)
next
  case (7 s i g s')
  then show ?case using fs_GetChunk_effect(1) [of st s i g s'] by (simp add: FSStore_def)
next
  case (8 s i d s')
  then show ?case using fs_GetChunk_effect(2) [of st s i "Inr d" s' d] by (simp add: FSStore_def)
next
  case (9 s i s')
  then show ?case using fs_GetChunk_effect(3) [of st s i "Inl Fs_ErrNotExist" s'] by (simp add: FSStore_def)
next
  case (10 s i g s')
  then show ?case using fs_GetChunk_effect(1,4) [of st s i g s'] by (simp add: FSStore_def)
next
  case (11 s i h s')
  then show ?case using fs_HasChunk_effect(1) [of st s i h s'] by (simp add: FSStore_def)
next
  case (12 s i b s')
  then show ?case using fs_HasChunk_effect(2) [of st s i "Inr b" s' b] by (simp add: FSStore_def)
next
  case (13 s i h s')
  then show ?case using fs_HasChunk_effect(1,3) [of st s i h s'] by (simp add: FSStore_def)
next
  case (14 s i x s')
  then show ?case using fs_DeleteChunk_effect(1) [of st s i x s'] by (simp add: FSStore_def)
next
  case (15 s i s')
  then show ?case using fs_DeleteChunk_effect(2) [of st s i None s'] by (simp add: FSStore_def)
next
  case (16 s i e s')
  then show ?case using fs_DeleteChunk_effect(2) [of st s i "Some e" s'] by (simp add: FSStore_def)
next
  case (17 s i x s')
  then show ?case using fs_DeleteChunk_effect(3) [of st s i x s'] by (simp add: FSStore_def)
next
  case (18 s y s')
  then show ?case using fs_ListChunks_effect(1) [of st s y s'] by (simp add: FSStore_def)
next
  case (19 s l s')
  then show ?case using fs_ListChunks_effect(2) [of st s "Inr l" s' l] by (simp add: FSStore_def)
next
  case (20 s y s')
  then show ?case using fs_ListChunks_effect(1,3) [of st s y s'] by (simp add: FSStore_def)
qed

section \<open>Properties\<close>

text \<open>A file system with one empty directory, for the witnesses.\<close>

definition one_dir :: os where
  "one_dir = \<lparr>os_dirs = [''d''], os_files = [], os_sched = []\<rparr>"

lemma one_dir_inv [simp]:
  "fs_inv \<lparr>baseDir = ''d''\<rparr> one_dir" "fs_holds \<lparr>baseDir = ''d''\<rparr> one_dir = Map.empty"
  "os_healthy one_dir"
  by (simp_all add: fs_inv_def fs_holds_def one_dir_def os_node_def os_healthy_def fun_eq_iff)

text \<open>
  A store created on a directory that has no entries satisfies the store invariant and holds no
  chunk.
\<close>

theorem NewFSChunkStore_inv:
  assumes "distinct (map fst (os_files s))" and "\<forall>p \<in> fst ` set (os_files s). fst p \<noteq> dir"
    and "NewFSChunkStore s dir = (Inr st, s')"
  shows "baseDir st = dir \<and> fs_inv st s' \<and> fs_holds st s' = Map.empty"
proof -
  have st: "st = \<lparr>baseDir = dir\<rparr>" and dirs: "dir \<in> set (os_dirs s')" and files: "os_files s' = os_files s"
    using assms(3) by (auto simp: NewFSChunkStore_def os_MkdirAll_def os_tick_def split: if_splits option.splits)
  have "map_of (os_files s) (dir, name) = None" for name
    using assms(2) by (force simp: map_of_eq_None_iff)
  then have "os_node s' (dir, name) = None" for name
    by (simp add: os_node_def files)
  then show ?thesis
    using st dirs files assms(1) by (auto simp: fs_inv_def fs_holds_def chunkPath_def tmpPath_def)
qed

theorem NewFSChunkStore_inv_witness:
  "fs_inv \<lparr>baseDir = ''d''\<rparr> (snd (NewFSChunkStore \<lparr>os_dirs = [], os_files = [], os_sched = []\<rparr> ''d''))"
  using NewFSChunkStore_inv [of "\<lparr>os_dirs = [], os_files = [], os_sched = []\<rparr>" "''d''" "\<lparr>baseDir = ''d''\<rparr>"
      "snd (NewFSChunkStore \<lparr>os_dirs = [], os_files = [], os_sched = []\<rparr> ''d'')"]
  by (simp add: NewFSChunkStore_def os_MkdirAll_def os_fault_def)

text \<open>
  C9: \<^verbatim>\<open>PutChunk\<close> is atomic whatever system calls fail. The invariant (every chunk file hashes to
  its name) survives; an error leaves the stored chunks as they were; a success returns the
  hash of the data, leaves a chunk under it and changes no other chunk.
\<close>

theorem fs_PutChunk_atomic:
  assumes "fs_inv st s" and "fs_PutChunk st s d = (r, s')"
  shows "fs_inv st s' \<and>
    (case r of
       Inl _ \<Rightarrow> fs_holds st s' = fs_holds st s
     | Inr i \<Rightarrow> i = NewChunkID d \<and> fs_holds st s' i \<noteq> None \<and>
         fs_holds st s' i \<in> {fs_holds st s i, Some d} \<and>
         (\<forall>j. j \<noteq> i \<longrightarrow> fs_holds st s' j = fs_holds st s j))"
  using fs_PutChunk_effect(1,2) [OF assms] by (auto split: sum.splits)

theorem fs_PutChunk_atomic_witness:
  "fs_holds \<lparr>baseDir = ''d''\<rparr> (snd (fs_PutChunk \<lparr>baseDir = ''d''\<rparr> one_dir [1])) (NewChunkID [1]) = Some [1]"
proof -
  obtain r s' where p: "fs_PutChunk \<lparr>baseDir = ''d''\<rparr> one_dir [1] = (r, s')" by fastforce
  then have "r = Inr (NewChunkID [1])"
    using fs_PutChunk_effect(3) [OF _ p] by simp
  then show ?thesis
    using fs_PutChunk_atomic [OF one_dir_inv(1) p] p by auto
qed

text \<open>
  C10: without failing system calls the five methods implement a map from identifiers to data:
  \<^verbatim>\<open>PutChunk\<close> inserts unless the key is there, \<^verbatim>\<open>GetChunk\<close> looks up (\<^verbatim>\<open>fs.ErrNotExist\<close> when
  absent), \<^verbatim>\<open>HasChunk\<close> tests, \<^verbatim>\<open>DeleteChunk\<close> removes and \<^verbatim>\<open>ListChunks\<close> lists the domain without
  repetition.
\<close>

theorem fs_refines_map:
  assumes "fs_inv st s" and "os_healthy s"
  shows "fst (fs_PutChunk st s d) = Inr (NewChunkID d) \<and>
    fs_holds st (snd (fs_PutChunk st s d)) =
      (if fs_holds st s (NewChunkID d) = None then (fs_holds st s)(NewChunkID d \<mapsto> d) else fs_holds st s) \<and>
    fst (fs_GetChunk st s i) = (case fs_holds st s i of None \<Rightarrow> Inl Fs_ErrNotExist | Some x \<Rightarrow> Inr x) \<and>
    fst (fs_HasChunk st s i) = Inr (fs_holds st s i \<noteq> None) \<and>
    fst (fs_DeleteChunk st s i) = None \<and>
    fs_holds st (snd (fs_DeleteChunk st s i)) = (fs_holds st s)(i := None) \<and>
    (\<exists>l. fst (fs_ListChunks st s) = Inr l \<and> set l = dom (fs_holds st s) \<and> distinct l)"
proof -
  obtain r s' where put: "fs_PutChunk st s d = (r, s')" by fastforce
  have stat: "fs_holds st s' = fs_holds st s" if "fs_holds st s (NewChunkID d) \<noteq> None"
  proof -
    from that have "os_node s (chunkPath st (NewChunkID d)) \<noteq> None"
      using fs_inv_node [OF assms(1), of "NewChunkID d"] by auto
    then have "os_Stat s (chunkPath st (NewChunkID d)) = (None, os_tick s)"
      using assms(2) by (auto simp: os_Stat_def)
    then show ?thesis using put by (auto simp: fs_PutChunk_def Let_def)
  qed
  have "fst (fs_PutChunk st s d) = Inr (NewChunkID d)"
    and "fs_holds st (snd (fs_PutChunk st s d)) =
      (if fs_holds st s (NewChunkID d) = None then (fs_holds st s)(NewChunkID d \<mapsto> d) else fs_holds st s)"
    using fs_PutChunk_effect(2,3) [OF assms(1) put] assms(2) put stat by auto
  moreover have "fst (fs_GetChunk st s i) = (case fs_holds st s i of None \<Rightarrow> Inl Fs_ErrNotExist | Some x \<Rightarrow> Inr x)"
    using fs_GetChunk_effect(4) assms by (metis prod.collapse)
  moreover have "fst (fs_HasChunk st s i) = Inr (fs_holds st s i \<noteq> None)"
    using fs_HasChunk_effect(3) assms by (metis prod.collapse)
  moreover have del: "fst (fs_DeleteChunk st s i) = None"
    using fs_DeleteChunk_effect(3) assms by (metis prod.collapse)
  moreover have "fs_holds st (snd (fs_DeleteChunk st s i)) = (fs_holds st s)(i := None)"
    using fs_DeleteChunk_effect(2) [OF assms(1), of i] del by (metis prod.collapse)
  moreover have "\<exists>l. fst (fs_ListChunks st s) = Inr l \<and> set l = dom (fs_holds st s) \<and> distinct l"
    using fs_ListChunks_effect(2,3) [OF assms(1)] assms(2) by (metis prod.collapse)
  ultimately show ?thesis by blast
qed

theorem fs_refines_map_witness:
  "fst (fs_GetChunk \<lparr>baseDir = ''d''\<rparr> one_dir ChunkID_zero) = Inl Fs_ErrNotExist"
  using fs_refines_map [of "\<lparr>baseDir = ''d''\<rparr>" one_dir "[1]" ChunkID_zero] by simp



end
