(* ===== verification/Go_Bufio.thy ===== *)
theory Go_Bufio
  imports Go_Os
begin

text \<open>
  \<^verbatim>\<open>bufio.Reader\<close> (its buffer of 4096 bytes, the pending error, the direct read into a large
  destination) and \<^verbatim>\<open>io.ReadFull\<close> on it, as the chunker uses them. The main lemma
  \<open>io_ReadFull_spec\<close> says that the segmentation of the reader is invisible: the call
  returns the next bytes of the content, and the reader's error only when fewer are left.
\<close>

record bufio =
  bf_buf :: bytes
  bf_err :: "go_error option"
  bf_src :: reader

definition bufio_NewReader :: "reader \<Rightarrow> bufio" where
  "bufio_NewReader r = \<lparr>bf_buf = [], bf_err = None, bf_src = r\<rparr>"

definition bufio_Read :: "bufio \<Rightarrow> nat \<Rightarrow> bytes \<times> go_error option \<times> bufio" where
  "bufio_Read b m =
     (if m = 0 then
        (if bf_buf b \<noteq> [] then ([], None, b) else ([], bf_err b, b\<lparr>bf_err := None\<rparr>))
      else if bf_buf b = [] then
        (case bf_err b of
           Some e \<Rightarrow> ([], Some e, b\<lparr>bf_err := None\<rparr>)
         | None \<Rightarrow>
             if 4096 \<le> m then
               (case rd_Read (bf_src b) m of (d, e, src) \<Rightarrow> (d, e, b\<lparr>bf_src := src\<rparr>))
             else
               (case rd_Read (bf_src b) 4096 of
                  (d, e, src) \<Rightarrow>
                    if d = [] then ([], e, b\<lparr>bf_src := src\<rparr>)
                    else (take m d, None, \<lparr>bf_buf = drop m d, bf_err = e, bf_src = src\<rparr>)))
      else (take m (bf_buf b), None, b\<lparr>bf_buf := drop m (bf_buf b)\<rparr>))"

definition bf_size :: "bufio \<Rightarrow> nat" where
  "bf_size b = length (bf_buf b) + (if bf_err b = None then 0 else 1) + rd_size (bf_src b)"

definition bf_content :: "bufio \<Rightarrow> bytes" where
  "bf_content b = bf_buf b @ rd_content (bf_src b)"

definition bf_wf :: "bufio \<Rightarrow> bool" where
  "bf_wf b \<longleftrightarrow> (\<forall>e. bf_err b = Some e \<longrightarrow> e = rd_err (bf_src b) \<and> rd_content (bf_src b) = [])"

lemma rd_Read_size_exact:
  "rd_Read r m = (d, e, r') \<Longrightarrow> 0 < m \<Longrightarrow>
   rd_size r' + length d \<le> rd_size r \<and>
   (d = [] \<and> e = None \<or> d \<noteq> [] \<and> e \<noteq> None \<longrightarrow> Suc (rd_size r' + length d) \<le> rd_size r)"
  by (cases "rd_segs r") (auto simp: rd_Read_def rd_size_def split: if_splits)

lemma bufio_Read_size:
  assumes rd: "bufio_Read b m = (d, e, b')" and m: "0 < m"
  shows "bf_size b' + (if d \<noteq> [] \<or> e = None then 1 else 0) \<le> bf_size b"
proof (cases "bf_buf b = [] \<and> bf_err b = None")
  case False
  with rd m show ?thesis
    by (cases "bf_buf b"; cases "bf_err b") (auto simp: bufio_Read_def bf_size_def)
next
  case idle: True
  obtain x f src where r: "rd_Read (bf_src b) (if 4096 \<le> m then m else 4096) = (x, f, src)"
    by (metis prod_cases3)
  have ex: "rd_size src + length x + (if (x = []) = (f = None) then 1 else 0) \<le> rd_size (bf_src b)"
    using rd_Read_size_exact [OF r] m by (auto split: if_splits)
  show ?thesis
  proof (cases "4096 \<le> m \<or> x = []")
    case True
    with rd m r idle have "d = x" "e = f" "b' = b\<lparr>bf_src := src\<rparr>"
      by (auto simp: bufio_Read_def split: if_splits)
    with ex idle show ?thesis by (cases x; cases f) (auto simp: bf_size_def)
  next
    case False
    with rd m r idle have "e = None" "b' = \<lparr>bf_buf = drop m x, bf_err = f, bf_src = src\<rparr>"
      by (auto simp: bufio_Read_def split: if_splits)
    moreover have "length x - m < length x" using False m by simp
    ultimately show ?thesis using ex idle False by (cases f) (auto simp: bf_size_def)
  qed
qed

lemma bufio_Read_content:
  assumes "bufio_Read b m = (d, e, b')" and "bf_wf b" and "0 < m"
  shows "bf_content b = d @ bf_content b'" and "bf_wf b'" and "length d \<le> m"
    and "rd_err (bf_src b') = rd_err (bf_src b)"
    and "e = Some x \<Longrightarrow> x = rd_err (bf_src b) \<and> bf_content b' = []"
proof -
  obtain y f src where r: "rd_Read (bf_src b) (if 4096 \<le> m then m else 4096) = (y, f, src)"
    by (metis prod_cases3)
  note c = rd_Read_content [OF r] and er = rd_Read_error [of "bf_src b" _ y _ src]
  show "bf_content b = d @ bf_content b'" and "bf_wf b'" and "length d \<le> m"
    and "rd_err (bf_src b') = rd_err (bf_src b)"
    and "e = Some x \<Longrightarrow> x = rd_err (bf_src b) \<and> bf_content b' = []"
    using assms r c er
    by (auto simp: bufio_Read_def bf_content_def bf_wf_def split: if_splits option.splits)
qed

section \<open>io.ReadFull\<close>

function read_at_least :: "bufio \<Rightarrow> nat \<Rightarrow> bytes \<Rightarrow> bytes \<times> go_error option \<times> bufio" where
  "read_at_least b m acc =
     (if length acc < m then
        (case bufio_Read b (m - length acc) of
           (d, None, b') \<Rightarrow> read_at_least b' m (acc @ d)
         | (d, Some e, b') \<Rightarrow> (acc @ d, Some e, b'))
      else (acc, None, b))"
  by pat_completeness auto
termination
proof (relation "measure (\<lambda>(b, m, acc). bf_size b)", goal_cases)
  case (2 b m acc x y xa ya)
  then show ?case using bufio_Read_size [of b "m - length acc" x xa ya] by simp
qed simp

declare read_at_least.simps [simp del]

definition io_ReadFull :: "bufio \<Rightarrow> nat \<Rightarrow> bytes \<times> go_error option \<times> bufio" where
  "io_ReadFull b m =
     (case read_at_least b m [] of
        (d, e, b') \<Rightarrow>
          if m \<le> length d then (d, None, b')
          else if d \<noteq> [] \<and> e = Some Io_EOF then (d, Some Io_ErrUnexpectedEOF, b')
          else (d, e, b'))"

text \<open>The loop, as one statement about its result.\<close>

definition read_spec :: "bufio \<Rightarrow> nat \<Rightarrow> bytes \<Rightarrow> bytes \<times> go_error option \<times> bufio \<Rightarrow> bool" where
  "read_spec b m acc res \<longleftrightarrow>
     (case res of (d, e, b') \<Rightarrow>
        d = acc @ take (m - length acc) (bf_content b) \<and>
        bf_content b' = drop (m - length acc) (bf_content b) \<and> bf_wf b' \<and>
        rd_err (bf_src b') = rd_err (bf_src b) \<and>
        (length d < m \<longrightarrow> e = Some (rd_err (bf_src b))))"

lemma read_at_least_spec:
  "bf_wf b \<Longrightarrow> length acc \<le> m \<Longrightarrow> read_spec b m acc (read_at_least b m acc)"
proof (induction b m acc rule: read_at_least.induct)
  case (1 b m acc)
  obtain x f b1 where rd: "bufio_Read b (m - length acc) = (x, f, b1)" by (metis prod_cases3)
  show ?case
  proof (cases "length acc < m")
    case False
    with 1 show ?thesis by (simp add: read_at_least.simps [of b m acc] read_spec_def)
  next
    case True
    have c: "bf_content b = x @ bf_content b1" "bf_wf b1" "length x \<le> m - length acc"
      "rd_err (bf_src b1) = rd_err (bf_src b)"
      and er: "f = Some y \<Longrightarrow> y = rd_err (bf_src b) \<and> bf_content b1 = []" for y
      using bufio_Read_content [OF rd "1.prems"(1)] True by auto
    show ?thesis
    proof (cases f)
      case None
      have "read_spec b1 m (acc @ x) (read_at_least b1 m (acc @ x))"
        using rd None True c by (intro "1.IH") auto
      then show ?thesis
        using rd None True c
        by (auto simp: read_at_least.simps [of b m acc] read_spec_def)
    next
      case (Some y)
      with er have "y = rd_err (bf_src b)" "bf_content b1 = []" by auto
      then show ?thesis
        using rd Some True c
        by (auto simp: read_at_least.simps [of b m acc] read_spec_def)
    qed
  qed
qed

lemma io_ReadFull_spec:
  assumes "bf_wf b" and "0 < m" and "io_ReadFull b m = (d, e, b')"
  shows "d = take m (bf_content b)" and "bf_content b' = drop m (bf_content b)" and "bf_wf b'"
    and "rd_err (bf_src b') = rd_err (bf_src b)"
    and "e = (if m \<le> length (bf_content b) then None
              else if bf_content b \<noteq> [] \<and> rd_err (bf_src b) = Io_EOF then Some Io_ErrUnexpectedEOF
              else Some (rd_err (bf_src b)))"
proof -
  obtain d1 e1 b1 where r: "read_at_least b m [] = (d1, e1, b1)" by (metis prod_cases3)
  have sp: "read_spec b m [] (d1, e1, b1)"
    using read_at_least_spec [of b "[]" m] assms r by simp
  then have d1: "d1 = take m (bf_content b)" by (simp add: read_spec_def)
  show "d = take m (bf_content b)" and "bf_content b' = drop m (bf_content b)" and "bf_wf b'"
    and "rd_err (bf_src b') = rd_err (bf_src b)"
    using sp assms r by (auto simp: io_ReadFull_def read_spec_def split: if_splits)
  show "e = (if m \<le> length (bf_content b) then None
              else if bf_content b \<noteq> [] \<and> rd_err (bf_src b) = Io_EOF then Some Io_ErrUnexpectedEOF
              else Some (rd_err (bf_src b)))"
    using sp assms r d1 by (auto simp: io_ReadFull_def read_spec_def split: if_splits)
qed

text \<open>Reading a full buffer makes progress, whatever the state of the reader.\<close>

lemma read_at_least_size:
  "bf_size (snd (snd (read_at_least b m acc))) \<le> bf_size b \<and>
   (length acc < m \<and> m \<le> length (fst (read_at_least b m acc)) \<longrightarrow>
      bf_size (snd (snd (read_at_least b m acc))) < bf_size b)"
proof (induction b m acc rule: read_at_least.induct)
  case (1 b m acc)
  obtain x f b1 where rd: "bufio_Read b (m - length acc) = (x, f, b1)" by (metis prod_cases3)
  show ?case
  proof (cases "length acc < m")
    case False
    then show ?thesis by (simp add: read_at_least.simps [of b m acc])
  next
    case True
    have sz: "bf_size b1 + (if x \<noteq> [] \<or> f = None then 1 else 0) \<le> bf_size b"
      using bufio_Read_size [OF rd] True by simp
    show ?thesis
    proof (cases f)
      case None
      have "bf_size (snd (snd (read_at_least b1 m (acc @ x)))) \<le> bf_size b1"
        using "1.IH" [OF True rd [symmetric] refl None] by simp
      with None True rd sz show ?thesis
        by (auto simp: read_at_least.simps [of b m acc])
    next
      case (Some y)
      have "m \<le> length acc + length x \<Longrightarrow> x \<noteq> []" using True by auto
      with Some True rd sz show ?thesis
        by (auto simp: read_at_least.simps [of b m acc] split: if_splits)
    qed
  qed
qed

lemma read_at_least_none: "read_at_least b m acc = (d, None, b') \<Longrightarrow> m \<le> length d"
proof (induction b m acc rule: read_at_least.induct)
  case (1 b m acc)
  obtain x f b1 where "bufio_Read b (m - length acc) = (x, f, b1)" by (metis prod_cases3)
  with 1 show ?case
    by (cases "length acc < m"; cases f) (auto simp: read_at_least.simps [of b m acc])
qed

lemma io_ReadFull_size:
  "io_ReadFull b m = (d, None, b') \<Longrightarrow> 0 < m \<Longrightarrow> bf_size b' < bf_size b"
proof -
  assume rf: "io_ReadFull b m = (d, None, b')" and m: "0 < m"
  obtain d1 e1 b1 where r: "read_at_least b m [] = (d1, e1, b1)" by (metis prod_cases3)
  have "e1 = None \<Longrightarrow> m \<le> length d1"
    using r by (metis read_at_least_none)
  with rf r have "m \<le> length d1" "b' = b1"
    by (auto simp: io_ReadFull_def split: if_splits)
  then show ?thesis using read_at_least_size [of b m "[]"] r m by simp
qed

end
