(* ===== verification/Chunker.thy ===== *)
theory Chunker
  imports Fs_Store Go_Bufio
begin

text \<open>
  Splitting a reader into stored chunks, \<^verbatim>\<open>internal/storage/chunker.go\<close>: \<open>store_loop\<close> is the
  \<^verbatim>\<open>for\<close> loop of \<^verbatim>\<open>StoreFromReader\<close>. The refinement lemma \<open>store_loop_spec\<close> holds for every
  store: the loop stores the fixed-size pieces of the reader's content one after the other
  and reports their identifiers, positions and sizes, whatever the segmentation of the reader.
\<close>

section \<open>Definitions\<close>

definition DefaultChunkSize :: int where
  "DefaultChunkSize = 2 ^ 20"

record ChunkMeta =
  cm_Index :: int
  cm_ID :: ChunkID
  cm_Size :: int

text \<open>
  The loop body reads a full buffer; the guard on the buffer size is the one the caller has
  checked before the loop.
\<close>

function store_loop ::
  "'s ChunkStore \<Rightarrow> 's \<Rightarrow> bufio \<Rightarrow> nat \<Rightarrow> int \<Rightarrow> ChunkMeta list \<Rightarrow> ChunkMeta list result \<times> 's" where
  "store_loop S s br cs index chunks =
     (if cs = 0 then (Inl (Errorf ''StoreFromReader: invalid chunkSize 0''), s) else
      case io_ReadFull br cs of
        (buf, Some err, br') \<Rightarrow>
          if err = Io_EOF \<or> err = Io_ErrUnexpectedEOF then
            (if length buf = 0 then (Inr chunks, s)
             else case PutChunk S s buf of
                    (Inl e, s') \<Rightarrow> (Inl (Wrapf ''StoreFromReader: PutChunk: '' e), s')
                  | (Inr cid, s') \<Rightarrow>
                      (Inr (chunks @ [\<lparr>cm_Index = index, cm_ID = cid, cm_Size = int (length buf)\<rparr>]), s'))
          else (Inl (Wrapf ''StoreFromReader: read error: '' err), s)
      | (buf, None, br') \<Rightarrow>
          (case PutChunk S s buf of
             (Inl e, s') \<Rightarrow> (Inl (Wrapf ''StoreFromReader: PutChunk: '' e), s')
           | (Inr cid, s') \<Rightarrow>
               store_loop S s' br' cs (index + 1)
                 (chunks @ [\<lparr>cm_Index = index, cm_ID = cid, cm_Size = int (length buf)\<rparr>])))"
  by pat_completeness auto
termination
proof (relation "measure (\<lambda>(S, s, br, cs, index, chunks). bf_size br)", goal_cases)
  case (2 S s br cs index chunks x y xa ya xb yb)
  then show ?case using io_ReadFull_size [of br cs x ya] by auto
qed simp

declare store_loop.simps [simp del]

definition StoreFromReader ::
  "'s ChunkStore option \<Rightarrow> 's \<Rightarrow> reader \<Rightarrow> int \<Rightarrow> ChunkMeta list result \<times> 's" where
  "StoreFromReader store s r chunkSize =
     (case store of
        None \<Rightarrow> (Inl (Errorf ''StoreFromReader: store is nil''), s)
      | Some S \<Rightarrow>
          if chunkSize \<le> 0
          then (Inl (Errorf (''StoreFromReader: invalid chunkSize '' @ itoa chunkSize)), s)
          else store_loop S s (bufio_NewReader r) (nat chunkSize) 0 [])"

definition StoreFile ::
  "os ChunkStore option \<Rightarrow> os \<Rightarrow> path \<Rightarrow> int \<Rightarrow> ChunkMeta list result \<times> os" where
  "StoreFile store s p chunkSize0 =
     (let chunkSize = (if chunkSize0 \<le> 0 then DefaultChunkSize else chunkSize0) in
      case os_Open s p of
        (Inl e, s') \<Rightarrow> (Inl (Wrapf ''StoreFile: open: '' e), s')
      | (Inr f, s') \<Rightarrow> StoreFromReader store s' f chunkSize)"

section \<open>Reference definitions\<close>

text \<open>The descriptions of consecutive pieces, with the identifiers the store returned.\<close>

fun chunk_metas :: "int \<Rightarrow> ChunkID list \<Rightarrow> bytes list \<Rightarrow> ChunkMeta list" where
  "chunk_metas k (i # is) (c # cs) =
     \<lparr>cm_Index = k, cm_ID = i, cm_Size = int (length c)\<rparr> # chunk_metas (k + 1) is cs"
| "chunk_metas k _ _ = []"

definition at_end :: "go_error \<Rightarrow> bool" where
  "at_end e \<longleftrightarrow> e = Io_EOF \<or> e = Io_ErrUnexpectedEOF"

text \<open>
  The pieces that reach the store: all of them when the reader ends normally, only the full
  ones when it ends with a read error.
\<close>

function stored_pieces :: "bool \<Rightarrow> nat \<Rightarrow> bytes \<Rightarrow> bytes list" where
  "stored_pieces fin n xs =
     (if n = 0 \<or> xs = [] then []
      else if length xs < n then (if fin then [xs] else [])
      else take n xs # stored_pieces fin n (drop n xs))"
  by pat_completeness auto
termination
  by (relation "measure (\<lambda>(fin, n, xs). length xs)") auto

declare stored_pieces.simps [simp del]

section \<open>Lemmas\<close>

lemma stored_pieces_Nil [simp]: "stored_pieces fin n [] = []"
  by (simp add: stored_pieces.simps)

lemma stored_pieces_all: "stored_pieces True n xs = chunks_of n xs"
proof (induction n xs rule: chunks_of.induct)
  case (1 n xs)
  then show ?case
    by (cases "n = 0 \<or> xs = []"; cases "length xs < n")
      (auto simp: stored_pieces.simps [of True n xs] chunks_of.simps [of n xs])
qed

lemma stored_pieces_full:
  "0 < n \<Longrightarrow> stored_pieces False n xs = take (length xs div n) (chunks_of n xs)"
proof (induction n xs rule: chunks_of.induct)
  case (1 n xs)
  show ?case
  proof (cases "length xs < n")
    case False
    then have "length xs div n = Suc ((length xs - n) div n)"
      using "1.prems" by (simp add: le_div_geq)
    with 1 False show ?thesis
      by (cases "xs = []") (simp_all add: stored_pieces.simps [of False n xs] chunks_of_step)
  qed (simp add: stored_pieces.simps)
qed

lemma store_loop_spec:
  "bf_wf br \<Longrightarrow> 0 < cs \<Longrightarrow>
   store_loop S s br cs index chunks =
     (let e = rd_err (bf_src br); ps = stored_pieces (at_end e) cs (bf_content br) in
      case put_list S s k ps of
        (Inl (_, err), s') \<Rightarrow> (Inl (Wrapf ''StoreFromReader: PutChunk: '' err), s')
      | (Inr is, s') \<Rightarrow>
          if at_end e then (Inr (chunks @ chunk_metas index is ps), s')
          else (Inl (Wrapf ''StoreFromReader: read error: '' e), s'))"
proof (induction S s br cs index chunks arbitrary: k rule: store_loop.induct)
  case (1 S s br cs index chunks)
  obtain buf e br' where rf: "io_ReadFull br cs = (buf, e, br')" by (metis prod_cases3)
  note rd = io_ReadFull_spec [OF "1.prems" rf]
  obtain r1 s1 where p: "PutChunk S s buf = (r1, s1)" by fastforce
  show ?case
  proof (cases e)
    case None
    with rd have full: "cs \<le> length (bf_content br)" by (auto split: if_splits)
    then have ps: "stored_pieces f cs (bf_content br) = buf # stored_pieces f cs (bf_content br')" for f
      using "1.prems" rd by (auto simp: stored_pieces.simps [of f cs "bf_content br"])
    show ?thesis
      using "1.prems" rf None p ps rd "1.IH" [OF _ rf [symmetric] refl None p [symmetric], of _ "Suc k"]
      by (auto simp: store_loop.simps [of S s br] Let_def split: sum.splits prod.splits)
  next
    case (Some err)
    with rd have short: "length (bf_content br) < cs" "buf = bf_content br"
      by (auto split: if_splits)
    then have ps: "stored_pieces f cs (bf_content br) = (if f \<and> buf \<noteq> [] then [buf] else [])" for f
      using "1.prems" by (auto simp: stored_pieces.simps [of f cs "bf_content br"])
    show ?thesis
      using "1.prems" rf Some p ps rd short
      by (auto simp: store_loop.simps [of S s br] Let_def at_end_def split: sum.splits prod.splits if_splits)
  qed
qed

lemma bufio_NewReader_wf [simp]:
  "bf_wf (bufio_NewReader r)" "bf_content (bufio_NewReader r) = rd_content r"
  "bf_src (bufio_NewReader r) = r"
  by (simp_all add: bf_wf_def bf_content_def bufio_NewReader_def)

lemma StoreFromReader_spec:
  "0 < cs \<Longrightarrow>
   StoreFromReader (Some S) s r cs =
     (let ps = stored_pieces (at_end (rd_err r)) (nat cs) (rd_content r) in
      case put_list S s 0 ps of
        (Inl (_, err), s') \<Rightarrow> (Inl (Wrapf ''StoreFromReader: PutChunk: '' err), s')
      | (Inr is, s') \<Rightarrow>
          if at_end (rd_err r) then (Inr (chunk_metas 0 is ps), s')
          else (Inl (Wrapf ''StoreFromReader: read error: '' (rd_err r)), s'))"
  by (auto simp: StoreFromReader_def store_loop_spec [where k = 0] Let_def split: prod.splits sum.splits)

lemma chunk_metas_ids: "length is = length cs \<Longrightarrow> map cm_ID (chunk_metas k is cs) = is"
  by (induction k "is" cs rule: chunk_metas.induct) auto

lemma chunk_metas_length: "length (chunk_metas k is cs) = min (length is) (length cs)"
  by (induction k "is" cs rule: chunk_metas.induct) auto

lemma chunk_metas_sizes: "length is = length cs \<Longrightarrow> map cm_Size (chunk_metas k is cs) = map (int \<circ> length) cs"
  by (induction k "is" cs rule: chunk_metas.induct) auto

lemma chunk_metas_index:
  "j < length is \<Longrightarrow> length is = length cs \<Longrightarrow> cm_Index (chunk_metas k is cs ! j) = k + int j"
  by (induction k "is" cs arbitrary: j rule: chunk_metas.induct) (auto simp: nth_Cons split: nat.splits)

text \<open>Clients of any store that meets the contract.\<close>

context chunk_store
begin

lemma StoreFromReader_ok:
  assumes "inv s" and "0 < cs" and "StoreFromReader (Some S) s r cs = (Inr ms, s')"
  shows "at_end (rd_err r)"
    and "ms = chunk_metas 0 (map NewChunkID (chunks_of (nat cs) (rd_content r))) (chunks_of (nat cs) (rd_content r))"
    and "put_list S s 0 (chunks_of (nat cs) (rd_content r)) = (Inr (map NewChunkID (chunks_of (nat cs) (rd_content r))), s')"
    and "inv s'"
proof -
  from assms(2,3) show fin: "at_end (rd_err r)"
    by (auto simp: StoreFromReader_spec Let_def split: prod.splits sum.splits if_splits)
  with assms(2,3) obtain "is" where p: "put_list S s 0 (chunks_of (nat cs) (rd_content r)) = (Inr is, s')"
    and ms: "ms = chunk_metas 0 is (chunks_of (nat cs) (rd_content r))"
    by (auto simp: StoreFromReader_spec stored_pieces_all Let_def split: prod.splits sum.splits if_splits)
  have ids: "is = map NewChunkID (chunks_of (nat cs) (rd_content r))"
    using put_list_ids assms(1) p by blast
  with p ms show "ms = chunk_metas 0 (map NewChunkID (chunks_of (nat cs) (rd_content r))) (chunks_of (nat cs) (rd_content r))"
    and "put_list S s 0 (chunks_of (nat cs) (rd_content r)) = (Inr (map NewChunkID (chunks_of (nat cs) (rd_content r))), s')"
    by simp_all
  show "inv s'" using put_list_inv assms(1) p by blast
qed

lemma StoreFromReader_healthy:
  assumes "inv s" and "healthy s" and "0 < cs" and "at_end (rd_err r)"
  shows "\<exists>ms s'. StoreFromReader (Some S) s r cs = (Inr ms, s') \<and> healthy s'"
proof -
  obtain x s' where p: "put_list S s 0 (chunks_of (nat cs) (rd_content r)) = (x, s')" by fastforce
  then have "healthy s'" "x = Inr (map NewChunkID (chunks_of (nat cs) (rd_content r)))"
    using put_list_healthy assms(1,2) by blast+
  with p assms(3,4) show ?thesis
    by (auto simp: StoreFromReader_spec stored_pieces_all Let_def)
qed

lemma StoreFromReader_read_error:
  assumes "0 < cs" and "\<not> at_end (rd_err r)"
  shows "\<exists>e s'. StoreFromReader (Some S) s r cs = (Inl e, s')"
  using assms by (auto simp: StoreFromReader_spec Let_def split: prod.splits sum.splits)

end

section \<open>Properties\<close>

text \<open>
  C16: how the reader cuts its data into \<^verbatim>\<open>Read\<close> results does not matter: two readers with the same
  content that end with the same error give the same chunks, the same result and the same
  store, for every store and every chunk size.
\<close>

theorem StoreFromReader_segmentation:
  assumes "rd_content r = rd_content r'" and "rd_err r = rd_err r'" and "0 < cs"
  shows "StoreFromReader (Some S) s r cs = StoreFromReader (Some S) s r' cs"
  unfolding StoreFromReader_spec [OF assms(3)] assms(1,2) by (rule refl)

theorem StoreFromReader_segmentation_witness:
  "\<forall>(S :: bytes list ChunkStore) s.
     StoreFromReader (Some S) s \<lparr>rd_segs = [[1, 2], [3]], rd_err = Io_EOF, rd_joint = False\<rparr> 2 =
     StoreFromReader (Some S) s \<lparr>rd_segs = [[1], [2, 3]], rd_err = Io_EOF, rd_joint = True\<rparr> 2"
  by (intro allI StoreFromReader_segmentation) (simp_all add: rd_content_def)

text \<open>
  A reader that fails (its last error is neither \<^verbatim>\<open>io.EOF\<close> nor \<^verbatim>\<open>io.ErrUnexpectedEOF\<close>) makes
  \<^verbatim>\<open>StoreFromReader\<close> fail, and only the full chunks read before the failure have been put
  into the store: the store state is the one after storing the first
  \<open>length div chunkSize\<close> pieces.
\<close>

theorem StoreFromReader_read_failure:
  assumes "0 < cs" and "\<not> at_end (rd_err r)"
  shows "\<exists>e. StoreFromReader (Some S) s r cs =
    (Inl e, snd (put_list S s 0 (take (length (rd_content r) div nat cs) (chunks_of (nat cs) (rd_content r)))))"
proof -
  have "StoreFromReader (Some S) s r cs =
      (case put_list S s 0 (stored_pieces False (nat cs) (rd_content r)) of
        (Inl (_, err), s') \<Rightarrow> (Inl (Wrapf ''StoreFromReader: PutChunk: '' err), s')
      | (Inr is, s') \<Rightarrow> (Inl (Wrapf ''StoreFromReader: read error: '' (rd_err r)), s'))"
    using assms by (auto simp: StoreFromReader_spec Let_def split: prod.splits sum.splits)
  then show ?thesis
    using assms(1) by (auto simp: stored_pieces_full split: prod.splits sum.splits)
qed

theorem StoreFromReader_read_failure_witness:
  "\<forall>(S :: bytes list ChunkStore) s. \<exists>e.
     StoreFromReader (Some S) s \<lparr>rd_segs = [[1, 2], [3]], rd_err = ExtError ''reset'', rd_joint = False\<rparr> 2 =
     (Inl e, snd (put_list S s 0 [[1, 2]]))"
proof (intro allI)
  fix S :: "bytes list ChunkStore" and s
  have "take (3 div 2) (chunks_of 2 [1, 2, 3 :: byte]) = [[1, 2]]" by (simp add: chunks_of.simps)
  then show "\<exists>e. StoreFromReader (Some S) s \<lparr>rd_segs = [[1, 2], [3]], rd_err = ExtError ''reset'', rd_joint = False\<rparr> 2 =
     (Inl e, snd (put_list S s 0 [[1, 2]]))"
    using StoreFromReader_read_failure
      [of 2 "\<lparr>rd_segs = [[1, 2], [3]], rd_err = ExtError ''reset'', rd_joint = False\<rparr>" S s]
    by (simp add: rd_content_def at_end_def del: put_list.simps)
qed

end
