(* ===== verification/Merkle_Tree.thy ===== *)
theory Merkle_Tree
  imports Chunk_Id
begin

text \<open>
  The Merkle root over an ordered list of chunk identifiers, \<^verbatim>\<open>internal/storage/merkle.go\<close>:
  \<open>merkle_level\<close> is the inner \<^verbatim>\<open>for\<close> loop, \<open>merkle_loop\<close> the outer one and
  \<open>MerkleRootForChunks\<close> the function. Lemmas: the loop ends in a single node; the level-wise
  computation equals the recursive tree that splits at the largest power of two; two lists
  of the same length with the same root are equal unless two of the buffers that were hashed
  collide; the root does not determine the number of leaves.
\<close>

section \<open>Definitions\<close>

text \<open>\<^verbatim>\<open>sha256.Sum256(left || right)\<close>, the 64 bytes collected in \<^verbatim>\<open>buf\<close>.\<close>

definition merkle_buf :: "ChunkID \<Rightarrow> ChunkID \<Rightarrow> bytes" where
  "merkle_buf l r = ChunkID_arr l @ ChunkID_arr r"

definition merkle_node :: "ChunkID \<Rightarrow> ChunkID \<Rightarrow> ChunkID" where
  "merkle_node l r = NewChunkID (merkle_buf l r)"

fun merkle_level :: "ChunkID list \<Rightarrow> ChunkID list" where
  "merkle_level (x # y # r) = merkle_node x y # merkle_level r"
| "merkle_level [x] = [x]"
| "merkle_level [] = []"

lemma length_merkle_level: "length (merkle_level xs) = (length xs + 1) div 2"
  by (induction xs rule: merkle_level.induct) auto

function merkle_loop :: "ChunkID list \<Rightarrow> ChunkID list" where
  "merkle_loop cur = (if 1 < length cur then merkle_loop (merkle_level cur) else cur)"
  by pat_completeness auto
termination
  by (relation "measure length") (auto simp: length_merkle_level)

declare merkle_loop.simps [simp del]

definition MerkleRootForChunks :: "ChunkID list \<Rightarrow> ChunkID result" where
  "MerkleRootForChunks ids =
     (if length ids = 0 then Inl (Errorf ''MerkleRootForChunks: no chunks provided'')
      else if length ids = 1 then Inr (ids ! 0)
      else Inr (merkle_loop ids ! 0))"

section \<open>Reference definitions\<close>

text \<open>The largest power of two below \<open>n\<close>, for \<open>n\<close> at least 2.\<close>

function pow2_below :: "nat \<Rightarrow> nat" where
  "pow2_below n = (if n \<le> 2 then 1 else 2 * pow2_below ((n + 1) div 2))"
  by pat_completeness auto
termination
  by (relation "measure id") auto

declare pow2_below.simps [simp del]

lemma pow2_below_bounds: "2 \<le> n \<Longrightarrow> 1 \<le> pow2_below n \<and> pow2_below n < n \<and> n \<le> 2 * pow2_below n"
proof (induction n rule: pow2_below.induct)
  case (1 n)
  show ?case
  proof (cases "n \<le> 2")
    case True
    with 1 have "n = 2" by simp
    then show ?thesis by (simp add: pow2_below.simps [of 2])
  next
    case False
    with 1 have IH: "1 \<le> pow2_below ((n + 1) div 2)" "pow2_below ((n + 1) div 2) < (n + 1) div 2"
      "(n + 1) div 2 \<le> 2 * pow2_below ((n + 1) div 2)"
      by simp_all
    have "pow2_below n = 2 * pow2_below ((n + 1) div 2)"
      using False by (simp add: pow2_below.simps [of n])
    with IH show ?thesis by linarith
  qed
qed

text \<open>The recursive tree: a left part of the largest power of two, and the rest.\<close>

function merkle_tree_root :: "ChunkID list \<Rightarrow> ChunkID" where
  "merkle_tree_root xs =
     (if length xs \<le> 1 then (case xs of [] \<Rightarrow> ChunkID_zero | x # _ \<Rightarrow> x)
      else let k = pow2_below (length xs)
           in merkle_node (merkle_tree_root (take k xs)) (merkle_tree_root (drop k xs)))"
  by pat_completeness auto
termination
proof (relation "measure length", goal_cases)
  case (2 xs k)
  then show ?case using pow2_below_bounds [of "length xs"] by auto
next
  case (3 xs k)
  then show ?case using pow2_below_bounds [of "length xs"] by auto
qed simp

declare merkle_tree_root.simps [simp del]

text \<open>The buffers hashed at one level, and over the whole computation.\<close>

fun merkle_level_bufs :: "ChunkID list \<Rightarrow> bytes list" where
  "merkle_level_bufs (x # y # r) = merkle_buf x y # merkle_level_bufs r"
| "merkle_level_bufs [x] = []"
| "merkle_level_bufs [] = []"

function merkle_bufs :: "ChunkID list \<Rightarrow> bytes list" where
  "merkle_bufs cur =
     (if 1 < length cur then merkle_level_bufs cur @ merkle_bufs (merkle_level cur) else [])"
  by pat_completeness auto
termination
  by (relation "measure length") (auto simp: length_merkle_level)

declare merkle_bufs.simps [simp del]

section \<open>The loop\<close>

lemma merkle_loop_single [simp]: "merkle_loop [x] = [x]"
  by (simp add: merkle_loop.simps)

lemma merkle_loop_length: "cur \<noteq> [] \<Longrightarrow> length (merkle_loop cur) = 1"
proof (induction cur rule: merkle_loop.induct)
  case (1 cur)
  show ?case
  proof (cases "1 < length cur")
    case True
    then have "length (merkle_level cur) \<noteq> 0"
      by (simp add: length_merkle_level)
    with 1 True show ?thesis by (simp add: merkle_loop.simps [of cur])
  next
    case False
    with 1 show ?thesis by (cases cur) auto
  qed
qed

lemma merkle_loop_level: "merkle_loop (merkle_level xs) = merkle_loop xs"
proof (cases "1 < length xs")
  case True
  then show ?thesis by (simp add: merkle_loop.simps [of xs])
next
  case False
  then have "merkle_level xs = xs" by (cases xs rule: merkle_level.cases) auto
  then show ?thesis by simp
qed

lemma MerkleRootForChunks_loop:
  "ids \<noteq> [] \<Longrightarrow> MerkleRootForChunks ids = Inr (hd (merkle_loop ids))"
proof -
  assume ne: "ids \<noteq> []"
  then have "merkle_loop ids \<noteq> []" using merkle_loop_length by force
  with ne show ?thesis
    by (cases "length ids = 1")
      (auto simp: MerkleRootForChunks_def hd_conv_nth merkle_loop.simps [of ids] length_Suc_conv)
qed

section \<open>Level-wise and recursive computation agree\<close>

lemma merkle_level_take: "merkle_level (take (2 * k) xs) = take k (merkle_level xs)"
proof (induction xs arbitrary: k rule: merkle_level.induct)
  case (1 x y r)
  then show ?case by (cases k) simp_all
next
  case (2 x)
  then show ?case by (cases k) simp_all
qed simp

lemma merkle_level_drop: "merkle_level (drop (2 * k) xs) = drop k (merkle_level xs)"
proof (induction xs arbitrary: k rule: merkle_level.induct)
  case (1 x y r)
  then show ?case by (cases k) simp_all
next
  case (2 x)
  then show ?case by (cases k) simp_all
qed simp

lemma merkle_tree_root_single [simp]: "merkle_tree_root [x] = x"
  by (simp add: merkle_tree_root.simps)

lemma merkle_tree_root_split:
  "2 \<le> length xs \<Longrightarrow> k = pow2_below (length xs) \<Longrightarrow>
   merkle_tree_root xs = merkle_node (merkle_tree_root (take k xs)) (merkle_tree_root (drop k xs))"
  by (subst merkle_tree_root.simps) (simp add: Let_def)

lemma merkle_tree_root_level: "xs \<noteq> [] \<Longrightarrow> merkle_tree_root (merkle_level xs) = merkle_tree_root xs"
proof (induction "length xs" arbitrary: xs rule: less_induct)
  case less
  consider (one) "length xs = 1" | (two) "length xs = 2" | (more) "2 < length xs"
    using less.prems by (metis One_nat_def less_2_cases_iff length_0_conv nat_neq_iff)
  then show ?case
  proof cases
    case one
    then show ?thesis by (auto simp: length_Suc_conv)
  next
    case two
    then obtain x y where "xs = [x, y]" by (auto simp: numeral_2_eq_2 length_Suc_conv)
    then show ?thesis
      by (simp add: merkle_tree_root_split [of "[x, y]" 1] pow2_below.simps)
  next
    case more
    define k' where "k' = pow2_below (length (merkle_level xs))"
    have k: "pow2_below (length xs) = 2 * k'"
      using more by (simp add: k'_def pow2_below.simps [of "length xs"] length_merkle_level)
    have b: "1 \<le> k'" "k' < length (merkle_level xs)" "2 * k' < length xs"
      using more pow2_below_bounds [of "length (merkle_level xs)"] pow2_below_bounds [of "length xs"] k
      by (auto simp: k'_def length_merkle_level)
    have "merkle_tree_root (merkle_level (take (2 * k') xs)) = merkle_tree_root (take (2 * k') xs)"
      using b by (intro less.hyps) auto
    moreover have "merkle_tree_root (merkle_level (drop (2 * k') xs)) = merkle_tree_root (drop (2 * k') xs)"
      using b by (intro less.hyps) auto
    moreover have "merkle_tree_root (merkle_level xs) =
        merkle_node (merkle_tree_root (take k' (merkle_level xs))) (merkle_tree_root (drop k' (merkle_level xs)))"
      using b by (intro merkle_tree_root_split) (auto simp: k'_def)
    ultimately show ?thesis
      using more k by (simp add: merkle_tree_root_split merkle_level_take merkle_level_drop)
  qed
qed

lemma merkle_tree_root_loop: "cur \<noteq> [] \<Longrightarrow> merkle_tree_root cur = hd (merkle_loop cur)"
proof (induction cur rule: merkle_loop.induct)
  case (1 cur)
  show ?case
  proof (cases "1 < length cur")
    case True
    then have "merkle_level cur \<noteq> []"
      by (auto simp: length_merkle_level simp flip: length_0_conv)
    with 1 True show ?thesis
      by (simp add: merkle_loop.simps [of cur] flip: merkle_tree_root_level)
  next
    case False
    with 1 show ?thesis by (cases cur) auto
  qed
qed

section \<open>Binding\<close>

lemma merkle_bufs_pair: "merkle_bufs [x, y] = [merkle_buf x y]"
  by (simp add: merkle_bufs.simps [of "[x, y]"] merkle_bufs.simps [of "[merkle_node x y]"])

lemma merkle_buf_inject: "merkle_buf a b = merkle_buf c d \<longleftrightarrow> a = c \<and> b = d"
  by (auto simp: merkle_buf_def ChunkID_eq_iff)

lemma merkle_node_inject:
  "inj_on sha256_Sum256 S \<Longrightarrow> merkle_buf a b \<in> S \<Longrightarrow> merkle_buf c d \<in> S \<Longrightarrow>
   merkle_node a b = merkle_node c d \<longleftrightarrow> a = c \<and> b = d"
  by (auto simp: merkle_node_def ChunkID_eq_iff [of "NewChunkID _"] merkle_buf_inject dest!: inj_onD)

lemma merkle_level_inject:
  assumes "inj_on sha256_Sum256 S"
  shows "length xs = length ys \<Longrightarrow> set (merkle_level_bufs xs) \<subseteq> S \<Longrightarrow>
    set (merkle_level_bufs ys) \<subseteq> S \<Longrightarrow> merkle_level xs = merkle_level ys \<Longrightarrow> xs = ys"
proof (induction xs arbitrary: ys rule: merkle_level.induct)
  case (1 x y r)
  then obtain x' y' r' where ys: "ys = x' # y' # r'"
    by (cases ys rule: merkle_level.cases) auto
  with 1 show ?case by (simp add: merkle_node_inject [OF assms])
next
  case (2 x)
  then show ?case by (cases ys rule: merkle_level.cases) auto
qed simp

lemma merkle_loop_inject:
  assumes "inj_on sha256_Sum256 S"
  shows "length xs = length ys \<Longrightarrow> set (merkle_bufs xs) \<subseteq> S \<Longrightarrow> set (merkle_bufs ys) \<subseteq> S \<Longrightarrow>
    merkle_loop xs = merkle_loop ys \<Longrightarrow> xs = ys"
proof (induction xs arbitrary: ys rule: merkle_loop.induct)
  case (1 xs)
  show ?case
  proof (cases "1 < length xs")
    case True
    with 1 have "merkle_level xs = merkle_level ys"
      by (intro "1.IH")
        (auto simp: length_merkle_level merkle_loop_level merkle_bufs.simps [of xs] merkle_bufs.simps [of ys])
    moreover have "set (merkle_level_bufs xs) \<subseteq> S" "set (merkle_level_bufs ys) \<subseteq> S"
      using 1 True by (simp_all add: merkle_bufs.simps [of xs] merkle_bufs.simps [of ys])
    ultimately show ?thesis
      using merkle_level_inject [OF assms] 1 by blast
  next
    case False
    with 1 show ?thesis by (simp add: merkle_loop.simps [of xs] merkle_loop.simps [of ys])
  qed
qed

section \<open>Properties\<close>

text \<open>
  C14: on every non-empty list of identifiers the level-wise loop returns the root of the recursive
  Merkle tree that splits at the largest power of two (an odd node moves up unchanged); on
  the empty list it returns its error.
\<close>

theorem MerkleRootForChunks_tree:
  "MerkleRootForChunks ids =
     (if ids = [] then Inl (Errorf ''MerkleRootForChunks: no chunks provided'')
      else Inr (merkle_tree_root ids))"
  by (simp add: MerkleRootForChunks_loop merkle_tree_root_loop) (simp add: MerkleRootForChunks_def)

text \<open>
  C15: the root binds the list. Two lists of the same length with the same root are equal, provided
  SHA-256 does not collide on the 64-byte buffers that the two computations hash.
\<close>

theorem MerkleRootForChunks_binding:
  assumes "length xs = length ys" and "MerkleRootForChunks xs = MerkleRootForChunks ys"
    and "inj_on sha256_Sum256 (set (merkle_bufs xs) \<union> set (merkle_bufs ys))"
  shows "xs = ys"
proof (cases "xs = []")
  case False
  have single: "\<exists>x. merkle_loop zs = [x]" if "zs \<noteq> []" for zs
    using merkle_loop_length [OF that] by (auto simp: length_Suc_conv)
  have "merkle_loop xs = merkle_loop ys"
  proof -
    have ys: "ys \<noteq> []" using False assms(1) by auto
    obtain x y where "merkle_loop xs = [x]" "merkle_loop ys = [y]"
      using single [OF False] single [OF ys] by blast
    with assms(2) False ys show ?thesis by (simp add: MerkleRootForChunks_loop)
  qed
  then show ?thesis
    using merkle_loop_inject [OF assms(3,1)] by simp
qed (use assms in simp)

theorem MerkleRootForChunks_binding_witness:
  "inj_on sha256_Sum256 (set (merkle_bufs [ChunkID_zero, ChunkID_zero])) \<and>
   [ChunkID_zero, ChunkID_zero] = [ChunkID_zero, ChunkID_zero]"
  using MerkleRootForChunks_binding [of "[ChunkID_zero, ChunkID_zero]" "[ChunkID_zero, ChunkID_zero]"]
  by (simp add: merkle_bufs_pair)

text \<open>
  The root does not fix the number of chunks: the list of the nodes one level up has the same
  root as the list itself, so \<^verbatim>\<open>Root\<close> alone does not identify the chunk list of a file.
\<close>

theorem MerkleRootForChunks_level: "MerkleRootForChunks (merkle_level ids) = MerkleRootForChunks ids"
proof (cases "ids = []")
  case False
  then have "merkle_level ids \<noteq> []" by (cases ids rule: merkle_level.cases) simp_all
  with False show ?thesis by (simp add: MerkleRootForChunks_loop merkle_loop_level)
qed simp

end
