(* ===== verification/File_Meta.thy ===== *)
theory File_Meta
  imports Chunker Merkle_Tree
begin

text \<open>
  File descriptions with a Merkle root, \<^verbatim>\<open>internal/storage/filemeta.go\<close>. The lemmas describe
  the result of \<open>BuildFileMetaFromReader\<close> on any store that meets the contract: the chunks
  are the fixed-size pieces of the content, the root is the tree over their identifiers and
  the size is the length of the content.
\<close>

record FileMeta =
  fm_Root :: ChunkID
  fm_Chunks :: "ChunkMeta list"
  fm_Size :: int

text \<open>The loop that sums the sizes, in 64-bit arithmetic.\<close>

definition total_size :: "ChunkMeta list \<Rightarrow> int" where
  "total_size chunks = foldl (\<lambda>t cm. wrap64 (t + cm_Size cm)) 0 chunks"

definition BuildFileMetaFromReader ::
  "'s ChunkStore option \<Rightarrow> 's \<Rightarrow> reader \<Rightarrow> int \<Rightarrow> FileMeta result \<times> 's" where
  "BuildFileMetaFromReader store s r chunkSize0 =
     (case store of
        None \<Rightarrow> (Inl (Errorf ''BuildFileMetaFromReader: store is nil''), s)
      | Some S \<Rightarrow>
          let chunkSize = (if chunkSize0 \<le> 0 then DefaultChunkSize else chunkSize0) in
          (case StoreFromReader (Some S) s r chunkSize of
             (Inl e, s') \<Rightarrow> (Inl (Wrapf ''BuildFileMetaFromReader: '' e), s')
           | (Inr chunks, s') \<Rightarrow>
               if length chunks = 0
               then (Inl (Errorf ''BuildFileMetaFromReader: no data (empty file/reader)''), s')
               else
                 (case MerkleRootForChunks (map cm_ID chunks) of
                    Inl e \<Rightarrow> (Inl (Wrapf ''BuildFileMetaFromReader: MerkleRootForChunks: '' e), s')
                  | Inr root \<Rightarrow>
                      (Inr \<lparr>fm_Root = root, fm_Chunks = chunks, fm_Size = total_size chunks\<rparr>, s'))))"

definition StoreFileWithMerkle ::
  "os ChunkStore option \<Rightarrow> os \<Rightarrow> path \<Rightarrow> int \<Rightarrow> FileMeta result \<times> os" where
  "StoreFileWithMerkle store s p chunkSize0 =
     (let chunkSize = (if chunkSize0 \<le> 0 then DefaultChunkSize else chunkSize0) in
      case os_Open s p of
        (Inl e, s') \<Rightarrow> (Inl (Wrapf ''StoreFileWithMerkle: open: '' e), s')
      | (Inr f, s') \<Rightarrow> BuildFileMetaFromReader store s' f chunkSize)"

text \<open>The chunk size in effect.\<close>

definition effective_size :: "int \<Rightarrow> nat" where
  "effective_size cs = nat (if cs \<le> 0 then DefaultChunkSize else cs)"

section \<open>Lemmas\<close>

lemma effective_size_pos [simp]: "0 < effective_size cs"
  by (simp add: effective_size_def DefaultChunkSize_def)

lemma foldl_wrap64: "foldl (\<lambda>t cm. wrap64 (t + cm_Size cm)) (wrap64 a) cms = wrap64 (a + sum_list (map cm_Size cms))"
  by (induction cms arbitrary: a) (auto simp: wrap64_add_left add.assoc)

lemma total_size_sum: "total_size cms = wrap64 (sum_list (map cm_Size cms))"
  using foldl_wrap64 [of 0 cms] by (simp add: total_size_def wrap64_id int64_range_def)

lemma total_size_metas:
  assumes "length is = length cs" and "length (concat cs) < 2 ^ 63"
  shows "total_size (chunk_metas k is cs) = int (length (concat cs))"
proof -
  have "sum_list (map cm_Size (chunk_metas k is cs)) = int (length (concat cs))"
    unfolding chunk_metas_sizes [OF assms(1)] by (induction cs) auto
  moreover have "int (length (concat cs)) < 2 ^ 63" using assms(2) by simp
  ultimately show ?thesis by (simp add: total_size_sum wrap64_id int64_range_def)
qed

text \<open>The description of a content cut into pieces.\<close>

definition meta_of :: "bytes list \<Rightarrow> FileMeta" where
  "meta_of ps =
     \<lparr>fm_Root = merkle_tree_root (map NewChunkID ps),
      fm_Chunks = chunk_metas 0 (map NewChunkID ps) ps,
      fm_Size = wrap64 (int (length (concat ps)))\<rparr>"

lemma total_size_meta_of: "total_size (chunk_metas k (map NewChunkID ps) ps) = wrap64 (int (length (concat ps)))"
proof -
  have "sum_list (map cm_Size (chunk_metas k (map NewChunkID ps) ps)) = int (length (concat ps))"
    unfolding chunk_metas_sizes [of "map NewChunkID ps" ps, simplified] by (induction ps) auto
  then show ?thesis by (simp add: total_size_sum)
qed

lemma MerkleRootForChunks_root:
  "ids \<noteq> [] \<Longrightarrow> MerkleRootForChunks ids = Inr (merkle_tree_root ids)"
  by (simp add: MerkleRootForChunks_loop merkle_tree_root_loop)

text \<open>The store only ever receives pieces of the content.\<close>

lemma stored_pieces_subset: "0 < n \<Longrightarrow> set (stored_pieces fin n xs) \<subseteq> set (chunks_of n xs)"
  by (cases fin) (auto simp: stored_pieces_all stored_pieces_full dest: in_set_takeD)

lemma BuildFileMetaFromReader_puts:
  assumes "BuildFileMetaFromReader (Some S) s r cs = (res, s1)"
  shows "\<exists>ps x. put_list S s 0 ps = (x, s1) \<and> set ps \<subseteq> set (chunks_of (effective_size cs) (rd_content r))"
proof -
  let ?cs = "if cs \<le> 0 then DefaultChunkSize else cs"
  have pos: "0 < ?cs" by (simp add: DefaultChunkSize_def)
  let ?ps = "stored_pieces (at_end (rd_err r)) (nat ?cs) (rd_content r)"
  have "snd (StoreFromReader (Some S) s r ?cs) = snd (put_list S s 0 ?ps)"
    unfolding StoreFromReader_spec [OF pos] by (auto simp: Let_def split: prod.splits sum.splits)
  moreover have "s1 = snd (StoreFromReader (Some S) s r ?cs)"
    using assms by (auto simp: BuildFileMetaFromReader_def Let_def split: prod.splits sum.splits if_splits)
  ultimately have "put_list S s 0 ?ps = (fst (put_list S s 0 ?ps), s1)" by simp
  moreover have "set ?ps \<subseteq> set (chunks_of (effective_size cs) (rd_content r))"
    unfolding effective_size_def using pos by (intro stored_pieces_subset) simp
  ultimately show ?thesis by blast
qed

context chunk_store
begin

lemma BuildFileMetaFromReader_ok:
  assumes "inv s" and "BuildFileMetaFromReader (Some S) s r cs = (Inr m, s')"
  defines "ps \<equiv> chunks_of (effective_size cs) (rd_content r)"
  shows "m = meta_of ps" and "put_list S s 0 ps = (Inr (map NewChunkID ps), s')"
    and "inv s'" and "rd_content r \<noteq> []" and "at_end (rd_err r)"
proof -
  let ?cs = "if cs \<le> 0 then DefaultChunkSize else cs"
  have pos: "0 < ?cs" by (simp add: DefaultChunkSize_def)
  obtain ms where st: "StoreFromReader (Some S) s r ?cs = (Inr ms, s')" and ne: "ms \<noteq> []"
    and m: "case MerkleRootForChunks (map cm_ID ms) of Inl e \<Rightarrow> False
      | Inr root \<Rightarrow> m = \<lparr>fm_Root = root, fm_Chunks = ms, fm_Size = total_size ms\<rparr>"
    using assms(2)
    by (auto simp: BuildFileMetaFromReader_def Let_def split: prod.splits sum.splits if_splits)
  note ok = StoreFromReader_ok [OF assms(1) pos st, folded effective_size_def ps_def]
  show "at_end (rd_err r)" and "put_list S s 0 ps = (Inr (map NewChunkID ps), s')" and "inv s'"
    using ok by auto
  have "ps \<noteq> []" using ok ne by (cases ps) auto
  then show "rd_content r \<noteq> []" by (auto simp: ps_def)
  have "map cm_ID ms = map NewChunkID ps" using ok(2) by (simp add: chunk_metas_ids)
  with m \<open>ps \<noteq> []\<close> ok(2) show "m = meta_of ps"
    by (simp add: MerkleRootForChunks_root meta_of_def total_size_meta_of)
qed

lemma BuildFileMetaFromReader_healthy:
  assumes "inv s" and "healthy s" and "at_end (rd_err r)" and "rd_content r \<noteq> []"
  shows "\<exists>m s'. BuildFileMetaFromReader (Some S) s r cs = (Inr m, s')"
proof -
  let ?cs = "if cs \<le> 0 then DefaultChunkSize else cs"
  have pos: "0 < ?cs" by (simp add: DefaultChunkSize_def)
  obtain ms s' where st: "StoreFromReader (Some S) s r ?cs = (Inr ms, s')"
    using StoreFromReader_healthy [OF assms(1,2) pos assms(3)] by blast
  have "chunks_of (nat ?cs) (rd_content r) \<noteq> []"
    using assms(4) pos by (simp add: chunks_of_eq_Nil)
  then have "ms \<noteq> []"
    using StoreFromReader_ok(2) [OF assms(1) pos st]
    by (metis chunk_metas_length length_0_conv length_map min.idem)
  with st show ?thesis
    by (auto simp: BuildFileMetaFromReader_def Let_def MerkleRootForChunks_root)
qed

text \<open>Every piece is in the store under the identifier that the description gives.\<close>

lemma BuildFileMetaFromReader_readable:
  assumes "inv s" and "BuildFileMetaFromReader (Some S) s r cs = (Inr m, s')"
  defines "ps \<equiv> chunks_of (effective_size cs) (rd_content r)"
  assumes "inj_on NewChunkID (set ps \<union> ran (holds s))"
  shows "map (\<lambda>cm. holds s' (cm_ID cm)) (fm_Chunks m) = map Some ps"
proof -
  note ok = BuildFileMetaFromReader_ok [OF assms(1,2), folded ps_def]
  have "map (\<lambda>cm. holds s' (cm_ID cm)) (fm_Chunks m) = map (holds s') (map cm_ID (fm_Chunks m))"
    by simp
  also have "\<dots> = map (holds s') (map NewChunkID ps)"
    using ok(1) by (simp add: meta_of_def chunk_metas_ids)
  also have "\<dots> = map Some ps"
    using put_list_stores [OF assms(1) ok(2)] assms(4) by simp
  finally show ?thesis .
qed

end

end
