(* ===== verification/P2p_Types.thy ===== *)
theory P2p_Types
  imports Go_Prelude
begin

text \<open>
  The types of \<^verbatim>\<open>internal/p2p/types.go\<close> that the DHT uses: an RPC, and the interface
  \<^verbatim>\<open>Transport\<close> as a record of its methods over a transport state \<open>'t\<close>. The channel that
  \<^verbatim>\<open>Consume\<close> returns is not a method here: the read loop of the service receives its RPCs as
  arguments. The locale \<open>transport\<close> states what the DHT relies on: sending and closing do not
  change the address under which the node is reached. \<open>json\<close> is the type of the dynamic values (\<^verbatim>\<open>any\<close>) that \<^verbatim>\<open>Meta\<close> may hold.
\<close>

datatype json =
    JNull
  | JBool bool
  | JNumber string
  | JString string
  | JArray "json list"
  | JObject "(string \<times> json) list"

record RPC =
  rpc_From :: string
  rpc_Stream :: bool
  rpc_Payload :: bytes
  rpc_Meta :: "(string \<times> json) list option"

definition payload_rpc :: "bytes \<Rightarrow> RPC" where
  "payload_rpc p = \<lparr>rpc_From = [], rpc_Stream = False, rpc_Payload = p, rpc_Meta = None\<rparr>"

record 't Transport =
  tp_Addr :: "'t \<Rightarrow> string"
  tp_ListenAndAccept :: "'t \<Rightarrow> go_error option \<times> 't"
  tp_Dial :: "'t \<Rightarrow> string \<Rightarrow> go_error option \<times> 't"
  tp_Send :: "'t \<Rightarrow> string \<Rightarrow> RPC \<Rightarrow> go_error option \<times> 't"
  tp_Close :: "'t \<Rightarrow> go_error option \<times> 't"

locale transport =
  fixes T :: "'t Transport"
  assumes send_addr: "tp_Send T ts a r = (e, ts') \<Longrightarrow> tp_Addr T ts' = tp_Addr T ts"
    and close_addr: "tp_Close T ts = (e, ts') \<Longrightarrow> tp_Addr T ts' = tp_Addr T ts"

end
