(* ===== verification/Dht_Node.thy ===== *)
theory Dht_Node
  imports Routing_Table File_Meta Fs_Store P2p_Types
begin

text \<open>
  The DHT node, \<^verbatim>\<open>internal/dht/node.go\<close>: its state, the wire message, and \<^verbatim>\<open>HandleRPC\<close> with one
  definition per case of its \<^verbatim>\<open>switch\<close>. The chunk store is any value of the interface, its
  state is threaded beside the node. \<open>clk i\<close> is the i-th reading of the clock that a handler
  may make. \<^verbatim>\<open>DecodeMessage\<close> is the argument \<open>decode\<close>; theory \<open>Json_Message\<close> defines it.

  The lemmas: every RPC keeps the node invariant and the store invariant; what each request
  is answered with; which messages are never answered.
\<close>

section \<open>Messages\<close>

definition MsgPing :: string where "MsgPing = ''PING''"
definition MsgPong :: string where "MsgPong = ''PONG''"
definition MsgFindNode :: string where "MsgFindNode = ''FIND_NODE''"
definition MsgNodes :: string where "MsgNodes = ''NODES''"
definition MsgStoreChunk :: string where "MsgStoreChunk = ''STORE_CHUNK''"
definition MsgStoreChunkResult :: string where "MsgStoreChunkResult = ''STORE_CHUNK_RESULT''"
definition MsgGetChunk :: string where "MsgGetChunk = ''GET_CHUNK''"
definition MsgChunkData :: string where "MsgChunkData = ''CHUNK_DATA''"
definition MsgStoreFileProvider :: string where "MsgStoreFileProvider = ''STORE_FILE_PROVIDER''"
definition MsgGetFileProviders :: string where "MsgGetFileProviders = ''GET_FILE_PROVIDERS''"
definition MsgFileProviders :: string where "MsgFileProviders = ''FILE_PROVIDERS''"
definition MsgGetFileMeta :: string where "MsgGetFileMeta = ''GET_FILE_META''"
definition MsgFileMeta :: string where "MsgFileMeta = ''FILE_META''"

lemmas msg_types [wire_consts] =
  MsgPing_def MsgPong_def MsgFindNode_def MsgNodes_def MsgStoreChunk_def MsgStoreChunkResult_def
  MsgGetChunk_def MsgChunkData_def MsgStoreFileProvider_def MsgGetFileProviders_def
  MsgFileProviders_def MsgGetFileMeta_def MsgFileMeta_def

record Message =
  msg_Type :: string
  msg_From :: ID
  msg_Timestamp :: int
  msg_Target :: "ID option"
  msg_Nodes :: "Contact list"
  msg_ChunkID :: string
  msg_ChunkData :: "bytes option"
  msg_FileRoot :: string
  msg_Providers :: "Contact list"
  msg_FileMeta :: "FileMeta option"
  msg_NodeAddr :: string
  msg_Error :: string
  msg_RequestID :: string

text \<open>The composite literal with no field set.\<close>

definition Message_zero :: Message where
  "Message_zero =
     \<lparr>msg_Type = [], msg_From = ID_zero, msg_Timestamp = 0, msg_Target = None, msg_Nodes = [],
      msg_ChunkID = [], msg_ChunkData = None, msg_FileRoot = [], msg_Providers = [],
      msg_FileMeta = None, msg_NodeAddr = [], msg_Error = [], msg_RequestID = []\<rparr>"

section \<open>State\<close>

record 's Node =
  nd_id :: ID
  nd_rt :: RoutingTable
  nd_store :: "'s ChunkStore option"
  nd_addr :: string
  nd_fileProviders :: "string \<Rightarrow> Contact list"
  nd_fileMeta :: "string \<Rightarrow> FileMeta option"

text \<open>Absent keys of \<^verbatim>\<open>fileProviders\<close> read as the empty slice.\<close>

definition SetNodeAddr :: "'s Node \<Rightarrow> string \<Rightarrow> 's Node" where
  "SetNodeAddr n addr = n\<lparr>nd_addr := addr\<rparr>"

definition NewNode :: "ID \<Rightarrow> 's Node" where
  "NewNode i =
     \<lparr>nd_id = i, nd_rt = NewRoutingTable i, nd_store = None, nd_addr = [],
      nd_fileProviders = (\<lambda>_. []), nd_fileMeta = (\<lambda>_. None)\<rparr>"

definition StoreLocalChunk :: "'s Node \<Rightarrow> 's \<Rightarrow> bytes \<Rightarrow> ChunkID result \<times> 's" where
  "StoreLocalChunk n s data =
     (case nd_store n of
        None \<Rightarrow> (Inl (Errorf ''StoreLocalChunk: no store configured''), s)
      | Some S \<Rightarrow> PutChunk S s data)"

definition GetLocalChunk :: "'s Node \<Rightarrow> 's \<Rightarrow> ChunkID \<Rightarrow> bytes result \<times> 's" where
  "GetLocalChunk n s i =
     (case nd_store n of
        None \<Rightarrow> (Inl (Errorf ''GetLocalChunk: no store configured''), s)
      | Some S \<Rightarrow> GetChunk S s i)"

fun known_provider :: "Contact list \<Rightarrow> Contact \<Rightarrow> bool" where
  "known_provider [] c = False"
| "known_provider (e # es) c =
     (if ID_Equals (ct_ID e) (ct_ID c) \<and> ct_Address e = ct_Address c then True else known_provider es c)"

definition addFileProvider :: "'s Node \<Rightarrow> string \<Rightarrow> Contact \<Rightarrow> 's Node" where
  "addFileProvider n rootHex c =
     (let l = nd_fileProviders n rootHex
      in if known_provider l c then n
         else n\<lparr>nd_fileProviders := (nd_fileProviders n)(rootHex := l @ [c])\<rparr>)"

definition getFileProviders :: "'s Node \<Rightarrow> string \<Rightarrow> Contact list" where
  "getFileProviders n rootHex = nd_fileProviders n rootHex"

definition addFileMeta :: "'s Node \<Rightarrow> FileMeta option \<Rightarrow> 's Node" where
  "addFileMeta n meta =
     (case meta of
        None \<Rightarrow> n
      | Some m \<Rightarrow> n\<lparr>nd_fileMeta := (nd_fileMeta n)(ChunkID_String (fm_Root m) := Some m)\<rparr>)"

definition getFileMeta :: "'s Node \<Rightarrow> string \<Rightarrow> FileMeta option" where
  "getFileMeta n rootHex = nd_fileMeta n rootHex"

section \<open>Handlers\<close>

definition sender_addr :: "RPC \<Rightarrow> Message \<Rightarrow> string" where
  "sender_addr rpc msg = (if msg_NodeAddr msg \<noteq> [] then msg_NodeAddr msg else rpc_From rpc)"

definition add_peer :: "'s Node \<Rightarrow> time \<Rightarrow> ID \<Rightarrow> string \<Rightarrow> 's Node" where
  "add_peer n now i addr =
     (if \<not> ID_Equals i (nd_id n)
      then n\<lparr>nd_rt := AddContact (nd_rt n) now \<lparr>ct_ID = i, ct_Address = addr, ct_LastSeen = time_zero\<rparr>\<rparr>
      else n)"

text \<open>The fields every reply sets.\<close>

definition reply :: "'s Node \<Rightarrow> string \<Rightarrow> time \<Rightarrow> Message" where
  "reply n ty now =
     Message_zero\<lparr>msg_Type := ty, msg_From := nd_id n, msg_NodeAddr := nd_addr n, msg_Timestamp := Unix now\<rparr>"

definition handle_ping :: "'s Node \<Rightarrow> (nat \<Rightarrow> time) \<Rightarrow> RPC \<Rightarrow> Message \<Rightarrow> Message option result \<times> 's Node" where
  "handle_ping n clk rpc msg =
     (let n' = add_peer n (clk 0) (msg_From msg) (sender_addr rpc msg)
      in (Inr (Some (reply n' MsgPong (clk 1))), n'))"

definition handle_pong :: "'s Node \<Rightarrow> (nat \<Rightarrow> time) \<Rightarrow> RPC \<Rightarrow> Message \<Rightarrow> Message option result \<times> 's Node" where
  "handle_pong n clk rpc msg =
     (Inr None, add_peer n (clk 0) (msg_From msg) (sender_addr rpc msg))"

definition handle_find_node :: "'s Node \<Rightarrow> (nat \<Rightarrow> time) \<Rightarrow> RPC \<Rightarrow> Message \<Rightarrow> Message option result \<times> 's Node" where
  "handle_find_node n clk rpc msg =
     (case msg_Target msg of
        None \<Rightarrow> (Inl (Errorf ''HandleRPC: FIND_NODE missing target''), n)
      | Some target \<Rightarrow>
          let n' = add_peer n (clk 0) (msg_From msg) (sender_addr rpc msg)
          in (case FindClosest (nd_rt n') target (int K) of
                Inl e \<Rightarrow> (Inl e, n')
              | Inr closest \<Rightarrow> (Inr (Some ((reply n' MsgNodes (clk 1))\<lparr>msg_Nodes := closest\<rparr>)), n')))"

fun add_nodes :: "'s Node \<Rightarrow> (nat \<Rightarrow> time) \<Rightarrow> nat \<Rightarrow> Contact list \<Rightarrow> 's Node" where
  "add_nodes n clk i [] = n"
| "add_nodes n clk i (c # cs) = add_nodes (add_peer n (clk i) (ct_ID c) (ct_Address c)) clk (Suc i) cs"

definition handle_nodes :: "'s Node \<Rightarrow> (nat \<Rightarrow> time) \<Rightarrow> RPC \<Rightarrow> Message \<Rightarrow> Message option result \<times> 's Node" where
  "handle_nodes n clk rpc msg =
     (let n' = add_nodes n clk 0 (msg_Nodes msg)
      in (Inr None, add_peer n' (clk (length (msg_Nodes msg))) (msg_From msg) (sender_addr rpc msg)))"

definition handle_store_chunk :: "'s Node \<Rightarrow> 's \<Rightarrow> (nat \<Rightarrow> time) \<Rightarrow> Message \<Rightarrow> Message option result \<times> 's" where
  "handle_store_chunk n s clk msg =
     (let r = (reply n MsgStoreChunkResult (clk 0))\<lparr>msg_RequestID := msg_RequestID msg\<rparr>;
          data = (case msg_ChunkData msg of None \<Rightarrow> [] | Some d \<Rightarrow> d)
      in if nd_store n = None then
           (Inr (Some (r\<lparr>msg_Error := ''no local chunk store configured''\<rparr>)), s)
         else if length data = 0 then (Inr (Some (r\<lparr>msg_Error := ''empty chunk data''\<rparr>)), s)
         else (case StoreLocalChunk n s data of
                 (Inl e, s') \<Rightarrow> (Inr (Some (r\<lparr>msg_Error := ''store error: '' @ Error_str e\<rparr>)), s')
               | (Inr cid, s') \<Rightarrow> (Inr (Some (r\<lparr>msg_ChunkID := ChunkID_String cid\<rparr>)), s')))"

definition handle_get_chunk :: "'s Node \<Rightarrow> 's \<Rightarrow> (nat \<Rightarrow> time) \<Rightarrow> Message \<Rightarrow> Message option result \<times> 's" where
  "handle_get_chunk n s clk msg =
     (let r0 = (reply n MsgChunkData (clk 0))\<lparr>msg_RequestID := msg_RequestID msg\<rparr>;
          r = r0\<lparr>msg_ChunkID := msg_ChunkID msg\<rparr>
      in if nd_store n = None then
           (Inr (Some (r\<lparr>msg_Error := ''no local chunk store configured''\<rparr>)), s)
         else if msg_ChunkID msg = [] then (Inr (Some (r0\<lparr>msg_Error := ''missing chunk_id''\<rparr>)), s)
         else (case ChunkIDFromHex (msg_ChunkID msg) of
                 Inl e \<Rightarrow> (Inr (Some (r\<lparr>msg_Error := ''invalid chunk_id: '' @ Error_str e\<rparr>)), s)
               | Inr cid \<Rightarrow>
                   (case GetLocalChunk n s cid of
                      (Inl e, s') \<Rightarrow> (Inr (Some (r\<lparr>msg_Error := ''chunk not found: '' @ Error_str e\<rparr>)), s')
                    | (Inr data, s') \<Rightarrow> (Inr (Some (r\<lparr>msg_ChunkData := Some data\<rparr>)), s'))))"

definition handle_store_provider :: "'s Node \<Rightarrow> (nat \<Rightarrow> time) \<Rightarrow> RPC \<Rightarrow> Message \<Rightarrow> Message option result \<times> 's Node" where
  "handle_store_provider n clk rpc msg =
     (if msg_FileRoot msg = [] then (Inr None, n)
      else if \<not> ID_Equals (msg_From msg) (nd_id n) then
        (Inr None, addFileProvider n (msg_FileRoot msg)
           \<lparr>ct_ID = msg_From msg, ct_Address = sender_addr rpc msg, ct_LastSeen = clk 0\<rparr>)
      else (Inr None, n))"

definition handle_get_providers :: "'s Node \<Rightarrow> (nat \<Rightarrow> time) \<Rightarrow> Message \<Rightarrow> Message option result" where
  "handle_get_providers n clk msg =
     (let r = (reply n MsgFileProviders (clk 0))\<lparr>msg_RequestID := msg_RequestID msg\<rparr>
      in if msg_FileRoot msg = [] then Inr (Some (r\<lparr>msg_Error := ''missing file_root''\<rparr>))
         else Inr (Some (r\<lparr>msg_FileRoot := msg_FileRoot msg,
                           msg_Providers := getFileProviders n (msg_FileRoot msg)\<rparr>)))"

definition handle_get_meta :: "'s Node \<Rightarrow> (nat \<Rightarrow> time) \<Rightarrow> Message \<Rightarrow> Message option result" where
  "handle_get_meta n clk msg =
     (let r = (reply n MsgFileMeta (clk 0))\<lparr>msg_RequestID := msg_RequestID msg\<rparr>
      in if msg_FileRoot msg = [] then Inr (Some (r\<lparr>msg_Error := ''missing file_root''\<rparr>))
         else (case getFileMeta n (msg_FileRoot msg) of
                 None \<Rightarrow> Inr (Some (r\<lparr>msg_FileRoot := msg_FileRoot msg, msg_Error := ''file meta not found''\<rparr>))
               | Some meta \<Rightarrow> Inr (Some (r\<lparr>msg_FileRoot := msg_FileRoot msg, msg_FileMeta := Some meta\<rparr>))))"

definition handle_message ::
  "'s Node \<Rightarrow> 's \<Rightarrow> (nat \<Rightarrow> time) \<Rightarrow> RPC \<Rightarrow> Message \<Rightarrow> Message option result \<times> 's Node \<times> 's" where
  "handle_message n s clk rpc msg =
     (let ty = msg_Type msg;
          keep_store = (\<lambda>(r, n'). (r, n', s));
          keep_node = (\<lambda>(r, s'). (r, n, s'))
      in if ty = MsgPing then keep_store (handle_ping n clk rpc msg)
         else if ty = MsgPong then keep_store (handle_pong n clk rpc msg)
         else if ty = MsgFindNode then keep_store (handle_find_node n clk rpc msg)
         else if ty = MsgNodes then keep_store (handle_nodes n clk rpc msg)
         else if ty = MsgStoreChunk then keep_node (handle_store_chunk n s clk msg)
         else if ty = MsgGetChunk then keep_node (handle_get_chunk n s clk msg)
         else if ty = MsgStoreFileProvider then keep_store (handle_store_provider n clk rpc msg)
         else if ty = MsgGetFileProviders then (handle_get_providers n clk msg, n, s)
         else if ty = MsgGetFileMeta then (handle_get_meta n clk msg, n, s)
         else (Inr None, n, s))"

definition HandleRPC ::
  "(bytes \<Rightarrow> Message result) \<Rightarrow> 's Node \<Rightarrow> 's \<Rightarrow> (nat \<Rightarrow> time) \<Rightarrow> RPC \<Rightarrow>
   Message option result \<times> 's Node \<times> 's" where
  "HandleRPC decode n s clk rpc =
     (case decode (rpc_Payload rpc) of
        Inl e \<Rightarrow> (Inl (Wrapf ''HandleRPC: decode error: '' e), n, s)
      | Inr msg \<Rightarrow> handle_message n s clk rpc msg)"

section \<open>The node invariant\<close>

definition nd_inv :: "'s Node \<Rightarrow> bool" where
  "nd_inv n \<longleftrightarrow>
     rt_inv (nd_rt n) \<and> rt_self (nd_rt n) = nd_id n \<and>
     (\<forall>root. distinct (map (\<lambda>c. (ct_ID c, ct_Address c)) (nd_fileProviders n root))) \<and>
     (\<forall>root m. nd_fileMeta n root = Some m \<longrightarrow> root = ChunkID_String (fm_Root m))"

text \<open>What no message changes.\<close>

definition nd_fixed :: "'s Node \<Rightarrow> 's Node \<Rightarrow> bool" where
  "nd_fixed n n' \<longleftrightarrow>
     nd_id n' = nd_id n \<and> nd_store n' = nd_store n \<and> nd_addr n' = nd_addr n \<and> nd_fileMeta n' = nd_fileMeta n"

lemma nd_fixed_refl [simp]: "nd_fixed n n"
  by (simp add: nd_fixed_def)

lemma nd_fixed_trans: "nd_fixed a b \<Longrightarrow> nd_fixed b c \<Longrightarrow> nd_fixed a c"
  by (simp add: nd_fixed_def)

lemma nd_inv_NewNode [simp]: "nd_inv (NewNode i)" "nd_inv ((NewNode i)\<lparr>nd_store := S\<rparr>)"
  by (auto simp: nd_inv_def NewNode_def) (simp_all add: NewRoutingTable_def)

lemma nd_inv_addr [simp]: "nd_inv (SetNodeAddr n a) = nd_inv n"
  by (simp add: nd_inv_def SetNodeAddr_def)

lemma add_peer_inv: "nd_inv n \<Longrightarrow> nd_inv (add_peer n now i addr)"
  by (simp add: nd_inv_def add_peer_def)

lemma add_peer_fixed [simp]: "nd_fixed n (add_peer n now i addr)"
  by (simp add: nd_fixed_def add_peer_def)

lemma add_nodes_inv: "nd_inv n \<Longrightarrow> nd_inv (add_nodes n clk i cs)"
  by (induction cs arbitrary: n i) (simp_all add: add_peer_inv)

lemma add_nodes_fixed: "nd_fixed n (add_nodes n clk i cs)"
  by (induction cs arbitrary: n i) (auto intro: nd_fixed_trans [OF add_peer_fixed])

lemma known_provider_iff:
  "known_provider l c \<longleftrightarrow> (ct_ID c, ct_Address c) \<in> (\<lambda>c. (ct_ID c, ct_Address c)) ` set l"
  by (induction l) auto

lemma addFileProvider_inv: "nd_inv n \<Longrightarrow> nd_inv (addFileProvider n root c)"
  by (auto simp: nd_inv_def addFileProvider_def Let_def known_provider_iff)

lemma addFileProvider_fixed [simp]: "nd_fixed n (addFileProvider n root c)"
  by (simp add: nd_fixed_def addFileProvider_def Let_def)

lemma addFileMeta_inv: "nd_inv n \<Longrightarrow> nd_inv (addFileMeta n m)"
  by (auto simp: nd_inv_def addFileMeta_def split: option.splits)

lemma handle_message_node:
  assumes "nd_inv n" and "handle_message n s clk rpc msg = (r, n', s')"
  shows "nd_inv n' \<and> nd_fixed n n'"
  using assms
  by (auto simp: handle_message_def handle_ping_def handle_pong_def handle_find_node_def handle_nodes_def
      handle_store_provider_def Let_def add_peer_inv add_nodes_inv addFileProvider_inv
      intro: nd_fixed_trans [OF add_nodes_fixed add_peer_fixed]
      split: if_splits result_splits)

lemma handle_message_store:
  assumes "handle_message n s clk rpc msg = (r, n', s')"
  shows "s' = s \<or> (\<exists>S data. nd_store n = Some S \<and> s' = snd (PutChunk S s data)) \<or>
    (\<exists>S i. nd_store n = Some S \<and> s' = snd (GetChunk S s i))"
  using assms
  by (auto simp: handle_message_def handle_store_chunk_def handle_get_chunk_def StoreLocalChunk_def
      GetLocalChunk_def Let_def split: if_splits result_splits) (metis snd_conv)+

text \<open>A node that serves a sequence of RPCs.\<close>

primrec serve ::
  "(bytes \<Rightarrow> Message result) \<Rightarrow> 's Node \<Rightarrow> 's \<Rightarrow> ((nat \<Rightarrow> time) \<times> RPC) list \<Rightarrow> 's Node \<times> 's" where
  "serve decode n s [] = (n, s)"
| "serve decode n s (x # xs) =
     (case HandleRPC decode n s (fst x) (snd x) of (_, n', s') \<Rightarrow> serve decode n' s' xs)"

lemma HandleRPC_cases:
  assumes "HandleRPC decode n s clk rpc = (r, n', s')"
  obtains "n' = n" "s' = s" | msg where "handle_message n s clk rpc msg = (r, n', s')"
  using assms by (auto simp: HandleRPC_def split: sum.splits)

context chunk_store
begin

lemma handle_message_inv:
  assumes "nd_store n = Some S" and "inv s" and "handle_message n s clk rpc msg = (r, n', s')"
  shows "inv s' \<and> dom (holds s) \<subseteq> dom (holds s')"
  using handle_message_store [OF assms(3)]
proof (elim disjE exE conjE)
  fix T data assume "nd_store n = Some T" "s' = snd (PutChunk T s data)"
  then have "PutChunk S s data = (fst (PutChunk S s data), s')" using assms(1) by simp
  then show ?thesis using put_inv [OF assms(2)] put_dom [OF assms(2)] by blast
next
  fix T i assume "nd_store n = Some T" "s' = snd (GetChunk T s i)"
  then have "GetChunk S s i = (fst (GetChunk S s i), s')" using assms(1) by simp
  then show ?thesis using get_state [OF assms(2)] by auto
qed (use assms in simp)

lemma serve_inv:
  assumes "nd_inv n" and "nd_store n = Some S" and "inv s" and "serve decode n s xs = (n', s')"
  shows "nd_inv n' \<and> nd_fixed n n' \<and> inv s' \<and> dom (holds s) \<subseteq> dom (holds s')"
  using assms
proof (induction xs arbitrary: n s)
  case (Cons x xs)
  obtain r n1 s1 where h: "HandleRPC decode n s (fst x) (snd x) = (r, n1, s1)" by (metis prod_cases3)
  then have "nd_inv n1 \<and> nd_fixed n n1 \<and> inv s1 \<and> dom (holds s) \<subseteq> dom (holds s1)"
  proof (cases rule: HandleRPC_cases)
    case (2 msg)
    then show ?thesis using handle_message_node [OF Cons.prems(1)] handle_message_inv [OF Cons.prems(2,3)] by blast
  qed (use Cons.prems in simp)
  moreover have "serve decode n1 s1 xs = (n', s')" using Cons.prems h by simp
  moreover have "nd_store n1 = Some S" using calculation(1) Cons.prems(2) by (simp add: nd_fixed_def)
  ultimately show ?case using Cons.IH [of n1 s1] nd_fixed_trans by blast
qed simp

end

section \<open>Replies\<close>

lemma reply_simps [simp]:
  "msg_Type (reply n ty now) = ty" "msg_From (reply n ty now) = nd_id n"
  "msg_NodeAddr (reply n ty now) = nd_addr n" "msg_RequestID (reply n ty now) = []"
  "msg_Error (reply n ty now) = []" "msg_ChunkData (reply n ty now) = None" "msg_ChunkID (reply n ty now) = []"
  by (simp_all add: reply_def Message_zero_def)

definition reply_pairs :: "(string \<times> string) list" where
  "reply_pairs =
     [(MsgPing, MsgPong), (MsgFindNode, MsgNodes), (MsgStoreChunk, MsgStoreChunkResult),
      (MsgGetChunk, MsgChunkData), (MsgGetFileProviders, MsgFileProviders), (MsgGetFileMeta, MsgFileMeta)]"

lemma handle_message_reply:
  assumes "handle_message n s clk rpc msg = (Inr (Some r), n', s')"
  shows "(msg_Type msg, msg_Type r) \<in> set reply_pairs \<and> msg_From r = nd_id n \<and> msg_NodeAddr r = nd_addr n \<and>
    msg_RequestID r = (if msg_Type msg = MsgPing \<or> msg_Type msg = MsgFindNode then [] else msg_RequestID msg)"
proof -
  have fixed: "nd_id (add_peer n t i a) = nd_id n" "nd_addr (add_peer n t i a) = nd_addr n" for t i a
    by (simp_all add: add_peer_def)
  show ?thesis
    using assms unfolding reply_pairs_def
    by (auto simp: handle_message_def handle_ping_def handle_pong_def handle_find_node_def handle_nodes_def
        handle_store_provider_def handle_store_chunk_def handle_get_chunk_def handle_get_providers_def
        handle_get_meta_def Let_def fixed wire_consts split: if_splits result_splits)
qed

lemma handle_message_silent:
  "msg_Type msg \<in> snd ` set reply_pairs \<Longrightarrow> fst (handle_message n s clk rpc msg) = Inr None"
  by (auto simp: reply_pairs_def handle_message_def wire_consts handle_pong_def handle_nodes_def Let_def)

section \<open>Properties\<close>

definition demo_node :: "os Node" where
  "demo_node = (NewNode ID_zero)\<lparr>nd_store := Some (FSStore \<lparr>baseDir = ''d''\<rparr>), nd_addr := ''me''\<rparr>"

lemma demo_node_simps [simp]:
  "nd_inv demo_node" "nd_store demo_node = Some (FSStore \<lparr>baseDir = ''d''\<rparr>)" "nd_id demo_node = ID_zero"
  by (simp_all add: demo_node_def nd_inv_def NewNode_def) (simp add: NewRoutingTable_def)

text \<open>
  C20: whatever RPCs arrive, from whomever and in whatever order, with well-formed payloads or not, and
  whatever system calls fail: the node keeps its invariant (a valid routing table around its
  own identifier, no provider listed twice for a file, metadata under the root they describe),
  its identity, address, store and file metadata stay as they are, the store keeps its
  invariant, and no stored chunk disappears.
\<close>

theorem node_serves_safely:
  assumes "nd_inv n" and "nd_store n = Some (FSStore st)" and "fs_inv st s"
    and "serve decode n s xs = (n', s')"
  shows "nd_inv n' \<and> nd_id n' = nd_id n \<and> nd_addr n' = nd_addr n \<and> nd_store n' = nd_store n \<and>
    nd_fileMeta n' = nd_fileMeta n \<and> fs_inv st s' \<and> dom (fs_holds st s) \<subseteq> dom (fs_holds st s')"
  using fs.serve_inv [OF assms] by (simp add: nd_fixed_def)

theorem node_serves_safely_witness:
  "nd_inv (fst (serve (\<lambda>_. Inl (ExtError ''bad'')) demo_node one_dir [(\<lambda>_. 0, payload_rpc [1])]))"
  using node_serves_safely [OF demo_node_simps(1,2) one_dir_inv(1), of "\<lambda>_. Inl (ExtError ''bad'')"
      "[(\<lambda>_. 0, payload_rpc [1])]"]
  by (metis prod.collapse)

text \<open>
  The answer to a message has the type that belongs to the request, carries the node's identifier
  and address, and echoes the request identifier of chunk and file requests (\<^verbatim>\<open>PONG\<close> and
  \<^verbatim>\<open>NODES\<close> carry none); and an answer is never answered, by any node in any state, so two
  nodes cannot keep each other busy.
\<close>

theorem node_replies:
  assumes "handle_message n s clk rpc msg = (Inr (Some r), n', s')"
  shows "(msg_Type msg, msg_Type r) \<in>
      {(MsgPing, MsgPong), (MsgFindNode, MsgNodes), (MsgStoreChunk, MsgStoreChunkResult),
       (MsgGetChunk, MsgChunkData), (MsgGetFileProviders, MsgFileProviders), (MsgGetFileMeta, MsgFileMeta)} \<and>
    msg_From r = nd_id n \<and> msg_NodeAddr r = nd_addr n \<and>
    msg_RequestID r = (if msg_Type msg \<in> {MsgPing, MsgFindNode} then [] else msg_RequestID msg) \<and>
    fst (handle_message m t clk' rpc' r) = Inr None"
proof -
  note rep = handle_message_reply [OF assms]
  then have "msg_Type r \<in> snd ` set reply_pairs" by force
  with rep handle_message_silent [of r m t clk' rpc'] show ?thesis by (simp add: reply_pairs_def)
qed

theorem node_replies_witness:
  "msg_Type (the (projr (fst (handle_message demo_node one_dir (\<lambda>_. 0) (payload_rpc [])
     (Message_zero\<lparr>msg_Type := MsgPing\<rparr>))))) = MsgPong"
proof -
  have "\<exists>r n'. handle_message demo_node one_dir (\<lambda>_. 0) (payload_rpc []) (Message_zero\<lparr>msg_Type := MsgPing\<rparr>) =
      (Inr (Some r), n', one_dir)"
    by (simp add: handle_message_def handle_ping_def Let_def)
  then obtain r n' where h: "handle_message demo_node one_dir (\<lambda>_. 0) (payload_rpc []) (Message_zero\<lparr>msg_Type := MsgPing\<rparr>) =
      (Inr (Some r), n', one_dir)" by blast
  from node_replies [OF h, where m = demo_node and t = one_dir] h show ?thesis by (simp add: wire_consts)
qed

text \<open>
  A chunk sent with \<^verbatim>\<open>STORE_CHUNK\<close> can be fetched with \<^verbatim>\<open>GET_CHUNK\<close>: when nothing fails, the
  answer to the first carries the hash of the data, and a later request for that identifier
  is answered with the data.
\<close>

theorem node_store_then_get:
  assumes store: "nd_store n = Some (FSStore st)" and inv: "fs_inv st s" "os_healthy s"
    and msg: "msg_Type msg = MsgStoreChunk" "msg_ChunkData msg = Some data" "data \<noteq> []"
    and inj: "inj_on NewChunkID (insert data (ran (fs_holds st s)))"
  shows "\<exists>r s'. handle_message n s clk rpc msg = (Inr (Some r), n, s') \<and>
    msg_Error r = [] \<and> msg_RequestID r = msg_RequestID msg \<and> msg_ChunkID r = ChunkID_String (NewChunkID data) \<and>
    (\<forall>q clk' rpc'. msg_Type q = MsgGetChunk \<and> msg_ChunkID q = msg_ChunkID r \<longrightarrow>
       (\<exists>a s''. handle_message n s' clk' rpc' q = (Inr (Some a), n, s'') \<and> msg_Type a = MsgChunkData \<and>
          msg_Error a = [] \<and> msg_ChunkData a = Some data \<and> msg_RequestID a = msg_RequestID q))"
proof -
  obtain res s' where put: "fs_PutChunk st s data = (res, s')" by fastforce
  have put': "PutChunk (FSStore st) s data = (Inr (NewChunkID data), s')"
    using put fs_PutChunk_effect(3) [OF inv(1) put inv(2)] by (simp add: FSStore_def)
  have inv': "fs_inv st s'" "os_healthy s'" and holds: "fs_holds st s' (NewChunkID data) = Some data"
    using fs_PutChunk_effect(1,3) [OF inv(1) put] inv(2) fs.put_stores [OF inv(1) put' inj] by auto
  obtain g s'' where get: "fs_GetChunk st s' (NewChunkID data) = (g, s'')" by fastforce
  have g: "GetChunk (FSStore st) s' (NewChunkID data) = (Inr data, s'')"
    using get fs_GetChunk_effect(4) [OF inv'(1) get inv'(2)] holds by (simp add: FSStore_def)
  have ne: "ChunkID_String (NewChunkID data) \<noteq> []"
    by (metis length_ChunkID_String list.size(3) zero_neq_numeral)
  let ?r = "(reply n MsgStoreChunkResult (clk 0))
      \<lparr>msg_RequestID := msg_RequestID msg, msg_ChunkID := ChunkID_String (NewChunkID data)\<rparr>"
  have "handle_message n s clk rpc msg = (Inr (Some ?r), n, s')"
    using msg put' store
    by (simp add: handle_message_def handle_store_chunk_def StoreLocalChunk_def wire_consts Let_def)
  moreover have "\<exists>a s''. handle_message n s' clk' rpc' q = (Inr (Some a), n, s'') \<and> msg_Type a = MsgChunkData \<and>
      msg_Error a = [] \<and> msg_ChunkData a = Some data \<and> msg_RequestID a = msg_RequestID q"
    if "msg_Type q = MsgGetChunk" "msg_ChunkID q = ChunkID_String (NewChunkID data)" for q clk' rpc'
    using that g store ne
    by (simp add: handle_message_def handle_get_chunk_def GetLocalChunk_def wire_consts Let_def)
  ultimately show ?thesis by (intro exI [of _ ?r] exI [of _ s']) simp
qed

theorem node_store_then_get_witness:
  "\<exists>r s'. handle_message demo_node one_dir (\<lambda>_. 0) (payload_rpc [])
     (Message_zero\<lparr>msg_Type := MsgStoreChunk, msg_ChunkData := Some [1, 2]\<rparr>) = (Inr (Some r), demo_node, s') \<and>
     msg_Error r = []"
proof -
  have "inj_on NewChunkID (insert [1, 2] (ran (fs_holds \<lparr>baseDir = ''d''\<rparr> one_dir)))" by simp
  from node_store_then_get [OF demo_node_simps(2) one_dir_inv(1,3) _ _ _ this,
      of "Message_zero\<lparr>msg_Type := MsgStoreChunk, msg_ChunkData := Some [1, 2]\<rparr>" "\<lambda>_. 0" "payload_rpc []"]
  show ?thesis by auto
qed

text \<open>
  \<^verbatim>\<open>GET_CHUNK\<close> is answered honestly under every schedule of failing system calls: the answer
  carries either an error text or data, and the data hashes to the requested identifier.
\<close>

theorem node_get_chunk_honest:
  assumes "nd_store n = Some (FSStore st)" and "fs_inv st s" and "msg_Type msg = MsgGetChunk"
  shows "\<exists>r s'. handle_message n s clk rpc msg = (Inr (Some r), n, s') \<and> fs_holds st s' = fs_holds st s \<and>
    (case msg_ChunkData r of
       None \<Rightarrow> msg_Error r \<noteq> []
     | Some d \<Rightarrow> msg_Error r = [] \<and> ChunkIDFromHex (msg_ChunkID msg) = Inr (NewChunkID d) \<and>
         msg_ChunkID r = msg_ChunkID msg)"
proof -
  have type: "handle_message n s clk rpc msg = (case handle_get_chunk n s clk msg of (r, s') \<Rightarrow> (r, n, s'))"
    using assms(3) by (simp add: handle_message_def wire_consts Let_def)
  show ?thesis
  proof (cases "ChunkIDFromHex (msg_ChunkID msg)")
    case (Inl e)
    then show ?thesis using assms(1) unfolding type by (simp add: handle_get_chunk_def Let_def)
  next
    case (Inr i)
    obtain g s' where get: "fs_GetChunk st s i = (g, s')" by fastforce
    have g: "GetChunk (FSStore st) s i = (g, s')" using get by (simp add: FSStore_def)
    have s': "fs_holds st s' = fs_holds st s" using fs_GetChunk_effect(1) [OF assms(2) get] by simp
    have id: "NewChunkID d = i" if "g = Inr d" for d
      using fs_GetChunk_effect(2) [OF assms(2) get that] fs_inv_node [OF assms(2), of i] by auto
    show ?thesis
      using assms(1) Inr g s' id unfolding type
      by (cases g) (auto simp: handle_get_chunk_def GetLocalChunk_def Let_def)
  qed
qed

theorem node_get_chunk_honest_witness:
  "\<exists>r s'. handle_message demo_node one_dir (\<lambda>_. 0) (payload_rpc []) (Message_zero\<lparr>msg_Type := MsgGetChunk\<rparr>) =
     (Inr (Some r), demo_node, s')"
  using node_get_chunk_honest [OF demo_node_simps(2) one_dir_inv(1),
      of "Message_zero\<lparr>msg_Type := MsgGetChunk\<rparr>" "\<lambda>_. 0" "payload_rpc []"]
  by auto

text \<open>
  \<^verbatim>\<open>FIND_NODE\<close> with a target is answered with the at most K contacts closest to the target of the
  table that already includes the sender, nearest first; without a target it is an error and
  the state does not change.
\<close>

theorem node_find_node:
  assumes "nd_inv n" and "msg_Type msg = MsgFindNode"
  shows "case msg_Target msg of
      None \<Rightarrow> handle_message n s clk rpc msg = (Inl (Errorf ''HandleRPC: FIND_NODE missing target''), n, s)
    | Some target \<Rightarrow>
        (\<exists>r n'. handle_message n s clk rpc msg = (Inr (Some r), n', s) \<and>
           n' = add_peer n (clk 0) (msg_From msg) (sender_addr rpc msg) \<and>
           length (msg_Nodes r) = min K (length (concat (rt_buckets (nd_rt n')))) \<and>
           sorted (map (\<lambda>c. ID_val (ID_XOR target (ct_ID c))) (msg_Nodes r)) \<and>
           set (msg_Nodes r) \<subseteq> set (concat (rt_buckets (nd_rt n'))) \<and>
           (\<forall>c \<in> set (msg_Nodes r). \<forall>d \<in> set (concat (rt_buckets (nd_rt n'))) - set (msg_Nodes r).
              ID_val (ID_XOR target (ct_ID c)) < ID_val (ID_XOR target (ct_ID d))))"
proof (cases "msg_Target msg")
  case None
  then show ?thesis using assms(2) by (simp add: handle_message_def handle_find_node_def wire_consts Let_def)
next
  case (Some target)
  define n' where "n' = add_peer n (clk 0) (msg_From msg) (sender_addr rpc msg)"
  have inv: "rt_inv (nd_rt n')" using add_peer_inv [OF assms(1)] by (simp add: n'_def nd_inv_def)
  let ?l = "take K (by_distance (nd_rt n') target)"
  let ?r = "(reply n' MsgNodes (clk 1))\<lparr>msg_Nodes := ?l\<rparr>"
  have "handle_message n s clk rpc msg = (Inr (Some ?r), n', s)"
    using assms(2) Some FindClosest_K [of "nd_rt n'" target K]
    by (simp add: handle_message_def handle_find_node_def wire_consts Let_def n'_def)
  moreover have "sorted (map (\<lambda>c. ID_val (ID_XOR target (ct_ID c))) ?l)"
    by (rule sorted_closest)
  moreover have "set ?l \<subseteq> set (concat (rt_buckets (nd_rt n')))"
    using set_take_subset [of K "by_distance (nd_rt n') target"] by (simp add: all_contacts_concat)
  moreover have "\<forall>c \<in> set ?l. \<forall>d \<in> set (concat (rt_buckets (nd_rt n'))) - set ?l.
      ID_val (ID_XOR target (ct_ID c)) < ID_val (ID_XOR target (ct_ID d))"
    using closest_before_rest [OF inv, of _ K target] by (auto simp: all_contacts_concat ID_Less_val)
  moreover have "length ?l = min K (length (concat (rt_buckets (nd_rt n'))))"
    by (simp add: all_contacts_concat min.commute)
  ultimately show ?thesis
    unfolding Some by (simp add: n'_def [symmetric])
qed

theorem node_find_node_witness:
  "fst (handle_message demo_node one_dir (\<lambda>_. 0) (payload_rpc []) (Message_zero\<lparr>msg_Type := MsgFindNode\<rparr>)) =
     Inl (Errorf ''HandleRPC: FIND_NODE missing target'')"
  using node_find_node [OF demo_node_simps(1), of "Message_zero\<lparr>msg_Type := MsgFindNode\<rparr>" one_dir "\<lambda>_. 0" "payload_rpc []"]
  by (simp add: Message_zero_def)

text \<open>
  Provider records: after \<^verbatim>\<open>STORE_FILE_PROVIDER\<close> for a non-empty root from another node, the
  answer to \<^verbatim>\<open>GET_FILE_PROVIDERS\<close> for that root lists that node at the address it gave (or
  the address of its connection), records for other roots are unchanged, and repeating the
  message changes nothing.
\<close>

theorem node_providers:
  assumes "msg_Type msg = MsgStoreFileProvider" and "msg_FileRoot msg \<noteq> []" and "msg_From msg \<noteq> nd_id n"
    and "handle_message n s clk rpc msg = (r, n', s')"
    and "msg_Type q = MsgGetFileProviders" and "msg_FileRoot q = msg_FileRoot msg"
  shows "r = Inr None \<and> s' = s \<and>
    (\<exists>a. handle_message n' s' clk2 rpc2 q = (Inr (Some a), n', s') \<and> msg_Error a = [] \<and>
       (\<exists>c \<in> set (msg_Providers a). ct_ID c = msg_From msg \<and>
          ct_Address c = (if msg_NodeAddr msg = [] then rpc_From rpc else msg_NodeAddr msg))) \<and>
    (\<forall>root. root \<noteq> msg_FileRoot msg \<longrightarrow> nd_fileProviders n' root = nd_fileProviders n root) \<and>
    handle_message n' s' clk3 rpc msg = (Inr None, n', s')"
proof -
  let ?c = "\<lparr>ct_ID = msg_From msg, ct_Address = sender_addr rpc msg, ct_LastSeen = clk 0\<rparr>"
  have n': "r = Inr None" "s' = s" "n' = addFileProvider n (msg_FileRoot msg) ?c"
    using assms(1-4) by (simp_all add: handle_message_def handle_store_provider_def wire_consts Let_def)
  have known: "known_provider (nd_fileProviders n' (msg_FileRoot msg))
      \<lparr>ct_ID = msg_From msg, ct_Address = sender_addr rpc msg, ct_LastSeen = t\<rparr>" for t
    by (auto simp: n'(3) addFileProvider_def Let_def known_provider_iff)
  then obtain c where c: "c \<in> set (nd_fileProviders n' (msg_FileRoot msg))" "ct_ID c = msg_From msg"
    "ct_Address c = sender_addr rpc msg"
    by (auto simp: known_provider_iff)
  have "handle_message n' s' clk2 rpc2 q = (Inr (Some ((reply n' MsgFileProviders (clk2 0))
      \<lparr>msg_RequestID := msg_RequestID q, msg_FileRoot := msg_FileRoot msg,
       msg_Providers := nd_fileProviders n' (msg_FileRoot msg)\<rparr>)), n', s')"
    using assms(2,5,6) by (simp add: handle_message_def handle_get_providers_def getFileProviders_def wire_consts Let_def)
  moreover have "\<forall>root. root \<noteq> msg_FileRoot msg \<longrightarrow> nd_fileProviders n' root = nd_fileProviders n root"
    by (simp add: n'(3) addFileProvider_def Let_def)
  moreover have "handle_message n' s' clk3 rpc msg = (Inr None, n', s')"
  proof -
    have "nd_id n' = nd_id n" by (simp add: n'(3) addFileProvider_def Let_def)
    then show ?thesis
      using assms(1-3) known
      by (simp add: handle_message_def handle_store_provider_def addFileProvider_def wire_consts Let_def)
  qed
  ultimately show ?thesis
    using n'(1,2) c by (auto simp: sender_addr_def intro!: bexI [of _ c])
qed

theorem node_providers_witness:
  "let msg = Message_zero\<lparr>msg_Type := MsgStoreFileProvider, msg_FileRoot := ''f'', msg_From := ID_of_slice [1]\<rparr>
   in fst (handle_message demo_node one_dir (\<lambda>_. 0) (payload_rpc []) msg) = Inr None"
proof -
  let ?msg = "Message_zero\<lparr>msg_Type := MsgStoreFileProvider, msg_FileRoot := ''f'', msg_From := ID_of_slice [1]\<rparr>"
  let ?q = "Message_zero\<lparr>msg_Type := MsgGetFileProviders, msg_FileRoot := ''f''\<rparr>"
  obtain r n' s' where h: "handle_message demo_node one_dir (\<lambda>_. 0) (payload_rpc []) ?msg = (r, n', s')"
    by (metis prod_cases3)
  from node_providers [OF _ _ _ h, of ?q] h show ?thesis by (simp add: ID_of_slice_neq)
qed

text \<open>
  File metadata: a description registered locally is what \<^verbatim>\<open>GET_FILE_META\<close> for its root returns,
  with the request identifier; for a root that is not registered the answer is the error
  \<^verbatim>\<open>file meta not found\<close> and no description.
\<close>

theorem node_file_meta:
  assumes "msg_Type msg = MsgGetFileMeta" and "msg_FileRoot msg \<noteq> []"
  shows "\<exists>a. handle_message (addFileMeta n (Some m)) s clk rpc msg = (Inr (Some a), addFileMeta n (Some m), s) \<and>
    msg_RequestID a = msg_RequestID msg \<and> msg_FileRoot a = msg_FileRoot msg \<and>
    (if msg_FileRoot msg = ChunkID_String (fm_Root m) then msg_FileMeta a = Some m \<and> msg_Error a = []
     else msg_FileMeta a = nd_fileMeta n (msg_FileRoot msg) \<and>
       (nd_fileMeta n (msg_FileRoot msg) = None \<longrightarrow> msg_Error a = ''file meta not found''))"
  using assms
  by (auto simp: handle_message_def handle_get_meta_def getFileMeta_def addFileMeta_def wire_consts Let_def
      reply_def Message_zero_def split: option.splits)

theorem node_file_meta_witness:
  "\<exists>a. handle_message (addFileMeta demo_node (Some (meta_of [[1]]))) one_dir (\<lambda>_. 0) (payload_rpc [])
     (Message_zero\<lparr>msg_Type := MsgGetFileMeta, msg_FileRoot := ''x''\<rparr>) =
       (Inr (Some a), addFileMeta demo_node (Some (meta_of [[1]])), one_dir)"
  using node_file_meta [of "Message_zero\<lparr>msg_Type := MsgGetFileMeta, msg_FileRoot := ''x''\<rparr>" demo_node "meta_of [[1]]"]
  by simp blast

end
