(* ===== verification/Dht_Service.thy ===== *)
theory Dht_Service
  imports Dht_Node
begin

text \<open>
  The request/response core of \<^verbatim>\<open>internal/dht/service.go\<close>: the table of pending requests, the
  read loop and the request functions. The goroutines are modelled by an explicit schedule. A
  channel is a cell of \<open>sv_chans\<close>; sending on or closing a closed channel panics and sending
  on a full one blocks, both of which are the value \<open>None\<close> of the step functions. The states
  of the chunk store and of the transport are part of the service state, the two halves of
  the message encoding (\<^verbatim>\<open>Message.Encode\<close> and \<^verbatim>\<open>DecodeMessage\<close>) are the argument \<open>cd\<close>; the program's
  is \<open>json_codec\<close> of theory \<open>Json_Message\<close>.

  A request goes through four states; a schedule interleaves the steps of any number of
  requests with iterations of the read loop. Lemmas: the invariant \<open>sv_inv\<close> of the pending
  table, that no step of any schedule panics or blocks, and that a response reaches the
  request whose identifier it carries, at most once.
\<close>

section \<open>State\<close>

record codec =
  cd_Encode :: "Message \<Rightarrow> bytes result"
  cd_Decode :: "bytes \<Rightarrow> Message result"

record chan =
  ch_buf :: "Message list"
  ch_closed :: bool

record ('s, 't) Service =
  sv_node :: "'s Node"
  sv_transport :: "'t Transport"
  sv_store :: "'s ChunkStore option"
  sv_pending :: "string \<Rightarrow> nat option"
  sv_chans :: "chan list"
  sv_ss :: 's
  sv_ts :: 't

definition DefaultReplicaCount :: int where
  "DefaultReplicaCount = 3"

definition NewService :: "ID \<Rightarrow> 't Transport \<Rightarrow> 't \<Rightarrow> 's ChunkStore option \<Rightarrow> 's \<Rightarrow> ('s, 't) Service" where
  "NewService i T ts store ss =
     \<lparr>sv_node = SetNodeAddr ((NewNode i)\<lparr>nd_store := store\<rparr>) (tp_Addr T ts), sv_transport = T, sv_store = store,
      sv_pending = (\<lambda>_. None), sv_chans = [], sv_ss = ss, sv_ts = ts\<rparr>"

definition sv_Addr :: "('s, 't) Service \<Rightarrow> string" where
  "sv_Addr sv = tp_Addr (sv_transport sv) (sv_ts sv)"

definition sv_Send :: "('s, 't) Service \<Rightarrow> string \<Rightarrow> bytes \<Rightarrow> go_error option \<times> ('s, 't) Service" where
  "sv_Send sv addr payload =
     (case tp_Send (sv_transport sv) (sv_ts sv) addr (payload_rpc payload) of
        (e, ts') \<Rightarrow> (e, sv\<lparr>sv_ts := ts'\<rparr>))"

text \<open>Over a transport that keeps its address, so does the service.\<close>

context transport
begin

lemma sv_Send_addr:
  assumes "sv_transport sv = T" and "sv_Send sv a x = (e, sv')"
  shows "sv_Addr sv' = sv_Addr sv"
  using assms send_addr [of "sv_ts sv" a "payload_rpc x"] by (auto simp: sv_Send_def sv_Addr_def split: prod.splits)

end

section \<open>Pending requests\<close>

definition registerPending :: "('s, 't) Service \<Rightarrow> string \<Rightarrow> nat \<times> ('s, 't) Service" where
  "registerPending sv reqID =
     (let c = length (sv_chans sv)
      in (c, sv\<lparr>sv_chans := sv_chans sv @ [\<lparr>ch_buf = [], ch_closed = False\<rparr>],
                sv_pending := (sv_pending sv)(reqID := Some c)\<rparr>))"

definition takePending :: "('s, 't) Service \<Rightarrow> string \<Rightarrow> nat option \<times> ('s, 't) Service" where
  "takePending sv reqID =
     (case sv_pending sv reqID of
        Some c \<Rightarrow> (Some c, sv\<lparr>sv_pending := (sv_pending sv)(reqID := None)\<rparr>)
      | None \<Rightarrow> (None, sv))"

definition isResponseType :: "string \<Rightarrow> bool" where
  "isResponseType t \<longleftrightarrow>
     t = MsgStoreChunkResult \<or> t = MsgChunkData \<or> t = MsgFileProviders \<or> t = MsgFileMeta"

text \<open>The channel operations; the capacity is 1.\<close>

definition chan_send :: "('s, 't) Service \<Rightarrow> nat \<Rightarrow> Message \<Rightarrow> ('s, 't) Service option" where
  "chan_send sv c m =
     (let ch = sv_chans sv ! c
      in if c < length (sv_chans sv) \<and> \<not> ch_closed ch \<and> length (ch_buf ch) < 1
         then Some (sv\<lparr>sv_chans := (sv_chans sv)[c := ch\<lparr>ch_buf := ch_buf ch @ [m]\<rparr>]\<rparr>) else None)"

definition chan_close :: "('s, 't) Service \<Rightarrow> nat \<Rightarrow> ('s, 't) Service option" where
  "chan_close sv c =
     (let ch = sv_chans sv ! c
      in if c < length (sv_chans sv) \<and> \<not> ch_closed ch
         then Some (sv\<lparr>sv_chans := (sv_chans sv)[c := ch\<lparr>ch_closed := True\<rparr>]\<rparr>) else None)"

definition chan_ready :: "('s, 't) Service \<Rightarrow> nat \<Rightarrow> bool" where
  "chan_ready sv c \<longleftrightarrow> ch_buf (sv_chans sv ! c) \<noteq> [] \<or> ch_closed (sv_chans sv ! c)"

text \<open>Receiving from a closed, empty channel gives \<^verbatim>\<open>nil\<close>.\<close>

definition chan_recv :: "('s, 't) Service \<Rightarrow> nat \<Rightarrow> Message option \<times> ('s, 't) Service" where
  "chan_recv sv c =
     (let ch = sv_chans sv ! c
      in case ch_buf ch of
           [] \<Rightarrow> (None, sv)
         | m # ms \<Rightarrow> (Some m, sv\<lparr>sv_chans := (sv_chans sv)[c := ch\<lparr>ch_buf := ms\<rparr>]\<rparr>))"

definition drop_pending :: "('s, 't) Service \<Rightarrow> string \<Rightarrow> ('s, 't) Service option" where
  "drop_pending sv reqID =
     (case takePending sv reqID of
        (Some c, sv') \<Rightarrow> chan_close sv' c
      | (None, sv') \<Rightarrow> Some sv')"

section \<open>The read loop\<close>

text \<open>One iteration. The RPC that reaches the node has the four fields of the received one.\<close>

definition readLoop_node :: "codec \<Rightarrow> ('s, 't) Service \<Rightarrow> (nat \<Rightarrow> time) \<Rightarrow> RPC \<Rightarrow> ('s, 't) Service" where
  "readLoop_node cd sv clk rpc =
     (case HandleRPC (cd_Decode cd) (sv_node sv) (sv_ss sv) clk rpc of
        (r, n', s') \<Rightarrow>
          let sv' = sv\<lparr>sv_node := n', sv_ss := s'\<rparr>
          in (case r of
                Inl _ \<Rightarrow> sv'
              | Inr None \<Rightarrow> sv'
              | Inr (Some resp) \<Rightarrow>
                  (case cd_Encode cd resp of
                     Inl _ \<Rightarrow> sv'
                   | Inr payload \<Rightarrow> snd (sv_Send sv' (rpc_From rpc) payload))))"

definition readLoop_step :: "codec \<Rightarrow> ('s, 't) Service \<Rightarrow> (nat \<Rightarrow> time) \<Rightarrow> RPC \<Rightarrow> ('s, 't) Service option" where
  "readLoop_step cd sv clk rpc =
     (case cd_Decode cd (rpc_Payload rpc) of
        Inl _ \<Rightarrow> Some sv
      | Inr msg \<Rightarrow>
          if msg_RequestID msg \<noteq> [] \<and> isResponseType (msg_Type msg) then
            (case takePending sv (msg_RequestID msg) of
               (Some c, sv') \<Rightarrow>
                 (case chan_send sv' c msg of
                    None \<Rightarrow> None
                  | Some sv'' \<Rightarrow> chan_close sv'' c)
             | (None, sv') \<Rightarrow> Some (readLoop_node cd sv' clk rpc))
          else Some (readLoop_node cd sv clk rpc))"

section \<open>Requests and schedules\<close>

text \<open>
  The part that the four request functions share, cut at the points where other goroutines
  can run: register, send, and wait for the response or the timer. On a failed send and on a
  timeout the pending entry is removed and its channel closed.
\<close>

datatype outcome = SendFailed go_error | TimedOut | Got "Message option"

datatype req_state = RFresh | RRegistered nat | RWaiting nat | RDone outcome

record request =
  rq_addr :: string
  rq_id :: string
  rq_payload :: bytes
  rq_state :: req_state

text \<open>\<open>timer\<close>: the timer has fired; when both are ready, \<^verbatim>\<open>select\<close> takes either.\<close>

definition request_step :: "('s, 't) Service \<Rightarrow> request \<Rightarrow> bool \<Rightarrow> (request \<times> ('s, 't) Service) option" where
  "request_step sv q timer =
     (case rq_state q of
        RFresh \<Rightarrow> (case registerPending sv (rq_id q) of (c, sv') \<Rightarrow> Some (q\<lparr>rq_state := RRegistered c\<rparr>, sv'))
      | RRegistered c \<Rightarrow>
          (case sv_Send sv (rq_addr q) (rq_payload q) of
             (Some e, sv') \<Rightarrow>
               (case drop_pending sv' (rq_id q) of
                  None \<Rightarrow> None
                | Some sv'' \<Rightarrow> Some (q\<lparr>rq_state := RDone (SendFailed e)\<rparr>, sv''))
           | (None, sv') \<Rightarrow> Some (q\<lparr>rq_state := RWaiting c\<rparr>, sv'))
      | RWaiting c \<Rightarrow>
          if timer then
            (case drop_pending sv (rq_id q) of
               None \<Rightarrow> None
             | Some sv' \<Rightarrow> Some (q\<lparr>rq_state := RDone TimedOut\<rparr>, sv'))
          else if chan_ready sv c then
            (case chan_recv sv c of (m, sv') \<Rightarrow> Some (q\<lparr>rq_state := RDone (Got m)\<rparr>, sv'))
          else Some (q, sv)
      | RDone _ \<Rightarrow> Some (q, sv))"

datatype sched = Loop "nat \<Rightarrow> time" RPC | Step nat bool

fun run_sched :: "codec \<Rightarrow> sched list \<Rightarrow> request list \<Rightarrow> ('s, 't) Service \<Rightarrow> (request list \<times> ('s, 't) Service) option" where
  "run_sched cd [] qs sv = Some (qs, sv)"
| "run_sched cd (Loop clk rpc # xs) qs sv =
     (case readLoop_step cd sv clk rpc of
        None \<Rightarrow> None
      | Some sv' \<Rightarrow> run_sched cd xs qs sv')"
| "run_sched cd (Step i timer # xs) qs sv =
     (if i < length qs then
        (case request_step sv (qs ! i) timer of
           None \<Rightarrow> None
         | Some (q, sv') \<Rightarrow> run_sched cd xs (qs[i := q]) sv')
      else run_sched cd xs qs sv)"

text \<open>One request alone; \<open>None\<close> also when the schedule ends before the request does.\<close>

definition do_request ::
  "codec \<Rightarrow> sched list \<Rightarrow> ('s, 't) Service \<Rightarrow> string \<Rightarrow> string \<Rightarrow> bytes \<Rightarrow> (outcome \<times> ('s, 't) Service) option" where
  "do_request cd xs sv addr reqID payload =
     (case run_sched cd xs [\<lparr>rq_addr = addr, rq_id = reqID, rq_payload = payload, rq_state = RFresh\<rparr>] sv of
        None \<Rightarrow> None
      | Some (qs, sv') \<Rightarrow>
          (case rq_state (hd qs) of RDone out \<Rightarrow> Some (out, sv') | _ \<Rightarrow> None))"

section \<open>The request functions\<close>

text \<open>
  \<open>rnd\<close> is the outcome of the random source, \<open>now\<close> the clock reading and \<open>xs\<close> the schedule
  of the call. \<open>None\<close>: the call panics, or the schedule ends before the call returns.
\<close>

definition request_msg :: "('s, 't) Service \<Rightarrow> string \<Rightarrow> time \<Rightarrow> string \<Rightarrow> Message" where
  "request_msg sv ty now reqID =
     Message_zero\<lparr>msg_Type := ty, msg_From := nd_id (sv_node sv), msg_Timestamp := Unix now, msg_RequestID := reqID\<rparr>"

definition StoreChunkRemote ::
  "codec \<Rightarrow> sched list \<Rightarrow> ('s, 't) Service \<Rightarrow> bytes result \<Rightarrow> time \<Rightarrow> string \<Rightarrow> bytes \<Rightarrow>
   (ChunkID result \<times> ('s, 't) Service) option" where
  "StoreChunkRemote cd xs sv rnd now addr data =
     (case MustRandomID rnd of
        None \<Rightarrow> None
      | Some i \<Rightarrow>
          (case cd_Encode cd ((request_msg sv MsgStoreChunk now (ID_String i))\<lparr>msg_ChunkData := Some data\<rparr>) of
             Inl e \<Rightarrow> Some (Inl (Wrapf ''StoreChunkRemote: encode: '' e), sv)
           | Inr payload \<Rightarrow>
               (case do_request cd xs sv addr (ID_String i) payload of
                  None \<Rightarrow> None
                | Some (SendFailed e, sv') \<Rightarrow> Some (Inl (Wrapf ''StoreChunkRemote: send: '' e), sv')
                | Some (TimedOut, sv') \<Rightarrow> Some (Inl (Errorf ''StoreChunkRemote: timeout waiting for response''), sv')
                | Some (Got None, sv') \<Rightarrow> Some (Inl (Errorf ''StoreChunkRemote: nil response''), sv')
                | Some (Got (Some resp), sv') \<Rightarrow>
                    if msg_Error resp \<noteq> [] then
                      Some (Inl (Errorf (''StoreChunkRemote: remote error: '' @ msg_Error resp)), sv')
                    else if msg_ChunkID resp = [] then
                      Some (Inl (Errorf ''StoreChunkRemote: missing ChunkID in response''), sv')
                    else (case ChunkIDFromHex (msg_ChunkID resp) of
                            Inl e \<Rightarrow> Some (Inl (Wrapf ''StoreChunkRemote: invalid ChunkID: '' e), sv')
                          | Inr cid \<Rightarrow> Some (Inr cid, sv')))))"

text \<open>A response whose \<^verbatim>\<open>ChunkID\<close> differs from the requested one is only logged.\<close>

definition FetchChunkRemote ::
  "codec \<Rightarrow> sched list \<Rightarrow> ('s, 't) Service \<Rightarrow> bytes result \<Rightarrow> time \<Rightarrow> string \<Rightarrow> ChunkID \<Rightarrow>
   (bytes result \<times> ('s, 't) Service) option" where
  "FetchChunkRemote cd xs sv rnd now addr cid =
     (case MustRandomID rnd of
        None \<Rightarrow> None
      | Some i \<Rightarrow>
          (case cd_Encode cd ((request_msg sv MsgGetChunk now (ID_String i))\<lparr>msg_ChunkID := ChunkID_String cid\<rparr>) of
             Inl e \<Rightarrow> Some (Inl (Wrapf ''FetchChunkRemote: encode: '' e), sv)
           | Inr payload \<Rightarrow>
               (case do_request cd xs sv addr (ID_String i) payload of
                  None \<Rightarrow> None
                | Some (SendFailed e, sv') \<Rightarrow> Some (Inl (Wrapf ''FetchChunkRemote: send: '' e), sv')
                | Some (TimedOut, sv') \<Rightarrow> Some (Inl (Errorf ''FetchChunkRemote: timeout waiting for response''), sv')
                | Some (Got None, sv') \<Rightarrow> Some (Inl (Errorf ''FetchChunkRemote: nil response''), sv')
                | Some (Got (Some resp), sv') \<Rightarrow>
                    if msg_Error resp \<noteq> [] then
                      Some (Inl (Errorf (''FetchChunkRemote: remote error: '' @ msg_Error resp)), sv')
                    else if msg_ChunkID resp = [] then
                      Some (Inl (Errorf ''FetchChunkRemote: missing ChunkID in response''), sv')
                    else (case msg_ChunkData resp of
                            None \<Rightarrow> Some (Inl (Errorf ''FetchChunkRemote: missing ChunkData in response''), sv')
                          | Some d \<Rightarrow> Some (Inr d, sv')))))"

definition requestFileProvidersFrom_result :: "outcome \<Rightarrow> Contact list result" where
  "requestFileProvidersFrom_result out =
     (case out of
        SendFailed e \<Rightarrow> Inl (Wrapf ''requestFileProvidersFrom: send: '' e)
      | TimedOut \<Rightarrow> Inl (Errorf ''requestFileProvidersFrom: timeout waiting for response'')
      | Got None \<Rightarrow> Inl (Errorf ''requestFileProvidersFrom: nil response'')
      | Got (Some resp) \<Rightarrow>
          if msg_Error resp \<noteq> [] then
            Inl (Errorf (''requestFileProvidersFrom: remote error: '' @ msg_Error resp))
          else Inr (msg_Providers resp))"

definition requestFileProvidersFrom ::
  "codec \<Rightarrow> sched list \<Rightarrow> ('s, 't) Service \<Rightarrow> bytes result \<Rightarrow> time \<Rightarrow> string \<Rightarrow> ChunkID \<Rightarrow>
   (Contact list result \<times> ('s, 't) Service) option" where
  "requestFileProvidersFrom cd xs sv rnd now addr root =
     (case MustRandomID rnd of
        None \<Rightarrow> None
      | Some i \<Rightarrow>
          (case cd_Encode cd ((request_msg sv MsgGetFileProviders now (ID_String i))\<lparr>msg_FileRoot := ChunkID_String root\<rparr>) of
             Inl e \<Rightarrow> Some (Inl (Wrapf ''requestFileProvidersFrom: encode: '' e), sv)
           | Inr payload \<Rightarrow>
               (case do_request cd xs sv addr (ID_String i) payload of
                  None \<Rightarrow> None
                | Some (out, sv') \<Rightarrow> Some (requestFileProvidersFrom_result out, sv'))))"

definition FetchFileMetaFromProvider ::
  "codec \<Rightarrow> sched list \<Rightarrow> ('s, 't) Service \<Rightarrow> bytes result \<Rightarrow> time \<Rightarrow> string \<Rightarrow> ChunkID \<Rightarrow>
   (FileMeta result \<times> ('s, 't) Service) option" where
  "FetchFileMetaFromProvider cd xs sv rnd now addr root =
     (case MustRandomID rnd of
        None \<Rightarrow> None
      | Some i \<Rightarrow>
          (case cd_Encode cd ((request_msg sv MsgGetFileMeta now (ID_String i))\<lparr>msg_FileRoot := ChunkID_String root\<rparr>) of
             Inl e \<Rightarrow> Some (Inl (Wrapf ''FetchFileMetaFromProvider: encode: '' e), sv)
           | Inr payload \<Rightarrow>
               (case do_request cd xs sv addr (ID_String i) payload of
                  None \<Rightarrow> None
                | Some (SendFailed e, sv') \<Rightarrow> Some (Inl (Wrapf ''FetchFileMetaFromProvider: send: '' e), sv')
                | Some (TimedOut, sv') \<Rightarrow>
                    Some (Inl (Errorf ''FetchFileMetaFromProvider: timeout waiting for response''), sv')
                | Some (Got None, sv') \<Rightarrow> Some (Inl (Errorf ''FetchFileMetaFromProvider: nil response''), sv')
                | Some (Got (Some resp), sv') \<Rightarrow>
                    if msg_Error resp \<noteq> [] then
                      Some (Inl (Errorf (''FetchFileMetaFromProvider: remote error: '' @ msg_Error resp)), sv')
                    else (case msg_FileMeta resp of
                            None \<Rightarrow> Some (Inl (Errorf ''FetchFileMetaFromProvider: missing FileMeta in response''), sv')
                          | Some m \<Rightarrow> Some (Inr m, sv')))))"

section \<open>The invariant of the pending table\<close>

text \<open>Every pending channel is open and empty, and belongs to one request only.\<close>

definition sv_inv :: "('s, 't) Service \<Rightarrow> bool" where
  "sv_inv sv \<longleftrightarrow>
     (\<forall>r c. sv_pending sv r = Some c \<longrightarrow>
        c < length (sv_chans sv) \<and> sv_chans sv ! c = \<lparr>ch_buf = [], ch_closed = False\<rparr>) \<and>
     (\<forall>r r' c. sv_pending sv r = Some c \<longrightarrow> sv_pending sv r' = Some c \<longrightarrow> r = r')"

text \<open>The two parts of the state that the protocol is about.\<close>

definition same_table :: "('s, 't) Service \<Rightarrow> ('s, 't) Service \<Rightarrow> bool" where
  "same_table sv sv' \<longleftrightarrow> sv_pending sv' = sv_pending sv \<and> sv_chans sv' = sv_chans sv"

lemma sv_inv_same: "same_table sv sv' \<Longrightarrow> sv_inv sv' = sv_inv sv"
  by (simp add: same_table_def sv_inv_def)

lemma sv_Send_same [simp]: "sv_Send sv a p = (e, sv') \<Longrightarrow> same_table sv sv'"
  by (auto simp: sv_Send_def same_table_def split: prod.splits)

lemma readLoop_node_same: "same_table sv (readLoop_node cd sv clk rpc)"
  by (auto simp: readLoop_node_def same_table_def sv_Send_def Let_def split: result_splits)

lemma sv_inv_New [simp]: "sv_inv (NewService i T ts store ss)"
  by (simp add: sv_inv_def NewService_def)

lemma registerPending_tables:
  assumes "registerPending sv r = (c, sv')"
  shows "c = length (sv_chans sv)" and "sv_chans sv' = sv_chans sv @ [\<lparr>ch_buf = [], ch_closed = False\<rparr>]"
    and "sv_pending sv' = (sv_pending sv)(r := Some (length (sv_chans sv)))"
  using assms by (auto simp: registerPending_def Let_def)

lemma sv_inv_pending:
  assumes "sv_inv sv" and "sv_pending sv r = Some c"
  shows "c < length (sv_chans sv)" and "sv_chans sv ! c = \<lparr>ch_buf = [], ch_closed = False\<rparr>"
    and "sv_pending sv r' = Some c \<Longrightarrow> r' = r"
  using assms by (auto simp: sv_inv_def)

lemma registerPending_inv:
  assumes "sv_inv sv" and "registerPending sv r = (c, sv')"
  shows "sv_inv sv'"
proof -
  note inv = sv_inv_pending [OF assms(1)]
  have fresh: "sv_pending sv x \<noteq> Some (length (sv_chans sv))" for x using inv(1) by blast
  show ?thesis unfolding sv_inv_def registerPending_tables [OF assms(2)]
  proof (intro conjI allI impI)
    fix x y assume p: "((sv_pending sv)(r := Some (length (sv_chans sv)))) x = Some y"
    show "y < length (sv_chans sv @ [\<lparr>ch_buf = [], ch_closed = False\<rparr>])"
      using p inv(1) [of x y] by (auto split: if_splits)
    show "(sv_chans sv @ [\<lparr>ch_buf = [], ch_closed = False\<rparr>]) ! y = \<lparr>ch_buf = [], ch_closed = False\<rparr>"
      using p inv(1,2) [of x y] by (auto simp: nth_append split: if_splits)
  next
    fix x x' y
    assume "((sv_pending sv)(r := Some (length (sv_chans sv)))) x = Some y"
      and "((sv_pending sv)(r := Some (length (sv_chans sv)))) x' = Some y"
    then show "x = x'" using fresh inv(3) [of x y x'] by (auto split: if_splits)
  qed
qed

text \<open>Removing an entry and settling its channel.\<close>

definition settle :: "('s, 't) Service \<Rightarrow> string \<Rightarrow> nat \<Rightarrow> Message list \<Rightarrow> ('s, 't) Service" where
  "settle sv r c ms =
     sv\<lparr>sv_pending := (sv_pending sv)(r := None), sv_chans := (sv_chans sv)[c := \<lparr>ch_buf = ms, ch_closed = True\<rparr>]\<rparr>"

lemma settle_inv: "sv_inv sv \<Longrightarrow> sv_pending sv r = Some c \<Longrightarrow> sv_inv (settle sv r c ms)"
  by (auto simp: sv_inv_def settle_def nth_list_update split: if_splits)

lemma drop_pending_eq:
  "sv_inv sv \<Longrightarrow> drop_pending sv r =
     Some (case sv_pending sv r of None \<Rightarrow> sv | Some c \<Rightarrow> settle sv r c [])"
  by (auto simp: sv_inv_def drop_pending_def takePending_def chan_close_def settle_def Let_def split: option.splits)

lemma readLoop_step_eq:
  assumes "sv_inv sv"
  shows "readLoop_step cd sv clk rpc = Some
    (case cd_Decode cd (rpc_Payload rpc) of
       Inl _ \<Rightarrow> sv
     | Inr msg \<Rightarrow>
         (case (if msg_RequestID msg \<noteq> [] \<and> isResponseType (msg_Type msg) then sv_pending sv (msg_RequestID msg) else None) of
            Some c \<Rightarrow> settle sv (msg_RequestID msg) c [msg]
          | None \<Rightarrow> readLoop_node cd sv clk rpc))"
  using assms
  by (auto simp: sv_inv_def readLoop_step_def takePending_def chan_send_def chan_close_def settle_def Let_def
      split: sum.splits option.splits)

lemma readLoop_step_inv:
  assumes "sv_inv sv"
  obtains sv' where "readLoop_step cd sv clk rpc = Some sv'" and "sv_inv sv'"
  using assms sv_inv_same [OF readLoop_node_same, of cd sv clk rpc]
  by (auto simp: readLoop_step_eq settle_inv split: sum.splits option.splits if_splits)

section \<open>Requests\<close>

text \<open>
  What holds of a request in flight: only its own identifier leads to its channel; while it
  waits, either the entry is pending or exactly one response has been delivered.
\<close>

definition rq_live :: "('s, 't) Service \<Rightarrow> string \<Rightarrow> nat \<Rightarrow> bool" where
  "rq_live sv i c \<longleftrightarrow>
     c < length (sv_chans sv) \<and> (\<forall>r. sv_pending sv r = Some c \<longrightarrow> r = i) \<and>
     (sv_pending sv i = Some c \<or>
      (\<exists>m. sv_chans sv ! c = \<lparr>ch_buf = [m], ch_closed = True\<rparr> \<and>
         msg_RequestID m = i \<and> isResponseType (msg_Type m)))"

definition rq_ok :: "('s, 't) Service \<Rightarrow> request \<Rightarrow> bool" where
  "rq_ok sv q \<longleftrightarrow>
     (case rq_state q of
        RFresh \<Rightarrow> True
      | RRegistered c \<Rightarrow> rq_live sv (rq_id q) c
      | RWaiting c \<Rightarrow> rq_live sv (rq_id q) c
      | RDone out \<Rightarrow>
          (\<forall>m. out = Got m \<longrightarrow> (\<exists>x. m = Some x \<and> msg_RequestID x = rq_id q \<and> isResponseType (msg_Type x))))"

definition rqs_ok :: "('s, 't) Service \<Rightarrow> request list \<Rightarrow> bool" where
  "rqs_ok sv qs \<longleftrightarrow> sv_inv sv \<and> distinct (map rq_id qs) \<and> (\<forall>q \<in> set qs. rq_ok sv q)"

lemma rq_live_same: "same_table sv sv' \<Longrightarrow> rq_live sv' i c = rq_live sv i c"
  by (simp add: same_table_def rq_live_def)

lemma rq_live_register:
  assumes "rq_live sv i c" and "registerPending sv r = (c', sv')" and "r \<noteq> i"
  shows "rq_live sv' i c"
  using assms(1,3) by (auto simp: rq_live_def registerPending_tables [OF assms(2)] nth_append)

lemma rq_live_registered:
  assumes "sv_inv sv" and "registerPending sv i = (c, sv')"
  shows "rq_live sv' i c"
proof -
  have "sv_pending sv r \<noteq> Some (length (sv_chans sv))" for r
    using assms(1) by (auto simp: sv_inv_def)
  then show ?thesis by (auto simp: rq_live_def registerPending_tables [OF assms(2)] split: if_splits)
qed

lemma rq_live_settle_other:
  assumes "rq_live sv i c" and "sv_pending sv r = Some c'" and "r \<noteq> i"
  shows "rq_live (settle sv r c' ms) i c"
proof -
  have "c' \<noteq> c" using assms by (auto simp: rq_live_def)
  then show ?thesis using assms by (auto simp: rq_live_def settle_def)
qed

lemma rq_live_settle_own:
  assumes "rq_live sv i c" and "sv_pending sv i = Some c'"
    and "msg_RequestID m = i" and "isResponseType (msg_Type m)"
  shows "rq_live (settle sv i c' [m]) i c"
proof (cases "c' = c")
  case True
  then have "sv_chans (settle sv i c' [m]) ! c = \<lparr>ch_buf = [m], ch_closed = True\<rparr>"
    and "sv_pending (settle sv i c' [m]) r \<noteq> Some c" for r
    using assms(1) by (auto simp: rq_live_def settle_def)
  then show ?thesis using assms by (simp add: rq_live_def settle_def)
next
  case False
  then show ?thesis using assms(1,2) unfolding rq_live_def settle_def by simp
qed

lemma rq_ok_mono:
  assumes "rq_ok sv q" and "\<And>c. rq_live sv (rq_id q) c \<Longrightarrow> rq_live sv' (rq_id q) c"
  shows "rq_ok sv' q"
  using assms by (auto simp: rq_ok_def split: req_state.splits)

lemma readLoop_step_cases:
  assumes "sv_inv sv" and "readLoop_step cd sv clk rpc = Some sv'"
  obtains "same_table sv sv'"
    | msg c where "isResponseType (msg_Type msg)" "sv_pending sv (msg_RequestID msg) = Some c"
        "sv' = settle sv (msg_RequestID msg) c [msg]"
proof (cases "cd_Decode cd (rpc_Payload rpc)")
  case (Inl e)
  then show ?thesis using assms that(1) by (simp add: readLoop_step_eq same_table_def)
next
  case (Inr msg)
  show ?thesis
  proof (cases "if msg_RequestID msg \<noteq> [] \<and> isResponseType (msg_Type msg) then sv_pending sv (msg_RequestID msg) else None")
    case None
    then have "sv' = readLoop_node cd sv clk rpc" using Inr assms by (simp add: readLoop_step_eq)
    then show ?thesis using that(1) readLoop_node_same by blast
  next
    case (Some c)
    then have "sv' = settle sv (msg_RequestID msg) c [msg]" using Inr assms by (simp add: readLoop_step_eq)
    with Some show ?thesis using that(2) by (simp split: if_splits)
  qed
qed

lemma rqs_ok_loop:
  assumes "rqs_ok sv qs" and "readLoop_step cd sv clk rpc = Some sv'"
  shows "rqs_ok sv' qs"
proof -
  have inv: "sv_inv sv" using assms(1) by (simp add: rqs_ok_def)
  consider (same) "same_table sv sv'"
    | (deliver) msg c where "isResponseType (msg_Type msg)" "sv_pending sv (msg_RequestID msg) = Some c"
        "sv' = settle sv (msg_RequestID msg) c [msg]"
    by (rule readLoop_step_cases [OF inv assms(2)])
  then show ?thesis
  proof cases
    case same
    then show ?thesis using assms(1) rq_live_same [OF same]
      by (auto simp: rqs_ok_def sv_inv_same intro: rq_ok_mono)
  next
    case deliver
    have "rq_ok sv' q" if "q \<in> set qs" for q
    proof (rule rq_ok_mono)
      show "rq_ok sv q" using assms(1) that by (simp add: rqs_ok_def)
      show "rq_live sv' (rq_id q) c'" if "rq_live sv (rq_id q) c'" for c'
        using that deliver by (cases "msg_RequestID msg = rq_id q")
          (auto intro: rq_live_settle_own rq_live_settle_other)
    qed
    then show ?thesis using assms(1) settle_inv [OF inv deliver(2)] deliver(3) by (simp add: rqs_ok_def)
  qed
qed

lemma drop_pending_other:
  assumes "sv_inv sv" and "drop_pending sv r = Some sv'" and "rq_live sv i c" and "r \<noteq> i"
  shows "rq_live sv' i c"
  using assms by (auto simp: drop_pending_eq intro: rq_live_settle_other split: option.splits)

lemma drop_pending_inv: "sv_inv sv \<Longrightarrow> drop_pending sv r = Some sv' \<Longrightarrow> sv_inv sv'"
  by (auto simp: drop_pending_eq settle_inv split: option.splits)

text \<open>A step of one request: it succeeds, keeps the invariant, and does not disturb the others.\<close>

lemma request_step_ok:
  assumes inv: "sv_inv sv" and q: "rq_ok sv q"
  shows "\<exists>q' sv'. request_step sv q timer = Some (q', sv') \<and> sv_inv sv' \<and> rq_ok sv' q' \<and> rq_id q' = rq_id q \<and>
    (\<forall>i c. i \<noteq> rq_id q \<longrightarrow> rq_live sv i c \<longrightarrow> rq_live sv' i c)"
proof (cases "rq_state q")
  case RFresh
  obtain c sv' where reg: "registerPending sv (rq_id q) = (c, sv')" by fastforce
  show ?thesis
    using RFresh reg registerPending_inv [OF inv reg] rq_live_registered [OF inv reg] rq_live_register [OF _ reg]
    by (auto simp: request_step_def rq_ok_def)
next
  case (RRegistered c)
  obtain e sv1 where send: "sv_Send sv (rq_addr q) (rq_payload q) = (e, sv1)" by fastforce
  note same = sv_Send_same [OF send]
  have inv1: "sv_inv sv1" using inv sv_inv_same [OF same] by simp
  obtain sv2 where drop: "drop_pending sv1 (rq_id q) = Some sv2" using drop_pending_eq [OF inv1] by blast
  show ?thesis
    using RRegistered send q inv1 drop drop_pending_inv [OF inv1 drop] drop_pending_other [OF inv1 drop]
      rq_live_same [OF same]
    by (cases e) (auto simp: request_step_def rq_ok_def)
next
  case (RWaiting c)
  obtain sv1 where drop: "drop_pending sv (rq_id q) = Some sv1" using drop_pending_eq [OF inv] by blast
  have live: "rq_live sv (rq_id q) c" using q RWaiting by (simp add: rq_ok_def)
  show ?thesis
  proof (cases "timer \<or> \<not> chan_ready sv c")
    case True
    then show ?thesis
      using RWaiting q inv drop drop_pending_inv [OF inv drop] drop_pending_other [OF inv drop]
      by (cases timer) (auto simp: request_step_def rq_ok_def)
  next
    case False
    then have "sv_pending sv (rq_id q) \<noteq> Some c" using inv by (auto simp: chan_ready_def sv_inv_def)
    with live obtain m where m: "sv_chans sv ! c = \<lparr>ch_buf = [m], ch_closed = True\<rparr>"
      "msg_RequestID m = rq_id q" "isResponseType (msg_Type m)" and c: "c < length (sv_chans sv)"
      and none: "\<And>r. sv_pending sv r \<noteq> Some c"
      by (auto simp: rq_live_def)
    define sv1 where "sv1 = sv\<lparr>sv_chans := (sv_chans sv)[c := \<lparr>ch_buf = [], ch_closed = True\<rparr>]\<rparr>"
    have "request_step sv q timer = Some (q\<lparr>rq_state := RDone (Got (Some m))\<rparr>, sv1)"
      using False RWaiting m by (simp add: request_step_def chan_recv_def sv1_def Let_def)
    moreover have "sv_inv sv1"
      using inv none unfolding sv_inv_def sv1_def by simp (metis nth_list_update_neq)
    moreover have "rq_live sv1 i c'" if "rq_live sv i c'" "i \<noteq> rq_id q" for i c'
    proof -
      have "c' \<noteq> c" using that m(1,2) none by (auto simp: rq_live_def)
      then show ?thesis using that(1) by (simp add: rq_live_def sv1_def)
    qed
    ultimately show ?thesis using m by (auto simp: rq_ok_def)
  qed
next
  case (RDone out)
  then show ?thesis using inv q by (auto simp: request_step_def)
qed

lemma rqs_ok_step:
  assumes "rqs_ok sv qs" and "i < length qs"
  shows "\<exists>q' sv'. request_step sv (qs ! i) timer = Some (q', sv') \<and> rqs_ok sv' (qs[i := q'])"
proof -
  have inv: "sv_inv sv" and d: "distinct (map rq_id qs)" and q: "rq_ok sv (qs ! i)"
    using assms by (auto simp: rqs_ok_def)
  from request_step_ok [OF inv q, of timer] obtain q' sv' where
    step: "request_step sv (qs ! i) timer = Some (q', sv')" "sv_inv sv'" "rq_ok sv' q'" "rq_id q' = rq_id (qs ! i)"
    and frame: "\<And>j c. j \<noteq> rq_id (qs ! i) \<Longrightarrow> rq_live sv j c \<Longrightarrow> rq_live sv' j c"
    by blast
  have "map rq_id (qs[i := q']) = map rq_id qs"
    using step(4) assms(2) by (simp add: map_update list_update_same_conv)
  moreover have "rq_ok sv' (qs[i := q'] ! j)" if "j < length qs" for j
  proof (cases "j = i")
    case False
    then have "rq_id (qs ! j) \<noteq> rq_id (qs ! i)" using d that assms(2) by (metis length_map nth_eq_iff_index_eq nth_map)
    moreover have "rq_ok sv (qs ! j)" using assms(1) that by (simp add: rqs_ok_def)
    ultimately show ?thesis using False frame rq_ok_mono by (metis nth_list_update_neq)
  qed (use step assms(2) in simp)
  ultimately have "rqs_ok sv' (qs[i := q'])"
    using step(2) d by (auto simp: rqs_ok_def in_set_conv_nth)
  with step(1) show ?thesis by blast
qed

lemma run_sched_ok:
  "rqs_ok sv qs \<Longrightarrow> \<exists>qs' sv'. run_sched cd xs qs sv = Some (qs', sv') \<and> rqs_ok sv' qs' \<and> map rq_id qs' = map rq_id qs"
proof (induction cd xs qs sv rule: run_sched.induct)
  case (2 cd clk rpc xs qs sv)
  then have "sv_inv sv" by (simp add: rqs_ok_def)
  then obtain sv' where sv': "readLoop_step cd sv clk rpc = Some sv'" by (rule readLoop_step_inv)
  with 2 rqs_ok_loop show ?case by fastforce
next
  case (3 cd i timer xs qs sv)
  show ?case
  proof (cases "i < length qs")
    case True
    obtain q' sv' where s: "request_step sv (qs ! i) timer = Some (q', sv')" "rqs_ok sv' (qs[i := q'])"
      using rqs_ok_step [OF "3.prems" True] by blast
    have "rq_id q' = rq_id (qs ! i)" using s(1) "3.prems" True request_step_ok [of sv "qs ! i" timer]
      by (auto simp: rqs_ok_def)
    then have "map rq_id (qs[i := q']) = map rq_id qs"
      using True by (simp add: map_update list_update_same_conv)
    then show ?thesis using s True "3.IH"(1) [OF True s(1)] by auto
  qed (use 3 in simp)
qed simp

section \<open>Progress and delivery\<close>

definition loops :: "((nat \<Rightarrow> time) \<times> RPC) list \<Rightarrow> sched list" where
  "loops evs = map (\<lambda>(clk, rpc). Loop clk rpc) evs"

lemma run_sched_append:
  "run_sched cd (xs @ ys) qs sv =
     (case run_sched cd xs qs sv of None \<Rightarrow> None | Some (qs', sv') \<Rightarrow> run_sched cd ys qs' sv')"
  by (induction cd xs qs sv rule: run_sched.induct) (auto split: option.splits prod.splits)

text \<open>The read loop alone does not move a request.\<close>

lemma run_loops:
  assumes "rqs_ok sv qs"
  shows "\<exists>sv'. run_sched cd (loops evs) qs sv = Some (qs, sv') \<and> rqs_ok sv' qs"
  using assms
proof (induction evs arbitrary: sv)
  case (Cons e evs)
  obtain clk rpc where e: "e = (clk, rpc)" by fastforce
  have "sv_inv sv" using Cons.prems by (simp add: rqs_ok_def)
  then obtain sv1 where "readLoop_step cd sv clk rpc = Some sv1" by (rule readLoop_step_inv)
  with Cons.IH [OF rqs_ok_loop [OF Cons.prems this]] e show ?case by (simp add: loops_def)
qed (simp add: loops_def)

lemma request_step_fresh:
  "rq_state q = RFresh \<Longrightarrow>
   request_step sv q timer = Some (q\<lparr>rq_state := RRegistered (length (sv_chans sv))\<rparr>, snd (registerPending sv (rq_id q)))"
  by (simp add: request_step_def registerPending_def Let_def)

lemma request_step_registered:
  assumes "sv_inv sv" and "rq_state q = RRegistered c"
  shows "\<exists>q' sv'. request_step sv q timer = Some (q', sv') \<and>
    (rq_state q' = RWaiting c \<and> (\<exists>ts. tp_Send (sv_transport sv) (sv_ts sv) (rq_addr q) (payload_rpc (rq_payload q)) = (None, ts)) \<or>
     (\<exists>e ts. tp_Send (sv_transport sv) (sv_ts sv) (rq_addr q) (payload_rpc (rq_payload q)) = (Some e, ts) \<and>
        rq_state q' = RDone (SendFailed e)))"
proof -
  obtain e ts where send: "tp_Send (sv_transport sv) (sv_ts sv) (rq_addr q) (payload_rpc (rq_payload q)) = (e, ts)"
    by fastforce
  have "sv_inv (sv\<lparr>sv_ts := ts\<rparr>)" using assms(1) by (simp add: sv_inv_def)
  from drop_pending_eq [OF this, of "rq_id q"] send assms(2) show ?thesis
    by (cases e) (simp_all add: request_step_def sv_Send_def)
qed

lemma request_step_timer:
  assumes "sv_inv sv" and "rq_state q = RWaiting c"
  shows "\<exists>sv'. request_step sv q True = Some (q\<lparr>rq_state := RDone TimedOut\<rparr>, sv')"
  using assms drop_pending_eq [OF assms(1), of "rq_id q"] by (simp add: request_step_def)

text \<open>
  A request ends: two steps register and send it, the third takes a response that is there
  or waits on, and the last finds the timer fired.
\<close>

definition request_sched :: "bool \<Rightarrow> ((nat \<Rightarrow> time) \<times> RPC) list \<Rightarrow> ((nat \<Rightarrow> time) \<times> RPC) list \<Rightarrow> ((nat \<Rightarrow> time) \<times> RPC) list \<Rightarrow> sched list" where
  "request_sched t e1 e2 e3 = Step 0 False # loops e1 @ Step 0 False # loops e2 @ Step 0 t # loops e3 @ [Step 0 True]"

lemma request_step_moves:
  assumes "sv_inv sv" and "(\<exists>c. rq_state q = RWaiting c) \<or> (\<exists>x. rq_state q = RDone x)"
  shows "\<exists>q' sv'. request_step sv q t = Some (q', sv') \<and>
    (if t then \<exists>x. rq_state q' = RDone x else (\<exists>c. rq_state q' = RWaiting c) \<or> (\<exists>x. rq_state q' = RDone x))"
  using assms(2)
proof (elim disjE exE)
  fix c assume c: "rq_state q = RWaiting c"
  show ?thesis
  proof (cases t)
    case True
    then show ?thesis using request_step_timer [OF assms(1) c] by auto
  next
    case False
    then show ?thesis using c by (cases "chan_ready sv c") (auto simp: request_step_def split: prod.split)
  qed
next
  fix x assume "rq_state q = RDone x"
  then show ?thesis by (auto simp: request_step_def)
qed

lemma do_request_finishes:
  assumes inv: "sv_inv sv"
  shows "\<exists>out sv'. do_request cd (request_sched t e1 e2 e3) sv addr reqID payload = Some (out, sv') \<and> sv_inv sv'"
proof -
  define q where "q = \<lparr>rq_addr = addr, rq_id = reqID, rq_payload = payload, rq_state = RFresh\<rparr>"
  have ok: "rqs_ok sv [q]" using inv by (simp add: rqs_ok_def rq_ok_def q_def)
  obtain sv1 where s1: "request_step sv q False = Some (q\<lparr>rq_state := RRegistered (length (sv_chans sv))\<rparr>, sv1)"
    by (simp add: request_step_fresh q_def)
  define q1 where "q1 = q\<lparr>rq_state := RRegistered (length (sv_chans sv))\<rparr>"
  have ok1: "rqs_ok sv1 [q1]" using rqs_ok_step [OF ok, of 0 False] s1 by (simp add: q1_def)
  obtain sv2 where s2: "run_sched cd (loops e1) [q1] sv1 = Some ([q1], sv2)" and ok2: "rqs_ok sv2 [q1]"
    using run_loops [OF ok1] by blast
  obtain q3 sv3 where s3: "request_step sv2 q1 False = Some (q3, sv3)"
    and st3: "(\<exists>c. rq_state q3 = RWaiting c) \<or> (\<exists>x. rq_state q3 = RDone x)"
    using request_step_registered [of sv2 q1 _ False] ok2 by (force simp: rqs_ok_def q1_def)
  have ok3: "rqs_ok sv3 [q3]" using rqs_ok_step [OF ok2, of 0 False] s3 by simp
  obtain sv4 where s4: "run_sched cd (loops e2) [q3] sv3 = Some ([q3], sv4)" and ok4: "rqs_ok sv4 [q3]"
    using run_loops [OF ok3] by blast
  obtain q5 sv5 where s5: "request_step sv4 q3 t = Some (q5, sv5)"
    and st5: "(\<exists>c. rq_state q5 = RWaiting c) \<or> (\<exists>x. rq_state q5 = RDone x)"
    using request_step_moves [OF _ st3, of sv4 t] ok4 by (auto simp: rqs_ok_def split: if_splits)
  have ok5: "rqs_ok sv5 [q5]" using rqs_ok_step [OF ok4, of 0 t] s5 by simp
  obtain sv6 where s6: "run_sched cd (loops e3) [q5] sv5 = Some ([q5], sv6)" and ok6: "rqs_ok sv6 [q5]"
    using run_loops [OF ok5] by blast
  obtain q7 sv7 where s7: "request_step sv6 q5 True = Some (q7, sv7)" and st7: "\<exists>x. rq_state q7 = RDone x"
    using request_step_moves [OF _ st5, of sv6 True] ok6 by (auto simp: rqs_ok_def)
  have "rqs_ok sv7 [q7]" using rqs_ok_step [OF ok6, of 0 True] s7 by simp
  then have "sv_inv sv7" by (simp add: rqs_ok_def)
  with s1 s2 s3 s4 s5 s6 s7 st7 show ?thesis
    by (auto simp: do_request_def request_sched_def run_sched_append q_def [symmetric] q1_def [symmetric])
qed

text \<open>A response that arrives while the request waits is its result.\<close>

lemma do_request_delivers:
  assumes inv: "sv_inv sv" and send: "tp_Send (sv_transport sv) (sv_ts sv) addr (payload_rpc payload) = (None, ts)"
    and msg: "cd_Decode cd (rpc_Payload rpc) = Inr m" "msg_RequestID m = reqID" "reqID \<noteq> []" "isResponseType (msg_Type m)"
  shows "\<exists>sv'. do_request cd [Step 0 False, Step 0 False, Loop clk rpc, Step 0 False] sv addr reqID payload =
      Some (Got (Some m), sv') \<and> sv_inv sv' \<and> sv_transport sv' = sv_transport sv \<and>
    sv_node sv' = sv_node sv \<and> sv_ss sv' = sv_ss sv \<and> sv_pending sv' = (sv_pending sv)(reqID := None)"
proof -
  let ?c = "length (sv_chans sv)"
  define sv1 where "sv1 = (snd (registerPending sv reqID))\<lparr>sv_ts := ts\<rparr>"
  have pend: "sv_pending sv1 reqID = Some ?c" and chans: "length (sv_chans sv1) = Suc ?c"
    by (simp_all add: sv1_def registerPending_def Let_def)
  have inv1: "sv_inv sv1"
  proof -
    have "sv_inv (snd (registerPending sv reqID))" using registerPending_inv [OF inv] by (metis prod.collapse)
    moreover have "same_table (snd (registerPending sv reqID)) sv1" by (simp add: sv1_def same_table_def)
    ultimately show ?thesis by (simp add: sv_inv_same)
  qed
  have loop: "readLoop_step cd sv1 clk rpc = Some (settle sv1 reqID ?c [m])"
    using msg pend by (simp add: readLoop_step_eq [OF inv1])
  have ch: "sv_chans (settle sv1 reqID ?c [m]) ! ?c = \<lparr>ch_buf = [m], ch_closed = True\<rparr>"
    using chans by (simp add: settle_def)
  define q where "q = \<lparr>rq_addr = addr, rq_id = reqID, rq_payload = payload, rq_state = RFresh\<rparr>"
  define sv2 where "sv2 = settle sv1 reqID ?c [m]"
  define sv3 where "sv3 = sv2\<lparr>sv_chans := (sv_chans sv2)[?c := \<lparr>ch_buf = [], ch_closed = True\<rparr>]\<rparr>"
  have s1: "request_step sv q False = Some (q\<lparr>rq_state := RRegistered ?c\<rparr>, snd (registerPending sv reqID))"
    by (simp add: request_step_fresh q_def)
  have s2: "request_step (snd (registerPending sv reqID)) (q\<lparr>rq_state := RRegistered ?c\<rparr>) False =
      Some (q\<lparr>rq_state := RWaiting ?c\<rparr>, sv1)"
    using send by (simp add: request_step_def sv_Send_def q_def sv1_def registerPending_def Let_def)
  have s4: "request_step sv2 (q\<lparr>rq_state := RWaiting ?c\<rparr>) False = Some (q\<lparr>rq_state := RDone (Got (Some m))\<rparr>, sv3)"
    using ch by (simp add: request_step_def chan_ready_def chan_recv_def Let_def sv2_def sv3_def)
  have "do_request cd [Step 0 False, Step 0 False, Loop clk rpc, Step 0 False] sv addr reqID payload =
      Some (Got (Some m), sv3)"
    using s1 s2 loop s4 by (simp add: do_request_def flip: q_def sv2_def)
  moreover have "sv_transport sv3 = sv_transport sv" "sv_node sv3 = sv_node sv" "sv_ss sv3 = sv_ss sv"
    "sv_pending sv3 = (sv_pending sv)(reqID := None)"
    by (simp_all add: sv3_def sv2_def settle_def sv1_def registerPending_def Let_def)
  moreover have "sv_inv sv3"
    using run_sched_ok [of sv "[q]" cd "[Step 0 False, Step 0 False, Loop clk rpc, Step 0 False]"] inv s1 s2 loop s4
    by (auto simp: rqs_ok_def rq_ok_def q_def [symmetric] sv2_def [symmetric]) (simp add: q_def)
  ultimately show ?thesis by blast
qed

section \<open>Properties\<close>

text \<open>A transport that accepts everything and a codec that knows one response, for the witnesses.\<close>

definition sink_transport :: "unit Transport" where
  "sink_transport =
     \<lparr>tp_Addr = (\<lambda>_. ''me''), tp_ListenAndAccept = (\<lambda>t. (None, t)), tp_Dial = (\<lambda>t a. (None, t)),
      tp_Send = (\<lambda>t a r. (None, t)), tp_Close = (\<lambda>t. (None, t))\<rparr>"

definition one_response :: Message where
  "one_response = Message_zero\<lparr>msg_Type := MsgChunkData, msg_RequestID := ''r'', msg_ChunkData := Some [1]\<rparr>"

definition demo_codec :: codec where
  "demo_codec = \<lparr>cd_Encode = (\<lambda>m. Inr []), cd_Decode = (\<lambda>b. Inr one_response)\<rparr>"

definition demo_service :: "(os, unit) Service" where
  "demo_service = NewService ID_zero sink_transport () (Some (FSStore \<lparr>baseDir = ''d''\<rparr>)) one_dir"

lemma demo_service_inv [simp]: "sv_inv demo_service"
  by (simp add: demo_service_def)

text \<open>
  C21: whatever requests with different identifiers run at the same time, interleaved in any way with
  each other, with the timers and with the read loop, and whatever RPCs arrive: no goroutine
  panics (no send on a closed channel, no channel closed twice) and none blocks on a channel;
  and a request that ends with a response has a response of a response type that carries its
  own identifier, never \<^verbatim>\<open>nil\<close> and never the response to another request.
\<close>

theorem requests_correlated:
  assumes "sv_inv sv" and "distinct (map rq_id qs)" and "\<forall>q \<in> set qs. rq_state q = RFresh"
  shows "\<exists>qs' sv'. run_sched cd xs qs sv = Some (qs', sv') \<and> sv_inv sv' \<and> map rq_id qs' = map rq_id qs \<and>
    (\<forall>q \<in> set qs'. \<forall>m. rq_state q = RDone (Got m) \<longrightarrow>
       (\<exists>x. m = Some x \<and> msg_RequestID x = rq_id q \<and> isResponseType (msg_Type x)))"
proof -
  have "rqs_ok sv qs" using assms by (simp add: rqs_ok_def rq_ok_def)
  from run_sched_ok [OF this, of cd xs] obtain qs' sv' where
    run: "run_sched cd xs qs sv = Some (qs', sv')" "rqs_ok sv' qs'" "map rq_id qs' = map rq_id qs"
    by blast
  have "\<forall>q \<in> set qs'. \<forall>m. rq_state q = RDone (Got m) \<longrightarrow>
      (\<exists>x. m = Some x \<and> msg_RequestID x = rq_id q \<and> isResponseType (msg_Type x))"
    using run(2) by (fastforce simp: rqs_ok_def rq_ok_def)
  with run show ?thesis by (auto simp: rqs_ok_def)
qed

theorem requests_correlated_witness:
  "\<exists>qs' sv'. run_sched demo_codec [Step 0 False, Step 1 False, Step 1 False, Loop (\<lambda>_. 0) (payload_rpc []), Step 0 False, Step 1 True]
     [\<lparr>rq_addr = ''a'', rq_id = ''r'', rq_payload = [], rq_state = RFresh\<rparr>,
      \<lparr>rq_addr = ''b'', rq_id = ''s'', rq_payload = [], rq_state = RFresh\<rparr>] demo_service = Some (qs', sv')"
  using requests_correlated [OF demo_service_inv, of
      "[\<lparr>rq_addr = ''a'', rq_id = ''r'', rq_payload = [], rq_state = RFresh\<rparr>,
        \<lparr>rq_addr = ''b'', rq_id = ''s'', rq_payload = [], rq_state = RFresh\<rparr>]" demo_codec]
  by fastforce

text \<open>
  C22: a request always ends: after it has been registered and sent, at the latest when its timer
  fires, whatever the read loop does in between; the table of pending requests stays valid.
\<close>

theorem request_ends:
  assumes "sv_inv sv"
  shows "\<exists>out sv'. do_request cd (request_sched t e1 e2 e3) sv addr reqID payload = Some (out, sv') \<and> sv_inv sv'"
  by (rule do_request_finishes [OF assms])

theorem request_ends_witness:
  "\<exists>out sv'. do_request demo_codec (request_sched False [] [] []) demo_service ''a'' ''r'' [] = Some (out, sv')"
  using request_ends [OF demo_service_inv, of demo_codec False "[]" "[]" "[]" "''a''" "''r''" "[]"] by blast

text \<open>
  A response is delivered: when the send succeeds and the read loop then receives a message of a
  response type with the identifier of the request, the request returns that message; the
  message does not reach the node, and the identifier is free again.
\<close>

theorem response_delivered:
  assumes inv: "sv_inv sv" and send: "tp_Send (sv_transport sv) (sv_ts sv) addr (payload_rpc payload) = (None, ts)"
    and msg: "cd_Decode cd (rpc_Payload rpc) = Inr m" "msg_RequestID m = reqID" "reqID \<noteq> []" "isResponseType (msg_Type m)"
  shows "\<exists>sv'. do_request cd [Step 0 False, Step 0 False, Loop clk rpc, Step 0 False] sv addr reqID payload =
      Some (Got (Some m), sv') \<and>
    sv_node sv' = sv_node sv \<and> sv_ss sv' = sv_ss sv \<and> sv_pending sv' = (sv_pending sv)(reqID := None)"
  using do_request_delivers [OF assms, of clk] by blast

theorem response_delivered_witness:
  "\<exists>sv'. do_request demo_codec [Step 0 False, Step 0 False, Loop (\<lambda>_. 0) (payload_rpc []), Step 0 False] demo_service ''a'' ''r'' [] =
     Some (Got (Some one_response), sv')"
proof -
  have "tp_Send (sv_transport demo_service) (sv_ts demo_service) ''a'' (payload_rpc []) = (None, ())"
    by (simp add: demo_service_def NewService_def sink_transport_def)
  moreover have "cd_Decode demo_codec (rpc_Payload (payload_rpc [])) = Inr one_response"
    and "msg_RequestID one_response = ''r''" and "isResponseType (msg_Type one_response)"
    by (simp_all add: demo_codec_def one_response_def isResponseType_def)
  ultimately show ?thesis
    using response_delivered [OF demo_service_inv, of "''a''" "[]" "()" demo_codec "payload_rpc []" one_response "''r''" "\<lambda>_. 0"]
    by auto
qed

end
