(* ===== verification/Dht_Lookup.thy ===== *)
theory Dht_Lookup
  imports Dht_Service
begin

text \<open>
  \<^verbatim>\<open>internal/dht/client.go\<close> and the iterative lookup of \<^verbatim>\<open>internal/dht/lookup.go\<close> (the function
  that is compiled; the first part of that file is commented out). The RPCs that the read
  loop handles while a lookup runs are the argument \<open>ev\<close>: \<open>ev n j\<close> are those between the
  j-th \<^verbatim>\<open>FIND_NODE\<close> of a round and the next action, where \<open>n\<close> rounds remain; those of the
  500 ms pause follow the last send. \<open>clk n j\<close> is the clock at that send. The map \<^verbatim>\<open>queried\<close> is
  the list of its keys in the order of insertion.

  Lemmas: a lookup always returns, with the contacts closest to the target of the routing
  table at that moment; how many peers it asks, and which.
\<close>

section \<open>Single messages\<close>

definition SendPing :: "codec \<Rightarrow> ('s, 't) Service \<Rightarrow> time \<Rightarrow> string \<Rightarrow> go_error option \<times> ('s, 't) Service" where
  "SendPing cd sv now addr =
     (case cd_Encode cd (Message_zero\<lparr>msg_Type := MsgPing, msg_From := nd_id (sv_node sv), msg_Timestamp := Unix now\<rparr>) of
        Inl e \<Rightarrow> (Some e, sv)
      | Inr payload \<Rightarrow> sv_Send sv addr payload)"

definition SendFindNode ::
  "codec \<Rightarrow> ('s, 't) Service \<Rightarrow> time \<Rightarrow> string \<Rightarrow> ID \<Rightarrow> go_error option \<times> ('s, 't) Service" where
  "SendFindNode cd sv now addr target =
     (case cd_Encode cd (Message_zero\<lparr>msg_Type := MsgFindNode, msg_From := nd_id (sv_node sv), msg_Target := Some target,
             msg_Timestamp := Unix now\<rparr>) of
        Inl e \<Rightarrow> (Some e, sv)
      | Inr payload \<Rightarrow> sv_Send sv addr payload)"

section \<open>Lookup\<close>

type_synonym events = "((nat \<Rightarrow> time) \<times> RPC) list"

fun run_events :: "codec \<Rightarrow> events \<Rightarrow> ('s, 't) Service \<Rightarrow> ('s, 't) Service option" where
  "run_events cd [] sv = Some sv"
| "run_events cd ((clk, rpc) # es) sv =
     (case readLoop_step cd sv clk rpc of None \<Rightarrow> None | Some sv' \<Rightarrow> run_events cd es sv')"

definition maxRounds :: nat where
  "maxRounds = 5"

fun pick_query :: "string list \<Rightarrow> Contact list \<Rightarrow> Contact list \<Rightarrow> Contact list" where
  "pick_query queried [] toQuery = toQuery"
| "pick_query queried (c # cs) toQuery =
     (if length toQuery \<ge> Alpha then toQuery
      else if ct_Address c \<in> set queried then pick_query queried cs toQuery
      else pick_query queried cs (toQuery @ [c]))"

fun lookup_sends ::
  "codec \<Rightarrow> (nat \<Rightarrow> events) \<Rightarrow> (nat \<Rightarrow> time) \<Rightarrow> ID \<Rightarrow> nat \<Rightarrow> Contact list \<Rightarrow> string list \<Rightarrow> ('s, 't) Service \<Rightarrow>
   (string list \<times> ('s, 't) Service) option" where
  "lookup_sends cd ev clk target j [] queried sv = Some (queried, sv)"
| "lookup_sends cd ev clk target j (c # cs) queried sv =
     (case SendFindNode cd sv (clk j) (ct_Address c) target of
        (_, sv') \<Rightarrow>
          (case run_events cd (ev j) sv' of
             None \<Rightarrow> None
           | Some sv'' \<Rightarrow> lookup_sends cd ev clk target (Suc j) cs (queried @ [ct_Address c]) sv''))"

definition lookup_finish :: "('s, 't) Service \<Rightarrow> ID \<Rightarrow> Contact list result" where
  "lookup_finish sv target = FindClosest (nd_rt (sv_node sv)) target (int K)"

text \<open>\<open>prev\<close> stands for \<^verbatim>\<open>prevClosest\<close> and \<^verbatim>\<open>havePrev\<close>; the first argument counts the rounds left.\<close>

fun lookup_rounds ::
  "nat \<Rightarrow> codec \<Rightarrow> (nat \<Rightarrow> nat \<Rightarrow> events) \<Rightarrow> (nat \<Rightarrow> nat \<Rightarrow> time) \<Rightarrow> ID \<Rightarrow> string list \<Rightarrow> ID option \<Rightarrow>
   ('s, 't) Service \<Rightarrow> (Contact list result \<times> string list \<times> ('s, 't) Service) option" where
  "lookup_rounds 0 cd ev clk target queried prev sv = Some (lookup_finish sv target, queried, sv)"
| "lookup_rounds (Suc n) cd ev clk target queried prev sv =
     (case FindClosest (nd_rt (sv_node sv)) target (int K) of
        Inl e \<Rightarrow> Some (Inl e, queried, sv)
      | Inr [] \<Rightarrow> Some (Inr [], queried, sv)
      | Inr (c # cs) \<Rightarrow>
          if (case prev of None \<Rightarrow> False | Some p \<Rightarrow> ID_Equals (ct_ID c) p)
          then Some (lookup_finish sv target, queried, sv)
          else let toQuery = pick_query queried (c # cs) []
               in if length toQuery = 0 then Some (lookup_finish sv target, queried, sv)
                  else (case lookup_sends cd (ev n) (clk n) target 0 toQuery queried sv of
                          None \<Rightarrow> None
                        | Some (queried', sv') \<Rightarrow>
                            lookup_rounds n cd ev clk target queried' (Some (ct_ID c)) sv'))"

definition Lookup ::
  "codec \<Rightarrow> (nat \<Rightarrow> nat \<Rightarrow> events) \<Rightarrow> (nat \<Rightarrow> nat \<Rightarrow> time) \<Rightarrow> ('s, 't) Service \<Rightarrow> ID \<Rightarrow>
   (Contact list result \<times> ('s, 't) Service) option" where
  "Lookup cd ev clk sv target =
     (case lookup_rounds maxRounds cd ev clk target [] None sv of
        None \<Rightarrow> None
      | Some (r, queried, sv') \<Rightarrow> Some (r, sv'))"

section \<open>Lemmas\<close>

definition sv_good :: "('s, 't) Service \<Rightarrow> bool" where
  "sv_good sv \<longleftrightarrow> sv_inv sv \<and> nd_inv (sv_node sv)"

lemma sv_good_New: "sv_good (NewService i T ts store ss)"
proof -
  have "nd_inv (sv_node (NewService i T ts store ss))"
    unfolding NewService_def by (simp add: nd_inv_NewNode)
  then show ?thesis by (simp add: sv_good_def)
qed

lemma sv_Send_good: "sv_good sv \<Longrightarrow> sv_Send sv a p = (e, sv') \<Longrightarrow> sv_good sv' \<and> sv_node sv' = sv_node sv"
  by (auto simp: sv_good_def sv_Send_def sv_inv_def split: prod.splits)

lemma SendFindNode_good: "sv_good sv \<Longrightarrow> SendFindNode cd sv t a i = (e, sv') \<Longrightarrow> sv_good sv' \<and> sv_node sv' = sv_node sv"
  by (auto simp: SendFindNode_def dest: sv_Send_good split: sum.splits)

lemma HandleRPC_node:
  assumes "nd_inv n" and "HandleRPC decode n s clk rpc = (r, n', s')"
  shows "nd_inv n' \<and> nd_fixed n n'"
  using assms(2)
proof (cases rule: HandleRPC_cases)
  case (2 msg)
  then show ?thesis by (rule handle_message_node [OF assms(1)])
qed (use assms(1) in simp)

lemma readLoop_node_inv: "nd_inv (sv_node sv) \<Longrightarrow> nd_inv (sv_node (readLoop_node cd sv clk rpc))"
  by (auto simp: readLoop_node_def sv_Send_def Let_def dest: HandleRPC_node split: result_splits)

lemma readLoop_step_good:
  assumes "sv_good sv"
  shows "\<exists>sv'. readLoop_step cd sv clk rpc = Some sv' \<and> sv_good sv'"
proof -
  have inv: "sv_inv sv" "nd_inv (sv_node sv)" using assms by (simp_all add: sv_good_def)
  obtain sv' where s: "readLoop_step cd sv clk rpc = Some sv'" "sv_inv sv'" using readLoop_step_inv [OF inv(1)] .
  have "nd_inv (sv_node sv')"
    using s(1) inv readLoop_node_inv [OF inv(2), of cd clk rpc]
    by (auto simp: readLoop_step_eq [OF inv(1)] settle_def split: sum.splits option.splits if_splits)
  with s show ?thesis by (simp add: sv_good_def)
qed

lemma run_events_good: "sv_good sv \<Longrightarrow> \<exists>sv'. run_events cd es sv = Some sv' \<and> sv_good sv'"
proof (induction cd es sv rule: run_events.induct)
  case (2 cd clk rpc es sv)
  obtain sv' where "readLoop_step cd sv clk rpc = Some sv'" "sv_good sv'"
    using readLoop_step_good [OF "2.prems"] by blast
  with 2 show ?case by simp
qed simp

lemma lookup_sends_good:
  "sv_good sv \<Longrightarrow> \<exists>sv'. lookup_sends cd ev clk target j cs queried sv = Some (queried @ map ct_Address cs, sv') \<and> sv_good sv'"
proof (induction cs arbitrary: j queried sv)
  case (Cons c cs)
  obtain e sv1 where s: "SendFindNode cd sv (clk j) (ct_Address c) target = (e, sv1)" by fastforce
  then have "sv_good sv1" using SendFindNode_good Cons.prems by blast
  then obtain sv2 where "run_events cd (ev j) sv1 = Some sv2" "sv_good sv2" using run_events_good by blast
  with s Cons.IH [of sv2 "Suc j" "queried @ [ct_Address c]"] show ?case by simp
qed simp

lemma lookup_sends_quiet:
  "\<exists>sv'. lookup_sends cd (\<lambda>_. []) clk target j cs queried sv = Some (queried @ map ct_Address cs, sv') \<and>
     sv_node sv' = sv_node sv"
proof (induction cs arbitrary: j queried sv)
  case (Cons c cs)
  obtain e sv1 where s: "SendFindNode cd sv (clk j) (ct_Address c) target = (e, sv1)" by fastforce
  have "sv_node sv1 = sv_node sv"
    using s by (auto simp: SendFindNode_def sv_Send_def split: sum.splits prod.splits)
  with s Cons.IH [of "Suc j" "queried @ [ct_Address c]" sv1] show ?case by auto
qed simp

text \<open>The contacts picked: the first \<open>Alpha\<close> of those not yet asked.\<close>

lemma pick_query_eq:
  "length tq \<le> Alpha \<Longrightarrow>
   pick_query queried cs tq = take Alpha (tq @ filter (\<lambda>c. ct_Address c \<notin> set queried) cs)"
  by (induction queried cs tq rule: pick_query.induct) auto

lemma lookup_finish_eq: "lookup_finish sv target = Inr (take K (by_distance (nd_rt (sv_node sv)) target))"
  by (simp add: lookup_finish_def FindClosest_K)

lemma lookup_rounds_good:
  "sv_good sv \<Longrightarrow>
   \<exists>out queried' sv'. lookup_rounds n cd ev clk target queried prev sv = Some (Inr out, queried @ queried', sv') \<and>
     sv_good sv' \<and> out = take K (by_distance (nd_rt (sv_node sv')) target) \<and> length queried' \<le> Alpha * n"
proof (induction n arbitrary: queried prev sv)
  case 0
  then show ?case by (simp add: lookup_finish_eq)
next
  case (Suc n)
  let ?short = "take K (by_distance (nd_rt (sv_node sv)) target)"
  have f: "FindClosest (nd_rt (sv_node sv)) target (int K) = Inr ?short" by (rule FindClosest_K)
  show ?case
  proof (cases ?short)
    case Nil
    then have "FindClosest (nd_rt (sv_node sv)) target (int K) = Inr []" using f by simp
    then show ?thesis
      using Suc.prems Nil by (intro exI [of _ "[]"] exI [of _ sv]) (simp del: take_eq_Nil)
  next
    case (Cons c cs)
    let ?tq = "pick_query queried (c # cs) []"
    have stop: "\<exists>out queried' sv'. Some (lookup_finish sv target, queried, sv) = Some (Inr out, queried @ queried', sv') \<and>
        sv_good sv' \<and> out = take K (by_distance (nd_rt (sv_node sv')) target) \<and> length queried' \<le> Alpha * Suc n"
      using Suc.prems by (simp add: lookup_finish_eq)
    show ?thesis
    proof (cases "(case prev of None \<Rightarrow> False | Some p \<Rightarrow> ID_Equals (ct_ID c) p) \<or> ?tq = []")
      case True
      then show ?thesis using f Cons stop by (auto simp: Let_def simp del: pick_query.simps)
    next
      case False
      obtain sv1 where s: "lookup_sends cd (ev n) (clk n) target 0 ?tq queried sv = Some (queried @ map ct_Address ?tq, sv1)"
        and good: "sv_good sv1" using lookup_sends_good [OF Suc.prems] by blast
      obtain out queried' sv' where
        r: "lookup_rounds n cd ev clk target (queried @ map ct_Address ?tq) (Some (ct_ID c)) sv1 =
          Some (Inr out, (queried @ map ct_Address ?tq) @ queried', sv')"
        "sv_good sv'" "out = take K (by_distance (nd_rt (sv_node sv')) target)" "length queried' \<le> Alpha * n"
        using Suc.IH [OF good] by blast
      have "length ?tq \<le> Alpha" by (subst pick_query_eq) simp_all
      then show ?thesis
        using f Cons False s r
        by (intro exI [of _ out] exI [of _ "map ct_Address ?tq @ queried'"] exI [of _ sv'])
          (simp add: Let_def del: pick_query.simps)
    qed
  qed
qed

section \<open>Properties\<close>

lemma demo_service_good: "sv_good demo_service"
  unfolding demo_service_def by (rule sv_good_New)

text \<open>
  C23: a lookup always returns, whatever RPCs the read loop handles meanwhile and whatever sends fail,
  and never with an error: it returns the at most K contacts of the routing table, as it is
  at that moment, that are closest to the target, nearest first; the table, the node and the
  pending requests stay valid.
\<close>

theorem lookup_returns_closest:
  assumes "sv_good sv"
  shows "\<exists>out sv'. Lookup cd ev clk sv target = Some (Inr out, sv') \<and> sv_good sv' \<and>
    length out = min K (length (concat (rt_buckets (nd_rt (sv_node sv'))))) \<and>
    sorted (map (\<lambda>c. ID_val (ID_XOR target (ct_ID c))) out) \<and>
    set out \<subseteq> set (concat (rt_buckets (nd_rt (sv_node sv')))) \<and>
    (\<forall>c \<in> set out. \<forall>d \<in> set (concat (rt_buckets (nd_rt (sv_node sv')))) - set out.
       ID_val (ID_XOR target (ct_ID c)) < ID_val (ID_XOR target (ct_ID d)))"
proof -
  obtain out queried sv' where
    r: "lookup_rounds maxRounds cd ev clk target [] None sv = Some (Inr out, [] @ queried, sv')"
    and good: "sv_good sv'" and out: "out = take K (by_distance (nd_rt (sv_node sv')) target)"
    using lookup_rounds_good [OF assms] by blast
  have inv: "rt_inv (nd_rt (sv_node sv'))" using good by (simp add: sv_good_def nd_inv_def)
  have "Lookup cd ev clk sv target = Some (Inr out, sv')" using r by (simp add: Lookup_def)
  moreover have "length out = min K (length (concat (rt_buckets (nd_rt (sv_node sv')))))"
    by (simp add: out all_contacts_concat min.commute)
  moreover have "sorted (map (\<lambda>c. ID_val (ID_XOR target (ct_ID c))) out)"
    unfolding out by (rule sorted_closest)
  moreover have "set out \<subseteq> set (concat (rt_buckets (nd_rt (sv_node sv'))))"
    using set_take_subset [of K "by_distance (nd_rt (sv_node sv')) target"] by (simp add: out all_contacts_concat)
  moreover have "\<forall>c \<in> set out. \<forall>d \<in> set (concat (rt_buckets (nd_rt (sv_node sv')))) - set out.
      ID_val (ID_XOR target (ct_ID c)) < ID_val (ID_XOR target (ct_ID d))"
    using closest_before_rest [OF inv, of _ K target] by (auto simp: out all_contacts_concat ID_Less_val)
  ultimately show ?thesis using good by blast
qed

theorem lookup_returns_closest_witness:
  "\<exists>out sv'. Lookup demo_codec (\<lambda>_ _. [(\<lambda>_. 0, payload_rpc [])]) (\<lambda>_ _. 0) demo_service ID_zero = Some (Inr out, sv')"
  using lookup_returns_closest [OF demo_service_good, of demo_codec "\<lambda>_ _. [(\<lambda>_. 0, payload_rpc [])]" "\<lambda>_ _. 0" ID_zero] by blast



text \<open>
  When no peer answers, a lookup asks exactly the \<open>Alpha\<close> nearest contacts, notices in the second
  round that the closest one has not changed, and returns the K nearest contacts it started
  with: the remaining contacts of the shortlist are never asked.
\<close>

theorem lookup_without_answers:
  "\<exists>sv'. lookup_rounds maxRounds cd (\<lambda>_ _. []) clk target [] None sv =
    Some (Inr (take K (by_distance (nd_rt (sv_node sv)) target)),
          map ct_Address (take Alpha (by_distance (nd_rt (sv_node sv)) target)), sv')"
proof -
  let ?l = "by_distance (nd_rt (sv_node sv)) target"
  have f: "FindClosest (nd_rt (sv_node s)) target (int K) = Inr (take K ?l)" if "sv_node s = sv_node sv" for s :: "('a, 'b) Service"
    using FindClosest_K [of "nd_rt (sv_node sv)" target K] that by simp
  obtain n where r: "maxRounds = Suc (Suc n)" by (simp add: maxRounds_def eval_nat_numeral)
  show ?thesis
  proof (cases "take K ?l")
    case Nil
    then have "?l = []" by (simp add: K_def)
    then show ?thesis using f [of sv] by (simp add: r)
  next
    case (Cons c cs)
    have tq: "pick_query [] (c # cs) [] = take Alpha ?l"
      using Cons [symmetric] by (simp add: pick_query_eq Alpha_def K_def min_def del: pick_query.simps)
    have ne: "take Alpha ?l \<noteq> []" using Cons by (auto simp: Alpha_def)
    obtain sv1 where s: "lookup_sends cd (\<lambda>_. []) (clk (Suc n)) target 0 (take Alpha ?l) [] sv =
        Some (map ct_Address (take Alpha ?l), sv1)" and n: "sv_node sv1 = sv_node sv"
      using lookup_sends_quiet [of cd "clk (Suc n)" target 0 "take Alpha ?l" "[]" sv] by auto
    have "lookup_rounds (Suc n) cd (\<lambda>_ _. []) clk target (map ct_Address (take Alpha ?l)) (Some (ct_ID c)) sv1 =
        Some (Inr (take K ?l), map ct_Address (take Alpha ?l), sv1)"
      using f [OF n] Cons by (simp add: lookup_finish_def)
    then show ?thesis
      using f [OF refl] Cons tq ne s by (simp add: r Let_def del: lookup_rounds.simps(2) pick_query.simps)
        (simp add: Let_def del: pick_query.simps)
  qed
qed

end
