(* ===== verification/Erasure.thy ===== *)
theory Erasure
  imports Go_Strings
begin

text \<open>
  Reed-Solomon shards, \<^verbatim>\<open>internal/storage/erasure.go\<close>. The codec itself is the library
  \<^verbatim>\<open>github.com/klauspost/reedsolomon\<close>, a parameter: the record \<open>rs_lib\<close> has its three
  entry points and \<open>rs_correct\<close> states what its documentation promises for \<open>k\<close> data and \<open>m\<close>
  parity shards. Everything around it is modelled: validation (with the wrap-around of the
  sum), splitting with zero padding, the size scan, joining and trimming. A missing shard
  (\<^verbatim>\<open>nil\<close>) is \<open>None\<close>. The main lemma is the round trip with up to \<open>m\<close> lost shards.
\<close>

section \<open>The library\<close>

record rs_lib =
  rs_New :: "int \<Rightarrow> int \<Rightarrow> go_error option"
  rs_Encode :: "int \<Rightarrow> int \<Rightarrow> bytes list \<Rightarrow> go_error option \<times> bytes list"
  rs_Reconstruct :: "int \<Rightarrow> int \<Rightarrow> bytes option list \<Rightarrow> go_error option \<times> bytes option list"

text \<open>The shards that are left when those marked \<open>False\<close> are lost.\<close>

definition keep_shards :: "bool list \<Rightarrow> bytes list \<Rightarrow> bytes option list" where
  "keep_shards keep shards = map2 (\<lambda>b x. if b then Some x else None) keep shards"

definition equal_shards :: "nat \<Rightarrow> nat \<Rightarrow> bytes list \<Rightarrow> bool" where
  "equal_shards n sz shards \<longleftrightarrow> length shards = n \<and> (\<forall>x \<in> set shards. length x = sz)"

text \<open>
  Documented behaviour: the encoder is created; encoding equal, non-empty shards leaves the
  data shards and fills in parity shards of the same size; from at least \<open>k\<close> of the encoded
  shards all of them are rebuilt; with fewer the call fails.
\<close>

definition rs_correct :: "rs_lib \<Rightarrow> nat \<Rightarrow> nat \<Rightarrow> bool" where
  "rs_correct rs k m \<longleftrightarrow>
     rs_New rs (int k) (int m) = None \<and>
     (\<forall>shards sz. 0 < sz \<longrightarrow> equal_shards (k + m) sz shards \<longrightarrow>
        (\<exists>enc. rs_Encode rs (int k) (int m) shards = (None, enc) \<and> equal_shards (k + m) sz enc \<and>
           take k enc = take k shards \<and>
           (\<forall>keep. length keep = k + m \<longrightarrow>
              (if k \<le> length (filter id keep)
               then rs_Reconstruct rs (int k) (int m) (keep_shards keep enc) = (None, map Some enc)
               else fst (rs_Reconstruct rs (int k) (int m) (keep_shards keep enc)) \<noteq> None))))"

section \<open>Definitions\<close>

record ECParams =
  DataShards :: int
  ParityShards :: int

definition TotalShards :: "ECParams \<Rightarrow> int" where
  "TotalShards p = wrap64 (DataShards p + ParityShards p)"

definition Validate :: "ECParams \<Rightarrow> go_error option" where
  "Validate p =
     (if DataShards p \<le> 0 then Some (Errorf ''ECParams: DataShards must be > 0'')
      else if ParityShards p \<le> 0 then Some (Errorf ''ECParams: ParityShards must be > 0'')
      else if 255 < TotalShards p then Some (Errorf ''ECParams: total shards must be <= 255'')
      else None)"

text \<open>One data shard: the bytes from \<open>start\<close> to \<open>end\<close>, copied into a zeroed buffer.\<close>

definition data_shard :: "bytes \<Rightarrow> nat \<Rightarrow> nat \<Rightarrow> bytes" where
  "data_shard data shardSize i =
     (let start = i * shardSize;
          end0 = start + shardSize;
          end' = (if length data < end0 then length data else end0);
          shard = replicate shardSize 0
      in if start < length data then go_copy shard 0 (take (end' - start) (drop start data)) else shard)"

definition EncodeToShards :: "rs_lib \<Rightarrow> bytes \<Rightarrow> ECParams \<Rightarrow> bytes list result" where
  "EncodeToShards rs data params =
     (case Validate params of
        Some e \<Rightarrow> Inl e
      | None \<Rightarrow>
          (case rs_New rs (DataShards params) (ParityShards params) of
             Some e \<Rightarrow> Inl (Wrapf ''EncodeToShards: create encoder: '' e)
           | None \<Rightarrow>
               if TotalShards params < 0 then Inl (GoPanic ''makeslice: len out of range'')
               else if length data = 0 then Inr (replicate (nat (TotalShards params)) [])
               else
                 let k = nat (DataShards params);
                     shardSize = (length data + k - 1) div k;
                     shards = map (data_shard data shardSize) [0..<k]
                       @ replicate (nat (TotalShards params) - k) (replicate shardSize 0)
                 in (case rs_Encode rs (DataShards params) (ParityShards params) shards of
                       (Some e, _) \<Rightarrow> Inl (Wrapf ''EncodeToShards: encode: '' e)
                     | (None, shards') \<Rightarrow> Inr shards')))"

text \<open>The scan for the shard size; \<open>-1\<close> until a shard is present.\<close>

fun shard_size_scan :: "int \<Rightarrow> bytes option list \<Rightarrow> int result" where
  "shard_size_scan sz [] = Inr sz"
| "shard_size_scan sz (None # r) = shard_size_scan sz r"
| "shard_size_scan sz (Some s # r) =
     (if sz = -1 then shard_size_scan (int (length s)) r
      else if int (length s) \<noteq> sz then Inl (Errorf ''ReconstructFromShards: inconsistent shard sizes'')
      else shard_size_scan sz r)"

text \<open>The loop that joins the first shards: the remaining indices, the offset and the buffer.\<close>

fun join_shards :: "bytes option list \<Rightarrow> nat \<Rightarrow> nat list \<Rightarrow> nat \<Rightarrow> bytes \<Rightarrow> bytes result" where
  "join_shards shards sz [] off data = Inr data"
| "join_shards shards sz (i # is) off data =
     (if length shards \<le> i then Inl (GoPanic ''index out of range'')
      else case shards ! i of
             None \<Rightarrow> Inl (Errorf (''ReconstructFromShards: shard '' @ itoa (int i) @ '' still nil after reconstruct''))
           | Some s \<Rightarrow> join_shards shards sz is (off + sz) (go_copy data off s))"

text \<open>The result, and the caller's slice, which the library fills in place.\<close>

definition ReconstructFromShards ::
  "rs_lib \<Rightarrow> bytes option list \<Rightarrow> ECParams \<Rightarrow> int \<Rightarrow> bytes result \<times> bytes option list" where
  "ReconstructFromShards rs shards params origSize =
     (case Validate params of
        Some e \<Rightarrow> (Inl e, shards)
      | None \<Rightarrow>
          if int (length shards) \<noteq> TotalShards params then
            (Inl (Errorf (''ReconstructFromShards: expected '' @ itoa (TotalShards params)
                          @ '' shards, got '' @ itoa (int (length shards)))), shards)
          else if origSize < 0 then
            (Inl (Errorf (''ReconstructFromShards: invalid origSize '' @ itoa origSize)), shards)
          else if origSize = 0 then (Inr [], shards)
          else
            (case rs_New rs (DataShards params) (ParityShards params) of
               Some e \<Rightarrow> (Inl (Wrapf ''ReconstructFromShards: create encoder: '' e), shards)
             | None \<Rightarrow>
                 (case shard_size_scan (-1) shards of
                    Inl e \<Rightarrow> (Inl e, shards)
                  | Inr sz \<Rightarrow>
                      if sz = -1 then (Inl (Errorf ''ReconstructFromShards: no shard data present''), shards)
                      else
                        (case rs_Reconstruct rs (DataShards params) (ParityShards params) shards of
                           (Some e, shards') \<Rightarrow> (Inl (Wrapf ''ReconstructFromShards: reconstruct: '' e), shards')
                         | (None, shards') \<Rightarrow>
                             let k = nat (DataShards params) in
                             (case join_shards shards' (nat sz) [0..<k] 0 (replicate (k * nat sz) 0) of
                                Inl e \<Rightarrow> (Inl e, shards')
                              | Inr data \<Rightarrow>
                                  if int (length data) < origSize then
                                    (Inl (Errorf (''ReconstructFromShards: origSize '' @ itoa origSize
                                       @ '' > reconstructed '' @ itoa (int (length data)))), shards')
                                  else (Inr (take (nat origSize) data), shards'))))))"

section \<open>Lemmas on splitting and joining\<close>

definition ec_params :: "nat \<Rightarrow> nat \<Rightarrow> ECParams" where
  "ec_params k m = \<lparr>DataShards = int k, ParityShards = int m\<rparr>"

definition good_counts :: "nat \<Rightarrow> nat \<Rightarrow> bool" where
  "good_counts k m \<longleftrightarrow> 0 < k \<and> 0 < m \<and> k + m \<le> 255"

lemma ec_params_simps [simp]:
  "DataShards (ec_params k m) = int k" "ParityShards (ec_params k m) = int m"
  by (simp_all add: ec_params_def)

lemma good_counts_total: "good_counts k m \<Longrightarrow> TotalShards (ec_params k m) = int (k + m)"
  by (simp add: TotalShards_def good_counts_def wrap64_id int64_range_def)

lemma good_counts_valid: "good_counts k m \<Longrightarrow> Validate (ec_params k m) = None"
  by (simp add: Validate_def good_counts_total) (simp add: good_counts_def)

text \<open>The padded content as a whole.\<close>

lemma data_shard_slice:
  assumes "length data \<le> k * sz" and "i < k"
  shows "data_shard data sz i = take sz (drop (i * sz) (data @ replicate (k * sz - length data) 0))"
proof -
  have le: "i * sz + sz \<le> k * sz"
    using assms(2) by (metis Suc_leI add.commute mult_Suc mult_le_mono1)
  show ?thesis
  proof (cases "i * sz < length data")
    case False
    with le show ?thesis by (simp add: data_shard_def Let_def)
  next
    case True
    show ?thesis
    proof (cases "length data < i * sz + sz")
      case short: True
      with True le assms show ?thesis
        by (simp add: data_shard_def Let_def go_copy_def)
    next
      case False
      with True show ?thesis by (simp add: data_shard_def Let_def go_copy_def)
    qed
  qed
qed

lemma concat_slices:
  "length xs = k * sz \<Longrightarrow> concat (map (\<lambda>i. take sz (drop (i * sz) xs)) [0..<k]) = xs"
proof (induction k arbitrary: xs)
  case (Suc k)
  have "concat (map (\<lambda>i. take sz (drop (i * sz) (take (k * sz) xs))) [0..<k]) = take (k * sz) xs"
    using Suc by simp
  moreover have "take sz (drop (i * sz) (take (k * sz) xs)) = take sz (drop (i * sz) xs)" if "i < k" for i
  proof -
    have "i * sz + sz \<le> k * sz"
      using that by (metis Suc_leI add.commute mult_Suc mult_le_mono1)
    then show ?thesis by (simp add: drop_take min_def)
  qed
  ultimately have "concat (map (\<lambda>i. take sz (drop (i * sz) xs)) [0..<k]) = take (k * sz) xs"
    by (metis (no_types, lifting) atLeastLessThan_iff list.map_cong0 set_upt)
  moreover have "take sz (drop (k * sz) xs) = drop (k * sz) xs" using Suc.prems by simp
  ultimately show ?case by simp
qed simp

lemma join_shards_spec:
  assumes "\<forall>i \<in> set is. i < length enc" and "\<forall>x \<in> set enc. length x = sz"
    and "length pre = off" and "length rest = length is * sz"
  shows "join_shards (map Some enc) sz is off (pre @ rest) = Inr (pre @ concat (map ((!) enc) is))"
  using assms
proof (induction "is" arbitrary: pre off rest)
  case (Cons i "is")
  then have i: "i < length enc" "length (enc ! i) = sz" by simp_all
  have "go_copy (pre @ rest) off (enc ! i) = (pre @ enc ! i) @ drop sz rest"
    using Cons.prems i by (simp add: go_copy_append)
  then show ?case
    using Cons.IH [of "pre @ enc ! i" "off + sz" "drop sz rest"] Cons.prems i by simp
qed simp

lemma shard_size_scan_keep:
  assumes "\<forall>x \<in> set enc. length x = sz" and "length keep = length enc"
    and "s = -1 \<or> s = int sz"
  shows "shard_size_scan s (keep_shards keep enc) = Inr (if True \<in> set keep then int sz else s)"
  using assms(2,1,3)
proof (induction keep enc arbitrary: s rule: list_induct2)
  case (Cons b bs x xs)
  then show ?case by (cases b) (auto simp: keep_shards_def)
qed (simp add: keep_shards_def)

lemma keep_shards_map:
  "(\<And>x. x \<in> set enc \<Longrightarrow> f x = None \<or> f x = Some x) \<Longrightarrow>
   map f enc = keep_shards (map (\<lambda>x. f x \<noteq> None) enc) enc"
  by (induction enc) (force simp: keep_shards_def)+

lemma ceil_div_bound: "0 < k \<Longrightarrow> n \<le> k * ((n + k - 1) div k)" for n k :: nat
proof -
  assume k: "0 < k"
  have "n + k - 1 < k * ((n + k - 1) div k) + k"
    using dividend_less_times_div [OF k, of "n + k - 1"] by simp
  then show ?thesis using k by linarith
qed

lemma ceil_div_pos: "0 < k \<Longrightarrow> 0 < n \<Longrightarrow> 0 < (n + k - 1) div k" for n k :: nat
  by (simp add: div_greater_zero_iff)

text \<open>Encoding succeeds, and the data shards spell the padded content.\<close>

lemma EncodeToShards_ok:
  assumes g: "good_counts k m" and rs: "rs_correct rs k m" and ne: "data \<noteq> []"
  obtains enc sz where "EncodeToShards rs data (ec_params k m) = Inr enc"
    and "equal_shards (k + m) sz enc" and "0 < sz" and "length data \<le> k * sz"
    and "concat (take k enc) = data @ replicate (k * sz - length data) 0"
    and "\<And>keep. length keep = k + m \<Longrightarrow> k \<le> length (filter id keep) \<Longrightarrow>
      rs_Reconstruct rs (int k) (int m) (keep_shards keep enc) = (None, map Some enc)"
    and "\<And>keep. length keep = k + m \<Longrightarrow> length (filter id keep) < k \<Longrightarrow>
      fst (rs_Reconstruct rs (int k) (int m) (keep_shards keep enc)) \<noteq> None"
proof -
  define sz where "sz = (length data + k - 1) div k"
  have k: "0 < k" using g by (simp add: good_counts_def)
  have sz: "0 < sz" "length data \<le> k * sz"
    using k ne ceil_div_pos [of k "length data"] ceil_div_bound [of k "length data"] by (simp_all add: sz_def)
  let ?pad = "data @ replicate (k * sz - length data) 0"
  let ?ds = "map (data_shard data sz) [0..<k]"
  let ?in = "?ds @ replicate m (replicate sz 0)"
  have ds: "?ds = map (\<lambda>i. take sz (drop (i * sz) ?pad)) [0..<k]"
    using data_shard_slice [OF sz(2)] by simp
  have len: "length (data_shard data sz i) = sz" for i
    by (simp add: data_shard_def Let_def)
  have "equal_shards (k + m) sz ?in" by (auto simp: equal_shards_def len)
  then obtain enc where enc: "rs_Encode rs (int k) (int m) ?in = (None, enc)"
    "equal_shards (k + m) sz enc" "take k enc = take k ?in"
    and rec: "\<forall>keep. length keep = k + m \<longrightarrow>
              (if k \<le> length (filter id keep)
               then rs_Reconstruct rs (int k) (int m) (keep_shards keep enc) = (None, map Some enc)
               else fst (rs_Reconstruct rs (int k) (int m) (keep_shards keep enc)) \<noteq> None)"
    using rs sz(1) unfolding rs_correct_def by meson
  have new: "rs_New rs (int k) (int m) = None" using rs by (simp add: rs_correct_def)
  have "EncodeToShards rs data (ec_params k m) = Inr enc"
    using enc(1) new ne
    by (simp add: EncodeToShards_def good_counts_valid [OF g] good_counts_total [OF g] Let_def
        sz_def nat_int_add)
  moreover have "concat (take k enc) = ?pad"
    using enc(3) ds concat_slices [of ?pad k sz] sz(2) by simp
  ultimately show ?thesis using that [of enc sz] enc(2) sz rec by (metis not_le)
qed

lemma ReconstructFromShards_encoded:
  assumes g: "good_counts k m" and new: "rs_New rs (int k) (int m) = None"
    and enc: "equal_shards (k + m) sz enc" "0 < sz" "n \<le> k * sz" "0 < n"
    and keep: "length keep = k + m" "k \<le> length (filter id keep)"
    and rec: "rs_Reconstruct rs (int k) (int m) (keep_shards keep enc) = (None, map Some enc)"
  shows "fst (ReconstructFromShards rs (keep_shards keep enc) (ec_params k m) (int n)) =
    Inr (take n (concat (take k enc)))"
proof -
  have k: "0 < k" using g by (simp add: good_counts_def)
  have len: "length enc = k + m" "\<forall>x \<in> set enc. length x = sz"
    using enc by (auto simp: equal_shards_def)
  have "True \<in> set keep"
    using keep(2) k by (metis filter_False id_apply length_0_conv not_le)
  then have scan: "shard_size_scan (-1) (keep_shards keep enc) = Inr (int sz)"
    using shard_size_scan_keep [OF len(2)] keep(1) len(1) by simp
  have "map ((!) enc) [0..<k] = take k enc"
    using len(1) by (metis le_add1 map_nth take_map take_upt add_0)
  then have join: "join_shards (map Some enc) sz [0..<k] 0 (replicate (k * sz) 0) = Inr (concat (take k enc))"
    using join_shards_spec [of "[0..<k]" enc sz "[]" 0 "replicate (k * sz) 0"] len by simp
  have total: "length (concat (take k enc)) = k * sz"
  proof -
    have "length (concat xs) = length xs * sz" if "\<forall>x \<in> set xs. length x = sz" for xs :: "bytes list"
      using that by (induction xs) auto
    then show ?thesis using len by (metis in_set_takeD length_take le_add1 min.absorb2)
  qed
  have "\<not> int k * int sz < int n" using enc(3) by (simp flip: of_nat_mult)
  then show ?thesis
    using scan rec join total enc(4) new k keep(1) len(1)
    by (simp add: ReconstructFromShards_def good_counts_valid [OF g] good_counts_total [OF g] Let_def
        keep_shards_def [of keep enc, THEN arg_cong [where f = length]])
qed

lemma ReconstructFromShards_fails:
  assumes "fst (rs_Reconstruct rs (DataShards p) (ParityShards p) shards) \<noteq> None" and "0 < n"
  shows "\<exists>e. fst (ReconstructFromShards rs shards p n) = Inl e"
  using assms by (auto simp: ReconstructFromShards_def split: result_splits)

section \<open>An instance of the library's contract\<close>

text \<open>
  Two data shards and their exclusive or: a concrete codec for which \<open>rs_correct\<close> holds. It
  only shows that the assumptions about the library can be met.
\<close>

definition xor_bytes :: "bytes \<Rightarrow> bytes \<Rightarrow> bytes" where
  "xor_bytes a b = map2 (XOR) a b"

definition xor_rs :: rs_lib where
  "xor_rs =
     \<lparr>rs_New = (\<lambda>k m. None),
      rs_Encode = (\<lambda>k m sh. case sh of
          [a, b, p] \<Rightarrow> (None, [a, b, xor_bytes a b])
        | _ \<Rightarrow> (Some (ExtError ''too few shards given''), sh)),
      rs_Reconstruct = (\<lambda>k m sh. case sh of
          [Some a, Some b, _] \<Rightarrow> (None, [Some a, Some b, Some (xor_bytes a b)])
        | [Some a, None, Some p] \<Rightarrow> (None, [Some a, Some (xor_bytes a p), Some p])
        | [None, Some b, Some p] \<Rightarrow> (None, [Some (xor_bytes b p), Some b, Some p])
        | _ \<Rightarrow> (Some (ExtError ''too few shards given''), sh))\<rparr>"

lemma xor_bytes_cancel: "length a = length b \<Longrightarrow> xor_bytes a (xor_bytes a b) = b"
  by (induction a b rule: list_induct2) (simp_all add: xor_bytes_def xor.assoc [symmetric])

lemma xor_bytes_comm: "length a = length b \<Longrightarrow> xor_bytes a b = xor_bytes b a"
  by (induction a b rule: list_induct2) (simp_all add: xor_bytes_def xor.commute)

lemma length_xor_bytes [simp]: "length (xor_bytes a b) = min (length a) (length b)"
  by (simp add: xor_bytes_def)

lemma length3_conv: "length xs = 3 \<longleftrightarrow> (\<exists>a b c. xs = [a, b, c])"
  by (auto simp: numeral_3_eq_3 length_Suc_conv)

lemma xor_rs_correct: "rs_correct xor_rs 2 1"
proof -
  have "\<exists>enc. rs_Encode xor_rs 2 1 shards = (None, enc) \<and> equal_shards 3 sz enc \<and>
      take 2 enc = take 2 shards \<and>
      (\<forall>keep. length keep = 3 \<longrightarrow>
         (if 2 \<le> length (filter id keep)
          then rs_Reconstruct xor_rs 2 1 (keep_shards keep enc) = (None, map Some enc)
          else fst (rs_Reconstruct xor_rs 2 1 (keep_shards keep enc)) \<noteq> None))"
    if sh: "equal_shards 3 sz shards" for shards sz
  proof -
    obtain a b p where abp: "shards = [a, b, p]" using sh by (auto simp: equal_shards_def length3_conv)
    with sh have len: "length a = length b" "length b = sz" by (auto simp: equal_shards_def)
    have "xor_bytes b (xor_bytes a b) = a"
      using len xor_bytes_cancel [of b a] xor_bytes_comm [of a b] by simp
    with abp len show ?thesis
      by (intro exI [of _ "[a, b, xor_bytes a b]"])
        (auto simp: xor_rs_def equal_shards_def keep_shards_def length3_conv xor_bytes_cancel
          split: if_splits)
  qed
  moreover have "rs_New xor_rs 2 1 = None" by (simp add: xor_rs_def)
  moreover have "int 2 = 2" "int 1 = 1" "2 + 1 = (3 :: nat)" by simp_all
  ultimately show ?thesis unfolding rs_correct_def by (simp only:) blast
qed

section \<open>Properties\<close>

text \<open>
  C12: for valid counts and a codec that keeps its promises, \<^verbatim>\<open>EncodeToShards\<close> succeeds with \<open>k + m\<close>
  shards, and \<^verbatim>\<open>ReconstructFromShards\<close> gives back exactly the data, whatever its length, from
  every choice of at least \<open>k\<close> shards; with fewer shards it reports an error and never wrong
  data (empty data needs no shards at all).
\<close>

theorem ec_shards_roundtrip:
  assumes g: "good_counts k m" and rs: "rs_correct rs k m"
  shows "\<exists>enc. EncodeToShards rs data (ec_params k m) = Inr enc \<and> length enc = k + m \<and>
    (\<forall>keep. length keep = k + m \<longrightarrow>
       (if k \<le> length (filter id keep) \<or> data = []
        then fst (ReconstructFromShards rs (keep_shards keep enc) (ec_params k m) (int (length data))) = Inr data
        else \<exists>e. fst (ReconstructFromShards rs (keep_shards keep enc) (ec_params k m) (int (length data))) = Inl e))"
proof (cases "data = []")
  case True
  have "rs_New rs (int k) (int m) = None" using rs by (simp add: rs_correct_def)
  with True show ?thesis
    by (auto simp: EncodeToShards_def ReconstructFromShards_def good_counts_valid [OF g]
        good_counts_total [OF g] keep_shards_def)
next
  case False
  from g rs False obtain enc sz where e: "EncodeToShards rs data (ec_params k m) = Inr enc"
    "equal_shards (k + m) sz enc" "0 < sz" "length data \<le> k * sz"
    "concat (take k enc) = data @ replicate (k * sz - length data) 0"
    and rec: "\<And>keep. length keep = k + m \<Longrightarrow> k \<le> length (filter id keep) \<Longrightarrow>
      rs_Reconstruct rs (int k) (int m) (keep_shards keep enc) = (None, map Some enc)"
    and bad: "\<And>keep. length keep = k + m \<Longrightarrow> length (filter id keep) < k \<Longrightarrow>
      fst (rs_Reconstruct rs (int k) (int m) (keep_shards keep enc)) \<noteq> None"
    by (rule EncodeToShards_ok) blast
  have new: "rs_New rs (int k) (int m) = None" using rs by (simp add: rs_correct_def)
  have "fst (ReconstructFromShards rs (keep_shards keep enc) (ec_params k m) (int (length data))) = Inr data"
    if "length keep = k + m" "k \<le> length (filter id keep)" for keep
    using ReconstructFromShards_encoded [OF g new e(2-4) _ that rec [OF that]] e(5) False by simp
  moreover have "\<exists>x. fst (ReconstructFromShards rs (keep_shards keep enc) (ec_params k m) (int (length data))) = Inl x"
    if "length keep = k + m" "length (filter id keep) < k" for keep
    by (rule ReconstructFromShards_fails) (use bad [OF that] False in auto)
  ultimately show ?thesis
    using e(1,2) False by (intro exI [of _ enc]) (auto simp: equal_shards_def not_le)
qed

theorem ec_shards_roundtrip_witness:
  "\<exists>enc. EncodeToShards xor_rs [1, 2, 3] (ec_params 2 1) = Inr enc \<and>
     (\<exists>e. fst (ReconstructFromShards xor_rs (keep_shards [False, False, True] enc) (ec_params 2 1) 3) = Inl e) \<and>
     fst (ReconstructFromShards xor_rs (keep_shards [True, False, True] enc) (ec_params 2 1) 3) = Inr [1, 2, 3]"
proof -
  have "good_counts 2 1" by (simp add: good_counts_def)
  from ec_shards_roundtrip [OF this xor_rs_correct, of "[1, 2, 3]"]
  obtain enc where enc: "EncodeToShards xor_rs [1, 2, 3] (ec_params 2 1) = Inr enc"
    and all: "\<And>keep. length keep = 2 + 1 \<Longrightarrow>
      (if 2 \<le> length (filter id keep) \<or> [1, 2, 3 :: byte] = []
       then fst (ReconstructFromShards xor_rs (keep_shards keep enc) (ec_params 2 1) (int (length [1, 2, 3 :: byte]))) = Inr [1, 2, 3]
       else \<exists>e. fst (ReconstructFromShards xor_rs (keep_shards keep enc) (ec_params 2 1) (int (length [1, 2, 3 :: byte]))) = Inl e)"
    by blast
  have "\<exists>e. fst (ReconstructFromShards xor_rs (keep_shards [False, False, True] enc) (ec_params 2 1) 3) = Inl e"
    using all [of "[False, False, True]"] by simp
  moreover have "fst (ReconstructFromShards xor_rs (keep_shards [True, False, True] enc) (ec_params 2 1) 3) = Inr [1, 2, 3]"
    using all [of "[True, False, True]"] by simp
  ultimately show ?thesis using enc by blast
qed

text \<open>
  C13: the sum in \<^verbatim>\<open>TotalShards\<close> wraps: \<^verbatim>\<open>Validate\<close> accepts every pair of positive counts whose sum
  passes the largest \<^verbatim>\<open>int\<close>, although the total exceeds the limit of 255. For counts whose sum
  fits, it accepts exactly those with a total of at most 255.
\<close>

theorem Validate_exact:
  assumes "int64_range (DataShards p)" and "int64_range (ParityShards p)"
  shows "Validate p = None \<longleftrightarrow> 0 < DataShards p \<and> 0 < ParityShards p \<and>
    (DataShards p + ParityShards p \<le> 255 \<or> 2 ^ 63 \<le> DataShards p + ParityShards p)"
proof (cases "0 < DataShards p \<and> 0 < ParityShards p")
  case True
  show ?thesis
  proof (cases "DataShards p + ParityShards p < 2 ^ 63")
    case True
    with \<open>0 < DataShards p \<and> 0 < ParityShards p\<close> show ?thesis
      by (auto simp: Validate_def TotalShards_def wrap64_id int64_range_def)
  next
    case False
    have "wrap64 (DataShards p + ParityShards p) = DataShards p + ParityShards p - 2 ^ 64"
      using assms False by (intro wrap64_over) (simp_all add: int64_range_def)
    with False True assms show ?thesis
      by (simp add: Validate_def TotalShards_def int64_range_def)
  qed
qed (auto simp: Validate_def)

theorem Validate_exact_witness:
  "Validate \<lparr>DataShards = 2 ^ 62, ParityShards = 2 ^ 62\<rparr> = None"
  using Validate_exact [of "\<lparr>DataShards = 2 ^ 62, ParityShards = 2 ^ 62\<rparr>"] by (simp add: int64_range_def)

end
