(* ===== verification/Ec_File.thy ===== *)
theory Ec_File
  imports Chunker Erasure
begin

text \<open>
  Erasure-coded chunks and files, \<^verbatim>\<open>internal/storage/ec_chunk.go\<close> and
  \<^verbatim>\<open>internal/storage/ec_filemeta.go\<close>: encoding a chunk into stored shards, decoding it from
  what the store still has, and both lifted to whole files. The codec is the parameter of
  \<^verbatim>\<open>Erasure\<close>, the store any value of the interface. The lemmas: a chunk is recovered from
  every store that kept at least \<open>k\<close> of its shards, and a file is recovered chunk by chunk.
\<close>

section \<open>Chunks\<close>

record ECChunkLayout =
  el_Params :: ECParams
  el_ShardIDs :: "ChunkID list"
  el_OrigSize :: int

text \<open>The loop over the shards, with the index that the error text names.\<close>

fun put_shards :: "'s ChunkStore \<Rightarrow> 's \<Rightarrow> nat \<Rightarrow> bytes list \<Rightarrow> ChunkID list result \<times> 's" where
  "put_shards S s i [] = (Inr [], s)"
| "put_shards S s i (shard # shards) =
     (case PutChunk S s shard of
        (Inl e, s') \<Rightarrow> (Inl (Wrapf (''EncodeChunkWithEC: PutChunk shard '' @ itoa (int i) @ '': '') e), s')
      | (Inr cid, s') \<Rightarrow>
          (case put_shards S s' (Suc i) shards of
             (Inl e, s'') \<Rightarrow> (Inl e, s'')
           | (Inr cids, s'') \<Rightarrow> (Inr (cid # cids), s'')))"

definition EncodeChunkWithEC ::
  "rs_lib \<Rightarrow> 's ChunkStore option \<Rightarrow> 's \<Rightarrow> bytes \<Rightarrow> ECParams \<Rightarrow> ECChunkLayout result \<times> 's" where
  "EncodeChunkWithEC rs store s data params =
     (case store of
        None \<Rightarrow> (Inl (Errorf ''EncodeChunkWithEC: store is nil''), s)
      | Some S \<Rightarrow>
          (case EncodeToShards rs data params of
             Inl e \<Rightarrow> (Inl (Wrapf ''EncodeChunkWithEC: '' e), s)
           | Inr shards \<Rightarrow>
               (case put_shards S s 0 shards of
                  (Inl e, s') \<Rightarrow> (Inl e, s')
                | (Inr ids, s') \<Rightarrow>
                    (Inr \<lparr>el_Params = params, el_ShardIDs = ids, el_OrigSize = int (length data)\<rparr>, s'))))"

text \<open>Loading: a shard that cannot be read is missing.\<close>

fun load_shards :: "'s ChunkStore \<Rightarrow> 's \<Rightarrow> ChunkID list \<Rightarrow> bytes option list \<times> 's" where
  "load_shards S s [] = ([], s)"
| "load_shards S s (i # is) =
     (case GetChunk S s i of
        (r, s') \<Rightarrow>
          (case load_shards S s' is of
             (shards, s'') \<Rightarrow> ((case r of Inl _ \<Rightarrow> None | Inr d \<Rightarrow> Some d) # shards, s'')))"

definition DecodeChunkWithEC ::
  "rs_lib \<Rightarrow> 's ChunkStore option \<Rightarrow> 's \<Rightarrow> ECChunkLayout option \<Rightarrow> bytes result \<times> 's" where
  "DecodeChunkWithEC rs store s layout =
     (case store of
        None \<Rightarrow> (Inl (Errorf ''DecodeChunkWithEC: store is nil''), s)
      | Some S \<Rightarrow>
          (case layout of
             None \<Rightarrow> (Inl (Errorf ''DecodeChunkWithEC: layout is nil''), s)
           | Some l \<Rightarrow>
               (case Validate (el_Params l) of
                  Some e \<Rightarrow> (Inl (Wrapf ''DecodeChunkWithEC: invalid params: '' e), s)
                | None \<Rightarrow>
                    if int (length (el_ShardIDs l)) \<noteq> TotalShards (el_Params l) then
                      (Inl (Errorf (''DecodeChunkWithEC: expected '' @ itoa (TotalShards (el_Params l))
                         @ '' shard IDs, got '' @ itoa (int (length (el_ShardIDs l))))), s)
                    else
                      (case load_shards S s (el_ShardIDs l) of
                         (shards, s') \<Rightarrow>
                           (fst (ReconstructFromShards rs shards (el_Params l) (el_OrigSize l)), s')))))"

section \<open>Files\<close>

record ECChunkMeta =
  ec_Index :: int
  ec_Layout :: ECChunkLayout

record ECFileMeta =
  ef_Name :: string
  ef_Size :: int
  ef_ChunkSize :: int
  ef_Params :: ECParams
  ef_Chunks :: "ECChunkMeta list"

text \<open>
  The read loop: data first, then the error of the same call. As above, the guard on the
  buffer size repeats the caller's check.
\<close>

function ec_build_loop ::
  "rs_lib \<Rightarrow> 's ChunkStore \<Rightarrow> 's \<Rightarrow> reader \<Rightarrow> nat \<Rightarrow> int \<Rightarrow> ECFileMeta \<Rightarrow> ECFileMeta result \<times> 's" where
  "ec_build_loop rs S s r cs index meta =
     (if cs = 0 then (Inl (Errorf ''BuildECFileMetaFromReader: invalid chunkSize 0''), s) else
      case rd_Read r cs of
        (chunk, err, r') \<Rightarrow>
          (case (if 0 < length chunk then
                   (case EncodeChunkWithEC rs (Some S) s chunk (ef_Params meta) of
                      (Inl e, s') \<Rightarrow>
                        (Inl (Wrapf (''BuildECFileMetaFromReader: chunk '' @ itoa index @ '': '') e), s')
                    | (Inr layout, s') \<Rightarrow>
                        (Inr (meta\<lparr>ef_Chunks := ef_Chunks meta @ [\<lparr>ec_Index = index, ec_Layout = layout\<rparr>],
                                   ef_Size := wrap64 (ef_Size meta + int (length chunk))\<rparr>, index + 1), s'))
                 else (Inr (meta, index), s)) of
             (Inl e, s') \<Rightarrow> (Inl e, s')
           | (Inr (meta', index'), s') \<Rightarrow>
               (case err of
                  Some e \<Rightarrow>
                    if e = Io_EOF then (Inr meta', s')
                    else (Inl (Wrapf ''BuildECFileMetaFromReader: read error: '' e), s')
                | None \<Rightarrow> ec_build_loop rs S s' r' cs index' meta')))"
  by pat_completeness auto
termination
proof (relation "measure (\<lambda>(rs, S, s, r, cs, index, meta). rd_size r)", goal_cases)
  case (2 rs S s r cs index meta chunk y err r')
  then show ?case using rd_Read_size [of r cs chunk r'] by auto
qed simp

declare ec_build_loop.simps [simp del]

definition BuildECFileMetaFromReader ::
  "rs_lib \<Rightarrow> 's ChunkStore option \<Rightarrow> 's \<Rightarrow> string \<Rightarrow> reader \<Rightarrow> int \<Rightarrow> ECParams \<Rightarrow> ECFileMeta result \<times> 's" where
  "BuildECFileMetaFromReader rs store s name r chunkSize params =
     (case store of
        None \<Rightarrow> (Inl (Errorf ''BuildECFileMetaFromReader: store is nil''), s)
      | Some S \<Rightarrow>
          if chunkSize \<le> 0 then
            (Inl (Errorf (''BuildECFileMetaFromReader: invalid chunkSize '' @ itoa chunkSize)), s)
          else
            (case Validate params of
               Some e \<Rightarrow> (Inl (Wrapf ''BuildECFileMetaFromReader: invalid EC params: '' e), s)
             | None \<Rightarrow>
                 ec_build_loop rs S s r (nat chunkSize) 0
                   \<lparr>ef_Name = name, ef_Size = 0, ef_ChunkSize = chunkSize, ef_Params = params, ef_Chunks = []\<rparr>))"

fun reconstruct_chunks ::
  "rs_lib \<Rightarrow> 's ChunkStore \<Rightarrow> 's \<Rightarrow> ECChunkMeta list \<Rightarrow> writer \<Rightarrow> go_error option \<times> 's \<times> writer" where
  "reconstruct_chunks rs S s [] w = (None, s, w)"
| "reconstruct_chunks rs S s (cm # cms) w =
     (case DecodeChunkWithEC rs (Some S) s (Some (ec_Layout cm)) of
        (Inl e, s') \<Rightarrow>
          (Some (Wrapf (''ReconstructFileFromECMeta: chunk '' @ itoa (ec_Index cm) @ '': '') e), s', w)
      | (Inr data, s') \<Rightarrow>
          (case w_Write w data of
             (Some e, w') \<Rightarrow>
               (Some (Wrapf (''ReconstructFileFromECMeta: write chunk '' @ itoa (ec_Index cm) @ '': '') e), s', w')
           | (None, w') \<Rightarrow> reconstruct_chunks rs S s' cms w'))"

definition ReconstructFileFromECMeta ::
  "rs_lib \<Rightarrow> 's ChunkStore option \<Rightarrow> 's \<Rightarrow> ECFileMeta option \<Rightarrow> writer \<Rightarrow> go_error option \<times> 's \<times> writer" where
  "ReconstructFileFromECMeta rs store s meta w =
     (case store of
        None \<Rightarrow> (Some (Errorf ''ReconstructFileFromECMeta: store is nil''), s, w)
      | Some S \<Rightarrow>
          (case meta of
             None \<Rightarrow> (Some (Errorf ''ReconstructFileFromECMeta: meta is nil''), s, w)
           | Some m \<Rightarrow>
               (case Validate (ef_Params m) of
                  Some e \<Rightarrow> (Some (Wrapf ''ReconstructFileFromECMeta: invalid EC params: '' e), s, w)
                | None \<Rightarrow> reconstruct_chunks rs S s (ef_Chunks m) w)))"

section \<open>Reference definitions\<close>

definition ec_shards :: "rs_lib \<Rightarrow> ECParams \<Rightarrow> bytes \<Rightarrow> bytes list" where
  "ec_shards rs p piece = (case EncodeToShards rs piece p of Inl _ \<Rightarrow> [] | Inr sh \<Rightarrow> sh)"

definition layout_of :: "rs_lib \<Rightarrow> ECParams \<Rightarrow> bytes \<Rightarrow> ECChunkLayout" where
  "layout_of rs p piece =
     \<lparr>el_Params = p, el_ShardIDs = map NewChunkID (ec_shards rs p piece), el_OrigSize = int (length piece)\<rparr>"

fun layouts :: "rs_lib \<Rightarrow> ECParams \<Rightarrow> int \<Rightarrow> bytes list \<Rightarrow> ECChunkMeta list" where
  "layouts rs p k [] = []"
| "layouts rs p k (c # cs) = \<lparr>ec_Index = k, ec_Layout = layout_of rs p c\<rparr> # layouts rs p (k + 1) cs"

text \<open>The pieces a sequence of plain reads delivers.\<close>

function rd_pieces :: "reader \<Rightarrow> nat \<Rightarrow> bytes list" where
  "rd_pieces r cs =
     (if cs = 0 then []
      else case rd_Read r cs of
             (c, e, r') \<Rightarrow>
               (if c = [] then [] else [c]) @ (case e of Some _ \<Rightarrow> [] | None \<Rightarrow> rd_pieces r' cs))"
  by pat_completeness auto
termination
proof (relation "measure (\<lambda>(r, cs). rd_size r)", goal_cases)
  case (2 r cs c y e r')
  then show ?case using rd_Read_size [of r cs c r'] by auto
qed simp

declare rd_pieces.simps [simp del]

text \<open>How many shards of a layout a store still has.\<close>

definition shards_left :: "(ChunkID \<Rightarrow> bytes option) \<Rightarrow> ChunkID list \<Rightarrow> nat" where
  "shards_left h ids = length (filter (\<lambda>i. h i \<noteq> None) ids)"

section \<open>Lemmas\<close>

lemma put_shards_put_list:
  "put_shards S s i ds =
     (case put_list S s i ds of
        (Inl (j, e), s') \<Rightarrow> (Inl (Wrapf (''EncodeChunkWithEC: PutChunk shard '' @ itoa (int j) @ '': '') e), s')
      | (Inr is, s') \<Rightarrow> (Inr is, s'))"
  by (induction ds arbitrary: s i) (auto split: prod.splits sum.splits)

lemma layouts_append: "layouts rs p k (a @ b) = layouts rs p k a @ layouts rs p (k + int (length a)) b"
  by (induction a arbitrary: k) (auto simp: algebra_simps)

lemma layouts_member: "p \<in> set ps \<Longrightarrow> \<exists>cm \<in> set (layouts rs q k ps). ec_Layout cm = layout_of rs q p"
  by (induction ps arbitrary: k) auto

lemma layouts_layout: "cm \<in> set (layouts rs p k ps) \<Longrightarrow> \<exists>q \<in> set ps. ec_Layout cm = layout_of rs p q"
  by (induction ps arbitrary: k) auto

lemma rd_pieces_content: "0 < cs \<Longrightarrow> concat (rd_pieces r cs) = rd_content r"
proof (induction r cs rule: rd_pieces.induct)
  case (1 r cs)
  obtain c e r1 where rd: "rd_Read r cs = (c, e, r1)" by (metis prod_cases3)
  show ?case
    using 1 rd rd_Read_content [OF rd] rd_Read_error [of r cs c _ r1]
    by (cases e) (auto simp: rd_pieces.simps [of r])
qed

lemma rd_pieces_bound: "p \<in> set (rd_pieces r cs) \<Longrightarrow> p \<noteq> [] \<and> length p \<le> cs"
proof (induction r cs rule: rd_pieces.induct)
  case (1 r cs)
  obtain c e r1 where rd: "rd_Read r cs = (c, e, r1)" by (metis prod_cases3)
  show ?case
    using 1 rd rd_Read_content [OF rd]
    by (cases e) (auto simp: rd_pieces.simps [of r] split: if_splits)
qed

text \<open>Writing to a writer that does not fail leaves it so.\<close>

lemma reconstruct_chunks_sched:
  "w_sched w = [] \<Longrightarrow> reconstruct_chunks rs S s cms w = (x, s', w') \<Longrightarrow> w_sched w' = []"
  by (induction rs S s cms w arbitrary: x s' w' rule: reconstruct_chunks.induct)
    (auto simp: w_Write_def split: result_splits)

lemma ReconstructFileFromECMeta_sched:
  "ReconstructFileFromECMeta rs store s meta w = (x, s', w') \<Longrightarrow> w_sched w = [] \<Longrightarrow> w_sched w' = []"
  by (auto simp: ReconstructFileFromECMeta_def reconstruct_chunks_sched split: option.splits)

text \<open>What one run of the read loop has done, in terms of the pieces it has read.\<close>

definition ec_built ::
  "rs_lib \<Rightarrow> 's ChunkStore \<Rightarrow> 's \<Rightarrow> int \<Rightarrow> ECFileMeta \<Rightarrow> bytes list \<Rightarrow> ECFileMeta \<Rightarrow> 's \<Rightarrow> bool" where
  "ec_built rs S s k meta ps meta' s' \<longleftrightarrow>
     (\<forall>p \<in> set ps. EncodeToShards rs p (ef_Params meta) = Inr (ec_shards rs (ef_Params meta) p)) \<and>
     ef_Chunks meta' = ef_Chunks meta @ layouts rs (ef_Params meta) k ps \<and>
     ef_Params meta' = ef_Params meta \<and>
     wrap64 (ef_Size meta') = wrap64 (ef_Size meta + int (length (concat ps))) \<and>
     (\<exists>is. put_list S s 0 (concat (map (ec_shards rs (ef_Params meta)) ps)) = (Inr is, s'))"

lemma ec_built_trans:
  assumes "ec_built rs S s k meta ps meta1 s1" and "ec_built rs S s1 (k + int (length ps)) meta1 qs meta2 s2"
  shows "ec_built rs S s k meta (ps @ qs) meta2 s2"
proof -
  have "wrap64 (ef_Size meta2) = wrap64 (wrap64 (ef_Size meta1) + int (length (concat qs)))"
    using assms(2) by (simp add: ec_built_def wrap64_add_left)
  also have "\<dots> = wrap64 (wrap64 (ef_Size meta + int (length (concat ps))) + int (length (concat qs)))"
    using assms(1) by (simp add: ec_built_def)
  also have "\<dots> = wrap64 (ef_Size meta + int (length (concat (ps @ qs))))"
    by (simp only: wrap64_add_left) (simp add: algebra_simps)
  finally have "wrap64 (ef_Size meta2) = wrap64 (ef_Size meta + int (length (concat (ps @ qs))))" .
  moreover have "\<exists>is. put_list S s 0 (concat (map (ec_shards rs (ef_Params meta)) (ps @ qs))) = (Inr is, s2)"
    using assms by (auto simp: ec_built_def intro!: put_list_append)
  ultimately show ?thesis
    using assms unfolding ec_built_def by (auto simp: layouts_append)
qed

context chunk_store
begin

lemma load_shards_healthy:
  assumes "inv s" and "healthy s"
  shows "\<exists>s'. load_shards S s ids = (map (holds s) ids, s') \<and> inv s' \<and> healthy s' \<and> holds s' = holds s"
  using assms
proof (induction ids arbitrary: s)
  case (Cons i "is")
  obtain r s1 where g: "GetChunk S s i = (r, s1)" by fastforce
  then have 1: "inv s1" "healthy s1" "holds s1 = holds s"
    and r: "r = (case holds s i of None \<Rightarrow> Inl Fs_ErrNotExist | Some d \<Rightarrow> Inr d)"
    using get_state get_healthy Cons.prems by blast+
  then obtain s2 where "load_shards S s1 is = (map (holds s1) is, s2)" "inv s2" "healthy s2" "holds s2 = holds s1"
    using Cons.IH by blast
  with g 1 r show ?case by (auto split: option.splits)
qed simp

lemma EncodeChunkWithEC_ok:
  assumes "inv s" and "EncodeChunkWithEC rs (Some S) s data p = (Inr l, s')"
  shows "EncodeToShards rs data p = Inr (ec_shards rs p data)" and "l = layout_of rs p data"
    and "put_list S s 0 (ec_shards rs p data) = (Inr (map NewChunkID (ec_shards rs p data)), s')"
    and "inv s'"
proof -
  obtain sh "is" where sh: "EncodeToShards rs data p = Inr sh" and p: "put_list S s 0 sh = (Inr is, s')"
    and l: "l = \<lparr>el_Params = p, el_ShardIDs = is, el_OrigSize = int (length data)\<rparr>"
    using assms(2) by (auto simp: EncodeChunkWithEC_def put_shards_put_list split: sum.splits prod.splits)
  have "is = map NewChunkID sh" using put_list_ids assms(1) p by blast
  with sh p l show "EncodeToShards rs data p = Inr (ec_shards rs p data)" and "l = layout_of rs p data"
    and "put_list S s 0 (ec_shards rs p data) = (Inr (map NewChunkID (ec_shards rs p data)), s')"
    by (simp_all add: ec_shards_def layout_of_def)
  show "inv s'" using put_list_inv assms(1) p by blast
qed

text \<open>Decoding from a store that has at least \<open>k\<close> of the shards, and no wrong ones.\<close>

lemma DecodeChunkWithEC_recovers:
  assumes g: "good_counts k m" and rs: "rs_correct rs k m"
    and s: "inv s" "healthy s"
    and own: "\<And>x. x \<in> set (ec_shards rs (ec_params k m) data) \<Longrightarrow>
      holds s (NewChunkID x) = None \<or> holds s (NewChunkID x) = Some x"
    and left: "k \<le> shards_left (holds s) (map NewChunkID (ec_shards rs (ec_params k m) data))"
  shows "\<exists>s'. DecodeChunkWithEC rs (Some S) s (Some (layout_of rs (ec_params k m) data)) = (Inr data, s') \<and>
    inv s' \<and> healthy s' \<and> holds s' = holds s"
proof -
  let ?p = "ec_params k m"
  let ?ids = "map NewChunkID (ec_shards rs ?p data)"
  obtain s' where ld: "load_shards S s ?ids = (map (holds s) ?ids, s')"
    and s': "inv s'" "healthy s'" "holds s' = holds s"
    using load_shards_healthy [OF s] by blast
  have new: "rs_New rs (int k) (int m) = None" using rs by (simp add: rs_correct_def)
  have valid: "Validate ?p = None" and total: "TotalShards ?p = int (k + m)"
    using good_counts_valid [OF g] good_counts_total [OF g] by auto
  have "fst (ReconstructFromShards rs (map (holds s) ?ids) ?p (int (length data))) = Inr data
    \<and> length (ec_shards rs ?p data) = k + m"
  proof (cases "data = []")
    case True
    have "ec_shards rs ?p data = replicate (k + m) []"
      using True new valid total by (simp add: ec_shards_def EncodeToShards_def nat_int_add)
    with True valid total show ?thesis by (simp add: ReconstructFromShards_def)
  next
    case False
    from g rs False obtain enc sz where e: "EncodeToShards rs data ?p = Inr enc"
      "equal_shards (k + m) sz enc" "0 < sz" "length data \<le> k * sz"
      "concat (take k enc) = data @ replicate (k * sz - length data) 0"
      and rec: "\<And>keep. length keep = k + m \<Longrightarrow> k \<le> length (filter id keep) \<Longrightarrow>
        rs_Reconstruct rs (int k) (int m) (keep_shards keep enc) = (None, map Some enc)"
      by (rule EncodeToShards_ok) blast
    have enc: "ec_shards rs ?p data = enc" using e(1) by (simp add: ec_shards_def)
    have len: "length enc = k + m" using e(2) by (simp add: equal_shards_def)
    define keep where "keep = map (\<lambda>x. holds s (NewChunkID x) \<noteq> None) enc"
    have "map (holds s) ?ids = keep_shards keep enc"
      using keep_shards_map [of enc "\<lambda>x. holds s (NewChunkID x)"] own enc by (simp add: keep_def comp_def)
    moreover have "k \<le> length (filter id keep)"
      using left enc by (simp add: shards_left_def keep_def filter_map comp_def)
    ultimately show ?thesis
      using ReconstructFromShards_encoded [OF g new e(2,3,4), of keep] rec [of keep] e(5) False len enc
      by (simp add: keep_def)
  qed
  then show ?thesis
    using ld s' valid total by (simp add: DecodeChunkWithEC_def layout_of_def)
qed

text \<open>The read loop stores the shards of the pieces that the reader delivers.\<close>

lemma ec_built_chunk:
  assumes "inv s" and "EncodeChunkWithEC rs (Some S) s c (ef_Params meta) = (Inr l, s1)"
  shows "ec_built rs S s k meta [c]
    (meta\<lparr>ef_Chunks := ef_Chunks meta @ [\<lparr>ec_Index = k, ec_Layout = l\<rparr>],
          ef_Size := wrap64 (ef_Size meta + int (length c))\<rparr>) s1"
  using EncodeChunkWithEC_ok [OF assms]
  by (auto simp: ec_built_def wrap64_id wrap64_range)

lemma ec_build_loop_ok:
  assumes "inv s" and "0 < cs" and "ec_build_loop rs S s r cs k meta = (Inr meta', s')"
  shows "rd_err r = Io_EOF \<and> ec_built rs S s k meta (rd_pieces r cs) meta' s' \<and> inv s'"
  using assms
proof (induction "rd_size r" arbitrary: s r k meta rule: less_induct)
  case less
  obtain c e r1 where rd: "rd_Read r cs = (c, e, r1)" by (metis prod_cases3)
  define ps1 where "ps1 = (if c = [] then [] else [c])"
  let ?tail = "\<lambda>meta1 s1. case e of
      Some x \<Rightarrow> if x = Io_EOF then (Inr meta1, s1)
                else (Inl (Wrapf ''BuildECFileMetaFromReader: read error: '' x), s1)
    | None \<Rightarrow> ec_build_loop rs S s1 r1 cs (k + int (length ps1)) meta1"
  have "\<exists>meta1 s1. ec_built rs S s k meta ps1 meta1 s1 \<and> inv s1 \<and> ?tail meta1 s1 = (Inr meta', s')"
  proof (cases "c = []")
    case True
    then have "ec_built rs S s k meta ps1 meta s" by (simp add: ps1_def ec_built_def)
    moreover have "?tail meta s = (Inr meta', s')"
      using True rd less.prems by (cases e) (simp_all add: ec_build_loop.simps [of rs S s r] ps1_def)
    ultimately show ?thesis using less.prems(1) by blast
  next
    case False
    obtain r2 s1 where enc: "EncodeChunkWithEC rs (Some S) s c (ef_Params meta) = (r2, s1)" by fastforce
    obtain l where l: "r2 = Inr l"
      using False rd less.prems(2,3) enc by (cases r2) (simp_all add: ec_build_loop.simps [of rs S s r])
    let ?meta1 = "meta\<lparr>ef_Chunks := ef_Chunks meta @ [\<lparr>ec_Index = k, ec_Layout = l\<rparr>],
          ef_Size := wrap64 (ef_Size meta + int (length c))\<rparr>"
    have "ec_built rs S s k meta ps1 ?meta1 s1"
      using ec_built_chunk [OF less.prems(1), of rs c meta l s1 k] enc l False by (simp add: ps1_def)
    moreover have "inv s1" using EncodeChunkWithEC_ok(4) less.prems(1) enc l by blast
    moreover have "?tail ?meta1 s1 = (Inr meta', s')"
      using False rd less.prems enc l by (cases e) (simp_all add: ec_build_loop.simps [of rs S s r] ps1_def)
    ultimately show ?thesis by blast
  qed
  then obtain meta1 s1 where step: "ec_built rs S s k meta ps1 meta1 s1" "inv s1"
    and tail: "?tail meta1 s1 = (Inr meta', s')" by blast
  have pieces: "rd_pieces r cs = ps1 @ (case e of Some _ \<Rightarrow> [] | None \<Rightarrow> rd_pieces r1 cs)"
    using rd less.prems(2) by (simp add: rd_pieces.simps [of r] ps1_def)
  show ?case
  proof (cases e)
    case (Some x)
    with tail have "meta' = meta1" "s' = s1" "x = Io_EOF" by (auto split: if_splits)
    with Some rd_Read_error [of r cs c x r1] rd step pieces show ?thesis by simp
  next
    case None
    then have "rd_err r1 = Io_EOF \<and> ec_built rs S s1 (k + int (length ps1)) meta1 (rd_pieces r1 cs) meta' s' \<and> inv s'"
      using less.hyps [of r1 s1] tail rd_Read_size [of r cs c r1] rd less.prems(2) step(2) by auto
    then show ?thesis
      using ec_built_trans [OF step(1)] rd_Read_content [OF rd] pieces None by auto
  qed
qed

lemma reconstruct_chunks_ok:
  assumes g: "good_counts k m" and rs: "rs_correct rs k m"
    and s: "inv s" "healthy s" and w: "w_sched w = []"
    and own: "\<And>p x. p \<in> set ps \<Longrightarrow> x \<in> set (ec_shards rs (ec_params k m) p) \<Longrightarrow>
      holds s (NewChunkID x) = None \<or> holds s (NewChunkID x) = Some x"
    and left: "\<And>p. p \<in> set ps \<Longrightarrow>
      k \<le> shards_left (holds s) (map NewChunkID (ec_shards rs (ec_params k m) p))"
  shows "\<exists>s' w'. reconstruct_chunks rs S s (layouts rs (ec_params k m) j ps) w = (None, s', w') \<and>
    w_out w' = w_out w @ concat ps"
  using s w own left
proof (induction ps arbitrary: s w j)
  case (Cons p ps)
  obtain s1 where dec: "DecodeChunkWithEC rs (Some S) s (Some (layout_of rs (ec_params k m) p)) = (Inr p, s1)"
    and s1: "inv s1" "healthy s1" "holds s1 = holds s"
    using DecodeChunkWithEC_recovers [OF g rs Cons.prems(1,2), of p] Cons.prems by auto
  have wr: "w_Write w p = (None, w\<lparr>w_out := w_out w @ p\<rparr>)" using Cons.prems(3) by (simp add: w_Write_def)
  obtain s' w' where "reconstruct_chunks rs S s1 (layouts rs (ec_params k m) (j + 1) ps) (w\<lparr>w_out := w_out w @ p\<rparr>)
      = (None, s', w')" "w_out w' = (w_out w @ p) @ concat ps"
    using Cons.IH [of s1 "w\<lparr>w_out := w_out w @ p\<rparr>" "j + 1"] s1 Cons.prems by auto
  with dec wr show ?case by simp
qed simp

text \<open>
  A stored file is recovered from a store that may have lost chunks but, for each chunk of
  the file, still has \<open>k\<close> of its shards.
\<close>

lemma ec_file_recovered:
  assumes g: "good_counts k m" and rs: "rs_correct rs k m" and s: "inv s"
    and build: "BuildECFileMetaFromReader rs (Some S) s name r cs (ec_params k m) = (Inr meta, s1)"
  defines "shards \<equiv> concat (map (ec_shards rs (ec_params k m)) (rd_pieces r (nat cs)))"
  assumes inj: "inj_on NewChunkID (set shards \<union> ran (holds s))"
    and s2: "inv s2" "healthy s2" "holds s2 \<subseteq>\<^sub>m holds s1"
    and left: "\<And>cm. cm \<in> set (ef_Chunks meta) \<Longrightarrow> k \<le> shards_left (holds s2) (el_ShardIDs (ec_Layout cm))"
    and w: "w_sched w = []"
  shows "\<exists>s3 w'. ReconstructFileFromECMeta rs (Some S) s2 (Some meta) w = (None, s3, w') \<and>
    w_out w' = w_out w @ rd_content r"
proof -
  let ?ps = "rd_pieces r (nat cs)" and ?p = "ec_params k m"
  have cs: "0 < cs" and loop: "ec_build_loop rs S s r (nat cs) 0
      \<lparr>ef_Name = name, ef_Size = 0, ef_ChunkSize = cs, ef_Params = ?p, ef_Chunks = []\<rparr> = (Inr meta, s1)"
    using build by (auto simp: BuildECFileMetaFromReader_def split: if_splits option.splits)
  have built: "ef_Chunks meta = layouts rs ?p 0 ?ps" "ef_Params meta = ?p"
    and put: "\<exists>is. put_list S s 0 shards = (Inr is, s1)"
    using ec_build_loop_ok [OF s _ loop] cs by (auto simp: ec_built_def shards_def)
  have own: "holds s2 (NewChunkID x) = None \<or> holds s2 (NewChunkID x) = Some x"
    if "p \<in> set ?ps" "x \<in> set (ec_shards rs ?p p)" for p x
  proof -
    have "x \<in> set shards" using that by (auto simp: shards_def)
    then have "holds s1 (NewChunkID x) = Some x" using put put_list_stores [OF s] inj by blast
    then show ?thesis using s2(3) by (cases "holds s2 (NewChunkID x)") (auto simp: map_le_def dom_def)
  qed
  have left': "k \<le> shards_left (holds s2) (map NewChunkID (ec_shards rs ?p p))" if "p \<in> set ?ps" for p
    using left layouts_member [OF that] built(1) by (fastforce simp: layout_of_def)
  have "\<exists>s3 w'. reconstruct_chunks rs S s2 (layouts rs ?p 0 ?ps) w = (None, s3, w') \<and>
      w_out w' = w_out w @ concat ?ps"
    by (rule reconstruct_chunks_ok [OF g rs s2(1,2) w]) (use own left' in auto)
  then obtain s3 w' where "reconstruct_chunks rs S s2 (layouts rs ?p 0 ?ps) w = (None, s3, w')"
    "w_out w' = w_out w @ concat ?ps"
    by blast
  moreover have "concat ?ps = rd_content r" using rd_pieces_content cs by simp
  ultimately show ?thesis
    using built good_counts_valid [OF g] by (simp add: ReconstructFileFromECMeta_def)
qed

text \<open>Without failing operations every file that ends with \<^verbatim>\<open>io.EOF\<close> is stored.\<close>

lemma EncodeChunkWithEC_healthy:
  assumes "good_counts k m" and "rs_correct rs k m" and "inv s" and "healthy s" and "data \<noteq> []"
  shows "\<exists>l s'. EncodeChunkWithEC rs (Some S) s data (ec_params k m) = (Inr l, s') \<and> inv s' \<and> healthy s'"
proof -
  obtain enc where enc: "EncodeToShards rs data (ec_params k m) = Inr enc"
    using EncodeToShards_ok [OF assms(1,2,5)] by blast
  obtain x s' where p: "put_list S s 0 enc = (x, s')" by fastforce
  have "healthy s'" "x = Inr (map NewChunkID enc)" "inv s'"
    using put_list_healthy [OF assms(3,4) p] put_list_inv [OF assms(3) p] by auto
  with enc p show ?thesis by (simp add: EncodeChunkWithEC_def put_shards_put_list)
qed

lemma ec_build_loop_healthy:
  assumes "good_counts k m" and "rs_correct rs k m" and "0 < cs"
    and "inv s" and "healthy s" and "rd_err r = Io_EOF" and "ef_Params meta = ec_params k m"
  shows "\<exists>meta' s'. ec_build_loop rs S s r cs j meta = (Inr meta', s') \<and> healthy s'"
  using assms(4-)
proof (induction "rd_size r" arbitrary: s r j meta rule: less_induct)
  case less
  obtain c e r1 where rd: "rd_Read r cs = (c, e, r1)" by (metis prod_cases3)
  have loop: "\<exists>meta' s'. ec_build_loop rs S s1 r1 cs j1 meta1 = (Inr meta', s') \<and> healthy s'"
    if "e = None" "inv s1" "healthy s1" "ef_Params meta1 = ec_params k m" for s1 j1 meta1
    using that rd rd_Read_size [of r cs c r1] rd_Read_content [OF rd] less.prems(3) assms(3)
    by (intro less.hyps) auto
  have eof: "e = Some x \<Longrightarrow> x = Io_EOF" for x
    using rd_Read_error [of r cs c x r1] rd less.prems(3) by simp
  show ?case
  proof (cases "c = []")
    case True
    with rd assms(3) less.prems eof loop show ?thesis
      by (cases e) (simp_all add: ec_build_loop.simps [of rs S s r])
  next
    case False
    obtain l s1 where enc: "EncodeChunkWithEC rs (Some S) s c (ef_Params meta) = (Inr l, s1)"
      and s1: "inv s1" "healthy s1"
      using EncodeChunkWithEC_healthy [OF assms(1,2) less.prems(1,2) False] less.prems(4) by auto
    with rd assms(3) less.prems eof loop False show ?thesis
      by (cases e) (simp_all add: ec_build_loop.simps [of rs S s r])
  qed
qed

lemma BuildEC_healthy:
  assumes "good_counts k m" and "rs_correct rs k m" and "0 < cs" and "inv s" and "healthy s"
    and "rd_err r = Io_EOF"
  shows "\<exists>meta s'. BuildECFileMetaFromReader rs (Some S) s name r cs (ec_params k m) = (Inr meta, s') \<and>
    inv s' \<and> healthy s'"
proof -
  let ?meta = "\<lparr>ef_Name = name, ef_Size = 0, ef_ChunkSize = cs, ef_Params = ec_params k m, ef_Chunks = []\<rparr>"
  obtain meta s' where loop: "ec_build_loop rs S s r (nat cs) 0 ?meta = (Inr meta, s')" and h: "healthy s'"
    using ec_build_loop_healthy [OF assms(1,2) _ assms(4-6), of "nat cs" ?meta 0] assms(3) by auto
  have "inv s'" using ec_build_loop_ok [OF assms(4) _ loop] assms(3) by simp
  with loop h assms(3) good_counts_valid [OF assms(1)] show ?thesis
    by (simp add: BuildECFileMetaFromReader_def)
qed

text \<open>Every shard that the description names is in the store.\<close>

lemma BuildEC_shards_stored:
  assumes "inv s" and "BuildECFileMetaFromReader rs (Some S) s name r cs p = (Inr meta, s1)"
    and "inj_on NewChunkID (set (concat (map (ec_shards rs p) (rd_pieces r (nat cs)))) \<union> ran (holds s))"
    and "cm \<in> set (ef_Chunks meta)" and "i \<in> set (el_ShardIDs (ec_Layout cm))"
  shows "holds s1 i \<noteq> None"
proof -
  let ?ps = "rd_pieces r (nat cs)"
  have cs: "0 < cs" and loop: "ec_build_loop rs S s r (nat cs) 0
      \<lparr>ef_Name = name, ef_Size = 0, ef_ChunkSize = cs, ef_Params = p, ef_Chunks = []\<rparr> = (Inr meta, s1)"
    using assms(2) by (auto simp: BuildECFileMetaFromReader_def split: if_splits option.splits)
  have chunks: "ef_Chunks meta = layouts rs p 0 ?ps"
    and put: "\<exists>is. put_list S s 0 (concat (map (ec_shards rs p) ?ps)) = (Inr is, s1)"
    using ec_build_loop_ok [OF assms(1) _ loop] cs by (auto simp: ec_built_def)
  obtain q where q: "q \<in> set ?ps" "ec_Layout cm = layout_of rs p q"
    using assms(4) layouts_layout unfolding chunks by blast
  then obtain x where x: "x \<in> set (ec_shards rs p q)" "i = NewChunkID x"
    using assms(5) by (auto simp: layout_of_def)
  then have "x \<in> set (concat (map (ec_shards rs p) ?ps))" using q by auto
  then show ?thesis using put put_list_stores [OF assms(1)] assms(3) x(2) by blast
qed

end

end
