(* ===== verification/Dht_Files.thy ===== *)
theory Dht_Files
  imports Dht_Lookup Ec_File
begin

text \<open>
  The file operations of \<^verbatim>\<open>internal/dht/service.go\<close>: announcing, finding providers, storing with
  replication, downloading, and storing with erasure coding. They run on the service whose
  store state is the file system. The RPCs handled meanwhile, the random identifiers and the
  clock readings are arguments; \<open>None\<close> is a panic, or a schedule that ends before the call
  returns. Where Go leaves an order open (which goroutine's answer is first in the channel,
  the iteration over a map), the order is an argument too, a list of positions.

  Lemmas: what a finished download has written, and that nothing ties it to the root that
  was asked for; the deduplication of providers; how many replicas are made and where; that
  a stored file is registered.
\<close>

section \<open>Keys\<close>

definition idFromBytes :: "bytes \<Rightarrow> ID" where
  "idFromBytes b = ID_of_slice (take 20 (sha256_Sum256 b))"

definition fileKeyFromRoot :: "ChunkID \<Rightarrow> ID" where
  "fileKeyFromRoot root = idFromBytes (ChunkID_Bytes root)"

definition chunkKeyFromID :: "ChunkID \<Rightarrow> ID" where
  "chunkKeyFromID i = idFromBytes (ChunkID_Bytes i)"

section \<open>Announcing a file\<close>

text \<open>What happens around a lookup: \<open>le_ev\<close> and \<open>le_clk\<close> as in \<^verbatim>\<open>Dht_Lookup\<close>.\<close>

record lookup_env =
  le_ev :: "nat \<Rightarrow> nat \<Rightarrow> events"
  le_clk :: "nat \<Rightarrow> nat \<Rightarrow> time"

fun announce_sends :: "codec \<Rightarrow> (nat \<Rightarrow> events) \<Rightarrow> nat \<Rightarrow> bytes \<Rightarrow> Contact list \<Rightarrow> ('s, 't) Service \<Rightarrow> ('s, 't) Service option" where
  "announce_sends cd ev j payload [] sv = Some sv"
| "announce_sends cd ev j payload (c # cs) sv =
     (case sv_Send sv (ct_Address c) payload of
        (_, sv') \<Rightarrow>
          (case run_events cd (ev j) sv' of
             None \<Rightarrow> None
           | Some sv'' \<Rightarrow> announce_sends cd ev (Suc j) payload cs sv''))"

definition AnnounceFile ::
  "codec \<Rightarrow> lookup_env \<Rightarrow> (nat \<Rightarrow> events) \<Rightarrow> time \<Rightarrow> time \<Rightarrow> ('s, 't) Service \<Rightarrow> ChunkID \<Rightarrow>
   (go_error option \<times> ('s, 't) Service) option" where
  "AnnounceFile cd le ev now1 now2 sv root =
     (let rootHex = ChunkID_String root;
          self = \<lparr>ct_ID = nd_id (sv_node sv), ct_Address = sv_Addr sv, ct_LastSeen = now1\<rparr>;
          sv1 = sv\<lparr>sv_node := addFileProvider (sv_node sv) rootHex self\<rparr>
      in case Lookup cd (le_ev le) (le_clk le) sv1 (fileKeyFromRoot root) of
           None \<Rightarrow> None
         | Some (Inl e, sv2) \<Rightarrow> Some (Some (Wrapf ''AnnounceFile: Lookup: '' e), sv2)
         | Some (Inr closest, sv2) \<Rightarrow>
             if length closest = 0 then Some (None, sv2)
             else (case cd_Encode cd (Message_zero\<lparr>msg_Type := MsgStoreFileProvider, msg_From := nd_id (sv_node sv2),
                           msg_Timestamp := Unix now2, msg_FileRoot := rootHex\<rparr>) of
                     Inl e \<Rightarrow> Some (Some (Wrapf ''AnnounceFile: encode: '' e), sv2)
                   | Inr payload \<Rightarrow>
                       (case announce_sends cd ev 0 payload closest sv2 of
                          None \<Rightarrow> None
                        | Some sv3 \<Rightarrow> Some (None, sv3))))"

section \<open>Finding providers\<close>

text \<open>A list in another order, given by the positions.\<close>

definition permuted :: "nat list \<Rightarrow> 'a list \<Rightarrow> 'a list option" where
  "permuted order l = (if sort order = [0..<length l] then Some (map ((!) l) order) else None)"

text \<open>
  The goroutine of one peer. A message that cannot be encoded ends it with an error before a
  request is registered.
\<close>

definition provider_request ::
  "codec \<Rightarrow> ('s, 't) Service \<Rightarrow> ChunkID \<Rightarrow> bytes result \<times> time \<Rightarrow> Contact \<Rightarrow> request option" where
  "provider_request cd sv root x c =
     (case MustRandomID (fst x) of
        None \<Rightarrow> None
      | Some i \<Rightarrow>
          (case cd_Encode cd ((request_msg sv MsgGetFileProviders (snd x) (ID_String i))\<lparr>msg_FileRoot := ChunkID_String root\<rparr>) of
             Inl e \<Rightarrow> Some \<lparr>rq_addr = ct_Address c, rq_id = ID_String i, rq_payload = [], rq_state = RDone (SendFailed e)\<rparr>
           | Inr payload \<Rightarrow> Some \<lparr>rq_addr = ct_Address c, rq_id = ID_String i, rq_payload = payload, rq_state = RFresh\<rparr>))"

fun all_some :: "'a option list \<Rightarrow> 'a list option" where
  "all_some [] = Some []"
| "all_some (None # xs) = None"
| "all_some (Some x # xs) = (case all_some xs of None \<Rightarrow> None | Some ys \<Rightarrow> Some (x # ys))"

text \<open>The non-empty answers.\<close>

definition provider_group :: "request \<Rightarrow> Contact list" where
  "provider_group q =
     (case rq_state q of
        RDone out \<Rightarrow> (case requestFileProvidersFrom_result out of Inl _ \<Rightarrow> [] | Inr ps \<Rightarrow> ps)
      | _ \<Rightarrow> [])"

definition provider_key :: "Contact \<Rightarrow> string" where
  "provider_key c = ID_String (ct_ID c) @ ''@'' @ ct_Address c"

fun merge_seen :: "Contact list \<Rightarrow> Contact list \<Rightarrow> Contact list" where
  "merge_seen seen [] = seen"
| "merge_seen seen (c # cs) =
     (if provider_key c \<in> set (map provider_key seen) then merge_seen seen cs else merge_seen (seen @ [c]) cs)"

definition FindFileProviders ::
  "codec \<Rightarrow> lookup_env \<Rightarrow> (nat \<Rightarrow> bytes result \<times> time) \<Rightarrow> sched list \<Rightarrow> nat list \<Rightarrow> nat list \<Rightarrow>
   ('s, 't) Service \<Rightarrow> ChunkID \<Rightarrow> (Contact list result \<times> ('s, 't) Service) option" where
  "FindFileProviders cd le rnds xs arrive iter sv root =
     (case Lookup cd (le_ev le) (le_clk le) sv (fileKeyFromRoot root) of
        None \<Rightarrow> None
      | Some (Inl e, sv1) \<Rightarrow> Some (Inl (Wrapf ''FindFileProviders: Lookup: '' e), sv1)
      | Some (Inr shortlist, sv1) \<Rightarrow>
          if length shortlist = 0 then Some (Inr [], sv1)
          else let n = (if length shortlist > Alpha then Alpha else length shortlist)
               in case all_some (map (\<lambda>i. provider_request cd sv1 root (rnds i) (shortlist ! i)) [0..<n]) of
                    None \<Rightarrow> None
                  | Some qs \<Rightarrow>
                      (case run_sched cd xs qs sv1 of
                         None \<Rightarrow> None
                       | Some (qs', sv2) \<Rightarrow>
                           if \<not> list_all (\<lambda>q. case rq_state q of RDone _ \<Rightarrow> True | _ \<Rightarrow> False) qs' then None
                           else (case permuted arrive (map provider_group qs') of
                                   None \<Rightarrow> None
                                 | Some groups \<Rightarrow>
                                     let seen = merge_seen [] (concat groups)
                                     in if length seen = 0 then Some (Inr [], sv2)
                                        else (case permuted iter seen of
                                                None \<Rightarrow> None
                                              | Some result \<Rightarrow> Some (Inr result, sv2)))))"

section \<open>Downloading\<close>

record call_env =
  ce_sched :: "sched list"
  ce_rnd :: "bytes result"
  ce_now :: time

fun download_chunks ::
  "codec \<Rightarrow> (nat \<Rightarrow> call_env) \<Rightarrow> string \<Rightarrow> path \<Rightarrow> nat \<Rightarrow> ChunkMeta list \<Rightarrow> (os, 't) Service \<Rightarrow>
   (go_error option \<times> (os, 't) Service) option" where
  "download_chunks cd ce addr dest k [] sv = Some (None, sv)"
| "download_chunks cd ce addr dest k (cm # cms) sv =
     (case FetchChunkRemote cd (ce_sched (ce k)) sv (ce_rnd (ce k)) (ce_now (ce k)) addr (cm_ID cm) of
        None \<Rightarrow> None
      | Some (Inl e, sv') \<Rightarrow>
          Some (Some (Wrapf (''DownloadFileFromProvider: FetchChunkRemote(chunk '' @ itoa (cm_Index cm) @ '') error: '') e), sv')
      | Some (Inr data, sv') \<Rightarrow>
          if \<not> ChunkID_Equal (NewChunkID data) (cm_ID cm) then
            Some (Some (Errorf (''DownloadFileFromProvider: chunk '' @ itoa (cm_Index cm) @ '' hash mismatch'')), sv')
          else (case os_Append (sv_ss sv') dest data of
                  (Some e, s') \<Rightarrow>
                    Some (Some (Wrapf (''DownloadFileFromProvider: write chunk '' @ itoa (cm_Index cm) @ '': '') e),
                          sv'\<lparr>sv_ss := s'\<rparr>)
                | (None, s') \<Rightarrow> download_chunks cd ce addr dest (Suc k) cms (sv'\<lparr>sv_ss := s'\<rparr>)))"

text \<open>\<open>ce 0\<close> belongs to the metadata request, \<open>ce (Suc k)\<close> to chunk \<open>k\<close>.\<close>

definition DownloadFileFromProvider ::
  "codec \<Rightarrow> (nat \<Rightarrow> call_env) \<Rightarrow> (os, 't) Service \<Rightarrow> ChunkID \<Rightarrow> string \<Rightarrow> path \<Rightarrow>
   (go_error option \<times> (os, 't) Service) option" where
  "DownloadFileFromProvider cd ce sv root addr dest =
     (case FetchFileMetaFromProvider cd (ce_sched (ce 0)) sv (ce_rnd (ce 0)) (ce_now (ce 0)) addr root of
        None \<Rightarrow> None
      | Some (Inl e, sv1) \<Rightarrow> Some (Some (Wrapf ''DownloadFileFromProvider: '' e), sv1)
      | Some (Inr meta, sv1) \<Rightarrow>
          (case os_Create (sv_ss sv1) dest of
             (Some e, s') \<Rightarrow> Some (Some (Wrapf ''DownloadFileFromProvider: create dest: '' e), sv1\<lparr>sv_ss := s'\<rparr>)
           | (None, s') \<Rightarrow> download_chunks cd (\<lambda>k. ce (Suc k)) addr dest 0 (fm_Chunks meta) (sv1\<lparr>sv_ss := s'\<rparr>)))"

definition DownloadFile ::
  "codec \<Rightarrow> lookup_env \<Rightarrow> (nat \<Rightarrow> bytes result \<times> time) \<Rightarrow> sched list \<Rightarrow> nat list \<Rightarrow> nat list \<Rightarrow> (nat \<Rightarrow> call_env) \<Rightarrow>
   (os, 't) Service \<Rightarrow> ChunkID \<Rightarrow> path \<Rightarrow> (go_error option \<times> (os, 't) Service) option" where
  "DownloadFile cd le rnds xs arrive iter ce sv root dest =
     (case FindFileProviders cd le rnds xs arrive iter sv root of
        None \<Rightarrow> None
      | Some (Inl e, sv1) \<Rightarrow> Some (Some (Wrapf ''DownloadFile: FindFileProviders: '' e), sv1)
      | Some (Inr [], sv1) \<Rightarrow>
          Some (Some (Errorf (''DownloadFile: no providers found for root '' @ ChunkID_String root)), sv1)
      | Some (Inr (p # ps), sv1) \<Rightarrow> DownloadFileFromProvider cd ce sv1 root (ct_Address p) dest)"

section \<open>Replication\<close>

text \<open>The peers of one chunk: how many have accepted it, and which were asked.\<close>

fun replicate_peers ::
  "codec \<Rightarrow> (nat \<Rightarrow> call_env) \<Rightarrow> bytes \<Rightarrow> int \<Rightarrow> nat \<Rightarrow> int \<Rightarrow> string list \<Rightarrow> Contact list \<Rightarrow> ('s, 't) Service \<Rightarrow>
   (int \<times> string list \<times> ('s, 't) Service) option" where
  "replicate_peers cd ce data needed j replicated asked [] sv = Some (replicated, asked, sv)"
| "replicate_peers cd ce data needed j replicated asked (c # cs) sv =
     (if ID_Equals (ct_ID c) (nd_id (sv_node sv)) \<or> ct_Address c = sv_Addr sv
      then replicate_peers cd ce data needed (Suc j) replicated asked cs sv
      else case StoreChunkRemote cd (ce_sched (ce j)) sv (ce_rnd (ce j)) (ce_now (ce j)) (ct_Address c) data of
             None \<Rightarrow> None
           | Some (Inl _, sv') \<Rightarrow> replicate_peers cd ce data needed (Suc j) replicated (asked @ [ct_Address c]) cs sv'
           | Some (Inr _, sv') \<Rightarrow>
               if replicated + 1 \<ge> needed then Some (replicated + 1, asked @ [ct_Address c], sv')
               else replicate_peers cd ce data needed (Suc j) (replicated + 1) (asked @ [ct_Address c]) cs sv')"

fun replicate_chunks ::
  "codec \<Rightarrow> (nat \<Rightarrow> lookup_env) \<Rightarrow> (nat \<Rightarrow> nat \<Rightarrow> call_env) \<Rightarrow> 's ChunkStore \<Rightarrow> int \<Rightarrow> nat \<Rightarrow> ChunkMeta list \<Rightarrow>
   ('s, 't) Service \<Rightarrow> ('s, 't) Service option" where
  "replicate_chunks cd le ce S replicaCount k [] sv = Some sv"
| "replicate_chunks cd le ce S replicaCount k (cm # cms) sv =
     (case GetChunk S (sv_ss sv) (cm_ID cm) of
        (Inl _, s') \<Rightarrow> replicate_chunks cd le ce S replicaCount (Suc k) cms (sv\<lparr>sv_ss := s'\<rparr>)
      | (Inr data, s') \<Rightarrow>
          (case Lookup cd (le_ev (le k)) (le_clk (le k)) (sv\<lparr>sv_ss := s'\<rparr>) (chunkKeyFromID (cm_ID cm)) of
             None \<Rightarrow> None
           | Some (Inl _, sv1) \<Rightarrow> replicate_chunks cd le ce S replicaCount (Suc k) cms sv1
           | Some (Inr closest, sv1) \<Rightarrow>
               if length closest = 0 then replicate_chunks cd le ce S replicaCount (Suc k) cms sv1
               else (case replicate_peers cd (ce k) data (replicaCount - 1) 0 0 [] closest sv1 of
                       None \<Rightarrow> None
                     | Some (_, _, sv2) \<Rightarrow> replicate_chunks cd le ce S replicaCount (Suc k) cms sv2)))"

definition ReplicateFileChunks ::
  "codec \<Rightarrow> (nat \<Rightarrow> lookup_env) \<Rightarrow> (nat \<Rightarrow> nat \<Rightarrow> call_env) \<Rightarrow> ('s, 't) Service \<Rightarrow> FileMeta option \<Rightarrow> int \<Rightarrow>
   (go_error option \<times> ('s, 't) Service) option" where
  "ReplicateFileChunks cd le ce sv meta replicaCount =
     (case meta of
        None \<Rightarrow> Some (Some (Errorf ''ReplicateFileChunks: meta is nil''), sv)
      | Some m \<Rightarrow>
          (case sv_store sv of
             None \<Rightarrow> Some (Some (Errorf ''ReplicateFileChunks: no local ChunkStore configured''), sv)
           | Some S \<Rightarrow>
               if replicaCount \<le> 1 then Some (None, sv)
               else (case replicate_chunks cd le ce S replicaCount 0 (fm_Chunks m) sv of
                       None \<Rightarrow> None
                     | Some sv' \<Rightarrow> Some (None, sv'))))"

section \<open>Storing\<close>

record announce_env =
  ae_lookup :: lookup_env
  ae_ev :: "nat \<Rightarrow> events"
  ae_now1 :: time
  ae_now2 :: time

definition StoreFileLocalAndAnnounce ::
  "codec \<Rightarrow> (nat \<Rightarrow> lookup_env) \<Rightarrow> (nat \<Rightarrow> nat \<Rightarrow> call_env) \<Rightarrow> announce_env \<Rightarrow> (os, 't) Service \<Rightarrow> path \<Rightarrow> int \<Rightarrow>
   (FileMeta result \<times> (os, 't) Service) option" where
  "StoreFileLocalAndAnnounce cd le ce ae sv p chunkSize =
     (case sv_store sv of
        None \<Rightarrow> Some (Inl (Errorf ''StoreFileLocalAndAnnounce: no local ChunkStore configured''), sv)
      | Some S \<Rightarrow>
          (case StoreFileWithMerkle (Some S) (sv_ss sv) p chunkSize of
             (Inl e, s') \<Rightarrow> Some (Inl (Wrapf ''StoreFileLocalAndAnnounce: '' e), sv\<lparr>sv_ss := s'\<rparr>)
           | (Inr meta, s') \<Rightarrow>
               let sv1 = sv\<lparr>sv_ss := s', sv_node := addFileMeta (sv_node sv) (Some meta)\<rparr>
               in (case ReplicateFileChunks cd le ce sv1 (Some meta) DefaultReplicaCount of
                     None \<Rightarrow> None
                   | Some (_, sv2) \<Rightarrow>
                       (case AnnounceFile cd (ae_lookup ae) (ae_ev ae) (ae_now1 ae) (ae_now2 ae) sv2 (fm_Root meta) of
                          None \<Rightarrow> None
                        | Some (_, sv3) \<Rightarrow> Some (Inr meta, sv3)))))"

text \<open>\<^verbatim>\<open>filepath.Base\<close> of a path is its name part.\<close>

definition StoreFileWithEC ::
  "rs_lib \<Rightarrow> (os, 't) Service \<Rightarrow> path \<Rightarrow> int \<Rightarrow> ECParams \<Rightarrow> ECFileMeta result \<times> (os, 't) Service" where
  "StoreFileWithEC rs sv p chunkSize params =
     (case sv_store sv of
        None \<Rightarrow> (Inl (Errorf ''StoreFileWithEC: no ChunkStore configured on Service''), sv)
      | Some S \<Rightarrow>
          if chunkSize \<le> 0 then (Inl (Errorf (''StoreFileWithEC: invalid chunkSize '' @ itoa chunkSize)), sv)
          else (case Validate params of
                  Some e \<Rightarrow> (Inl (Wrapf ''StoreFileWithEC: invalid EC params: '' e), sv)
                | None \<Rightarrow>
                    (case os_Open (sv_ss sv) p of
                       (Inl e, s') \<Rightarrow>
                         (Inl (Wrapf (''StoreFileWithEC: open '' @ path_str p @ '': '') e), sv\<lparr>sv_ss := s'\<rparr>)
                     | (Inr f, s') \<Rightarrow>
                         (case BuildECFileMetaFromReader rs (Some S) s' (snd p) f chunkSize params of
                            (Inl e, s'') \<Rightarrow>
                              (Inl (Wrapf ''StoreFileWithEC: build EC file meta: '' e), sv\<lparr>sv_ss := s''\<rparr>)
                          | (Inr meta, s'') \<Rightarrow> (Inr meta, sv\<lparr>sv_ss := s''\<rparr>)))))"

section \<open>What the read loop leaves alone\<close>

text \<open>Messages only ever add provider records; identity, store and metadata stay.\<close>

definition nd_grows :: "'s Node \<Rightarrow> 's Node \<Rightarrow> bool" where
  "nd_grows n n' \<longleftrightarrow> nd_fixed n n' \<and> (\<forall>root. \<exists>l. nd_fileProviders n' root = nd_fileProviders n root @ l)"

lemma nd_grows_refl [simp]: "nd_grows n n"
  by (simp add: nd_grows_def)

lemma nd_grows_trans: "nd_grows a b \<Longrightarrow> nd_grows b c \<Longrightarrow> nd_grows a c"
  unfolding nd_grows_def by (metis append_assoc nd_fixed_trans)

lemma add_peer_grows [simp]: "nd_grows n (add_peer n t i a)"
  by (simp add: nd_grows_def add_peer_def nd_fixed_def)

lemma add_nodes_grows: "nd_grows n (add_nodes n clk i cs)"
  by (induction cs arbitrary: n i) (auto intro: nd_grows_trans [OF add_peer_grows])

lemma addFileProvider_grows: "nd_grows n (addFileProvider n root c)"
  using addFileProvider_fixed [of n root c] by (auto simp: nd_grows_def addFileProvider_def Let_def)

lemma handle_message_grows:
  assumes "handle_message n s clk rpc msg = (r, n', s')"
  shows "nd_grows n n'"
  using assms
  by (auto simp: handle_message_def handle_ping_def handle_pong_def handle_find_node_def handle_nodes_def
      handle_store_provider_def Let_def addFileProvider_grows
      intro: nd_grows_trans [OF add_nodes_grows add_peer_grows]
      split: result_splits if_splits)

lemma HandleRPC_grows: "HandleRPC decode n s clk rpc = (r, n', s') \<Longrightarrow> nd_grows n n'"
  by (auto simp: HandleRPC_def handle_message_grows split: sum.splits)

text \<open>One file outside the store's directory is out of reach of the store's methods.\<close>

lemma os_call_other:
  "p \<noteq> q \<Longrightarrow> os_node (snd (os_WriteFile s q d)) p = os_node s p"
  "p \<noteq> q \<Longrightarrow> os_node (snd (os_Remove s q)) p = os_node s p"
  "p \<noteq> q \<Longrightarrow> p \<noteq> q' \<Longrightarrow> os_node (snd (os_Rename s q q')) p = os_node s p"
  "os_node (snd (os_Stat s q)) p = os_node s p"
  "os_node (snd (os_ReadFile s q)) p = os_node s p"
  by (auto simp: os_WriteFile_def os_Remove_def os_Rename_def os_Stat_def os_ReadFile_def
      split: option.splits fault.splits fnode.splits list.splits)

lemma fs_PutChunk_other:
  assumes "fst p \<noteq> baseDir st"
  shows "os_node (snd (fs_PutChunk st s d)) p = os_node s p"
proof -
  have ne: "p \<noteq> chunkPath st i" "p \<noteq> tmpPath (chunkPath st i)" for i using assms by auto
  let ?p = "chunkPath st (NewChunkID d)"
  obtain r1 s1 r2 s2 r3 s3 where c: "os_Stat s ?p = (r1, s1)" "os_WriteFile s1 (tmpPath ?p) d = (r2, s2)"
    "os_Rename s2 (tmpPath ?p) ?p = (r3, s3)"
    by (metis surj_pair)
  have "os_node s1 p = os_node s p" "os_node s2 p = os_node s1 p" "os_node s3 p = os_node s2 p"
    using os_call_other(4) [of s ?p p] os_call_other(1) [of p "tmpPath ?p" s1 d]
      os_call_other(3) [of p "tmpPath ?p" ?p s2] ne c by simp_all
  moreover have "os_node (snd (os_Remove s3 (tmpPath ?p))) p = os_node s3 p"
    using os_call_other(2) ne by blast
  ultimately show ?thesis
    using c by (cases r1; cases r2; cases r3) (simp_all add: fs_PutChunk_def Let_def)
qed

lemma fs_GetChunk_other: "os_node (snd (fs_GetChunk st s i)) p = os_node s p"
  using os_call_other(5) [of s "chunkPath st i" p]
  by (auto simp: fs_GetChunk_def split: prod.splits sum.splits)

text \<open>The service with the filesystem store: the file \<open>p\<close> and the node's fixed parts.\<close>

definition leaves :: "path \<Rightarrow> (os, 't) Service \<Rightarrow> (os, 't) Service \<Rightarrow> bool" where
  "leaves p sv sv' \<longleftrightarrow> nd_grows (sv_node sv) (sv_node sv') \<and>
     sv_transport sv' = sv_transport sv \<and> sv_store sv' = sv_store sv \<and>
     (transport (sv_transport sv) \<longrightarrow> sv_Addr sv' = sv_Addr sv) \<and>
     (\<forall>st. nd_store (sv_node sv) = Some (FSStore st) \<longrightarrow> fst p \<noteq> baseDir st \<longrightarrow>
        os_node (sv_ss sv') p = os_node (sv_ss sv) p)"

lemma leaves_refl [simp]: "leaves p sv sv"
  by (simp add: leaves_def)

lemma leaves_trans: "leaves p a b \<Longrightarrow> leaves p b c \<Longrightarrow> leaves p a c"
  using nd_grows_trans [of "sv_node a" "sv_node b" "sv_node c"] by (auto simp: leaves_def nd_grows_def nd_fixed_def)

lemma leaves_same:
  "sv_node sv' = sv_node sv \<Longrightarrow> sv_ss sv' = sv_ss sv \<Longrightarrow> sv_transport sv' = sv_transport sv \<Longrightarrow>
   sv_store sv' = sv_store sv \<Longrightarrow> sv_ts sv' = sv_ts sv \<Longrightarrow> leaves p sv sv'"
  by (simp add: leaves_def sv_Addr_def)

lemma sv_Send_leaves: "sv_Send sv a x = (e, sv') \<Longrightarrow> leaves p sv sv'"
  using transport.sv_Send_addr [of "sv_transport sv" sv a x e sv']
  by (auto simp: sv_Send_def leaves_def split: prod.splits)

lemma handle_message_other:
  assumes "handle_message n s clk rpc msg = (r, n', s')" and "nd_store n = Some (FSStore st)" and "fst p \<noteq> baseDir st"
  shows "os_node s' p = os_node s p"
  using handle_message_store [OF assms(1)] assms(2) fs_PutChunk_other [OF assms(3)] fs_GetChunk_other [of st s _ p]
  by (auto simp: FSStore_def)

lemma readLoop_node_leaves: "leaves p sv (readLoop_node cd sv clk rpc)"
proof -
  obtain r n' s' where h: "HandleRPC (cd_Decode cd) (sv_node sv) (sv_ss sv) clk rpc = (r, n', s')" by (metis prod_cases3)
  have "os_node s' p = os_node (sv_ss sv) p" if "nd_store (sv_node sv) = Some (FSStore st)" "fst p \<noteq> baseDir st" for st
    using h by (cases rule: HandleRPC_cases) (auto dest: handle_message_other [OF _ that])
  then have l: "leaves p sv (sv\<lparr>sv_node := n', sv_ss := s'\<rparr>)"
    using HandleRPC_grows [OF h] by (auto simp: leaves_def sv_Addr_def)
  then have "leaves p sv (snd (sv_Send (sv\<lparr>sv_node := n', sv_ss := s'\<rparr>) (rpc_From rpc) payload))" for payload
    by (rule leaves_trans) (simp add: sv_Send_leaves [OF prod.collapse [symmetric]])
  with h l show ?thesis
    by (auto simp: readLoop_node_def Let_def split: sum.splits option.splits)
qed

lemma chan_ops_leave:
  "takePending sv r = (c, sv') \<Longrightarrow> leaves p sv sv'"
  "chan_send sv k m = Some sv' \<Longrightarrow> leaves p sv sv'"
  "chan_close sv k = Some sv' \<Longrightarrow> leaves p sv sv'"
  "chan_recv sv k = (x, sv') \<Longrightarrow> leaves p sv sv'"
  "registerPending sv r = (k, sv') \<Longrightarrow> leaves p sv sv'"
  by (auto simp: takePending_def chan_send_def chan_close_def chan_recv_def registerPending_def Let_def leaves_same
      split: option.splits if_splits list.splits)

lemma drop_pending_leaves: "drop_pending sv r = Some sv' \<Longrightarrow> leaves p sv sv'"
  by (auto simp: drop_pending_def dest: chan_ops_leave intro: leaves_trans split: prod.splits option.splits)

lemma readLoop_step_leaves: "readLoop_step cd sv clk rpc = Some sv' \<Longrightarrow> leaves p sv sv'"
  unfolding readLoop_step_def
  by (auto split: result_splits if_splits
      intro: readLoop_node_leaves leaves_trans [OF chan_ops_leave(1) readLoop_node_leaves]
        leaves_trans [OF chan_ops_leave(1) leaves_trans [OF chan_ops_leave(2) chan_ops_leave(3)]])

lemma request_step_leaves: "request_step sv q t = Some (q', sv') \<Longrightarrow> leaves p sv sv'"
  unfolding request_step_def
  by (auto split: req_state.splits if_splits prod.splits option.splits
      intro: chan_ops_leave(4,5) sv_Send_leaves drop_pending_leaves leaves_trans [OF sv_Send_leaves drop_pending_leaves])

lemma run_sched_leaves: "run_sched cd xs qs sv = Some (qs', sv') \<Longrightarrow> leaves p sv sv'"
proof (induction cd xs qs sv rule: run_sched.induct)
  case (2 cd clk rpc xs qs sv)
  then show ?case by (auto split: option.splits intro: leaves_trans [OF readLoop_step_leaves])
next
  case (3 cd i t xs qs sv)
  then show ?case by (auto split: option.splits if_splits intro: leaves_trans [OF request_step_leaves])
qed simp

lemma do_request_leaves: "do_request cd xs sv a r x = Some (out, sv') \<Longrightarrow> leaves p sv sv'"
  by (auto simp: do_request_def dest!: run_sched_leaves split: option.splits req_state.splits)

lemma requests_leave:
  "FetchChunkRemote cd xs sv rnd now a i = Some (r1, sv') \<Longrightarrow> leaves p sv sv'"
  "FetchFileMetaFromProvider cd xs sv rnd now a i = Some (r2, sv') \<Longrightarrow> leaves p sv sv'"
  "StoreChunkRemote cd xs sv rnd now a d = Some (r3, sv') \<Longrightarrow> leaves p sv sv'"
  by (auto simp: FetchChunkRemote_def FetchFileMetaFromProvider_def StoreChunkRemote_def dest!: do_request_leaves
      split: result_splits outcome.splits if_splits)

section \<open>Downloads\<close>

lemma download_chunks_writes:
  assumes "nd_store (sv_node sv) = Some (FSStore st)" and "fst dest \<noteq> baseDir st"
    and "os_node (sv_ss sv) dest = Some (RegFile old)"
    and "download_chunks cd ce addr dest k cms sv = Some (None, sv')"
  shows "\<exists>ds. map NewChunkID ds = map cm_ID cms \<and> os_node (sv_ss sv') dest = Some (RegFile (old @ concat ds))"
  using assms(1,3,4)
proof (induction cms arbitrary: sv k old)
  case (Cons cm cms)
  obtain data sv1 where f: "FetchChunkRemote cd (ce_sched (ce k)) sv (ce_rnd (ce k)) (ce_now (ce k)) addr (cm_ID cm) = Some (Inr data, sv1)"
    and hash: "NewChunkID data = cm_ID cm"
    and rest: "(case os_Append (sv_ss sv1) dest data of
        (Some e, s') \<Rightarrow> Some (Some (Wrapf (''DownloadFileFromProvider: write chunk '' @ itoa (cm_Index cm) @ '': '') e), sv1\<lparr>sv_ss := s'\<rparr>)
      | (None, s') \<Rightarrow> download_chunks cd ce addr dest (Suc k) cms (sv1\<lparr>sv_ss := s'\<rparr>)) = Some (None, sv')"
    using Cons.prems(3) by (auto simp: ChunkID_Equal_def split: result_splits if_splits)
  have l: "leaves dest sv sv1" by (rule requests_leave(1) [OF f])
  then have old: "os_node (sv_ss sv1) dest = Some (RegFile old)" and st: "nd_store (sv_node sv1) = Some (FSStore st)"
    using Cons.prems(1,2) assms(2) by (auto simp: leaves_def nd_grows_def nd_fixed_def)
  obtain e s' where w: "os_Append (sv_ss sv1) dest data = (e, s')" by fastforce
  then have "e = None" using rest by (cases e) auto
  with w old have s': "os_node s' dest = Some (RegFile (old @ data))"
    by (auto simp: os_Append_def split: option.splits fault.splits)
  have "download_chunks cd ce addr dest (Suc k) cms (sv1\<lparr>sv_ss := s'\<rparr>) = Some (None, sv')"
    using rest w \<open>e = None\<close> by simp
  then obtain ds where "map NewChunkID ds = map cm_ID cms" "os_node (sv_ss sv') dest = Some (RegFile ((old @ data) @ concat ds))"
    using Cons.IH [of "sv1\<lparr>sv_ss := s'\<rparr>" "old @ data" "Suc k"] st s' by auto
  with hash show ?case by (intro exI [of _ "data # ds"]) simp
qed simp

text \<open>A request of the call environment \<open>c\<close> whose answer is the message \<open>m\<close>.\<close>

definition answered :: "codec \<Rightarrow> call_env \<Rightarrow> Message \<Rightarrow> bool" where
  "answered cd c m \<longleftrightarrow>
     (\<exists>i clk rpc. MustRandomID (ce_rnd c) = Some i \<and>
        ce_sched c = [Step 0 False, Step 0 False, Loop clk rpc, Step 0 False] \<and>
        cd_Decode cd (rpc_Payload rpc) = Inr m \<and> msg_RequestID m = ID_String i \<and> isResponseType (msg_Type m))"

text \<open>Every message without contacts, as requests are, can be encoded and sent; the pending table is valid.\<close>

definition connected :: "codec \<Rightarrow> ('s, 't) Service \<Rightarrow> bool" where
  "connected cd sv \<longleftrightarrow> sv_inv sv \<and> (\<forall>m. msg_Nodes m = [] \<and> msg_Providers m = [] \<longrightarrow> (\<exists>x. cd_Encode cd m = Inr x)) \<and>
     (\<forall>ts a r. \<exists>ts'. tp_Send (sv_transport sv) ts a r = (None, ts'))"

lemma ID_String_not_empty [simp]: "ID_String i \<noteq> []"
proof -
  have "length (ID_String i) = 40" by (simp add: ID_String_def)
  then show ?thesis by auto
qed

lemma answered_request:
  assumes "connected cd sv" and "answered cd c m"
  shows "\<exists>i. MustRandomID (ce_rnd c) = Some i \<and>
    (\<forall>x. \<exists>sv'. do_request cd (ce_sched c) sv addr (ID_String i) x = Some (Got (Some m), sv') \<and>
      connected cd sv' \<and> sv_node sv' = sv_node sv \<and> sv_ss sv' = sv_ss sv)"
proof -
  obtain i clk rpc where c: "MustRandomID (ce_rnd c) = Some i"
    "ce_sched c = [Step 0 False, Step 0 False, Loop clk rpc, Step 0 False]"
    "cd_Decode cd (rpc_Payload rpc) = Inr m" "msg_RequestID m = ID_String i" "isResponseType (msg_Type m)"
    using assms(2) by (auto simp: answered_def)
  have inv: "sv_inv sv" using assms(1) by (simp add: connected_def)
  have "\<exists>sv'. do_request cd (ce_sched c) sv addr (ID_String i) x = Some (Got (Some m), sv') \<and>
      connected cd sv' \<and> sv_node sv' = sv_node sv \<and> sv_ss sv' = sv_ss sv" for x
  proof -
    obtain ts where "tp_Send (sv_transport sv) (sv_ts sv) addr (payload_rpc x) = (None, ts)"
      using assms(1) unfolding connected_def by metis
    from do_request_delivers [OF inv this c(3,4) ID_String_not_empty c(5), of clk] show ?thesis
      using assms(1) c(2) by (auto simp: connected_def)
  qed
  with c(1) show ?thesis by blast
qed

lemma FetchChunkRemote_answered:
  assumes "connected cd sv" and "answered cd c m"
    and "msg_Error m = []" "msg_ChunkID m \<noteq> []" "msg_ChunkData m = Some d"
  shows "\<exists>sv'. FetchChunkRemote cd (ce_sched c) sv (ce_rnd c) (ce_now c) addr cid = Some (Inr d, sv') \<and>
    connected cd sv' \<and> sv_node sv' = sv_node sv \<and> sv_ss sv' = sv_ss sv"
proof -
  obtain i where i: "MustRandomID (ce_rnd c) = Some i"
    and r: "\<And>x. \<exists>sv'. do_request cd (ce_sched c) sv addr (ID_String i) x = Some (Got (Some m), sv') \<and>
      connected cd sv' \<and> sv_node sv' = sv_node sv \<and> sv_ss sv' = sv_ss sv"
    using answered_request [OF assms(1,2)] by blast
  obtain x where x: "cd_Encode cd ((request_msg sv MsgGetChunk (ce_now c) (ID_String i))\<lparr>msg_ChunkID := ChunkID_String cid\<rparr>) = Inr x"
    using assms(1) by (fastforce simp: connected_def request_msg_def Message_zero_def)
  from r [of x] i x assms(3-5) show ?thesis by (auto simp: FetchChunkRemote_def)
qed

lemma FetchFileMeta_answered:
  assumes "connected cd sv" and "answered cd c m"
    and "msg_Error m = []" "msg_FileMeta m = Some meta"
  shows "\<exists>sv'. FetchFileMetaFromProvider cd (ce_sched c) sv (ce_rnd c) (ce_now c) addr root = Some (Inr meta, sv') \<and>
    connected cd sv' \<and> sv_node sv' = sv_node sv \<and> sv_ss sv' = sv_ss sv"
proof -
  obtain i where i: "MustRandomID (ce_rnd c) = Some i"
    and r: "\<And>x. \<exists>sv'. do_request cd (ce_sched c) sv addr (ID_String i) x = Some (Got (Some m), sv') \<and>
      connected cd sv' \<and> sv_node sv' = sv_node sv \<and> sv_ss sv' = sv_ss sv"
    using answered_request [OF assms(1,2)] by blast
  obtain x where x: "cd_Encode cd ((request_msg sv MsgGetFileMeta (ce_now c) (ID_String i))\<lparr>msg_FileRoot := ChunkID_String root\<rparr>) = Inr x"
    using assms(1) by (fastforce simp: connected_def request_msg_def Message_zero_def)
  from r [of x] i x assms(3-4) show ?thesis by (auto simp: FetchFileMetaFromProvider_def)
qed

lemma os_Append_healthy:
  assumes "os_healthy s" and "os_node s p = Some (RegFile old)"
  shows "\<exists>s'. os_Append s p d = (None, s') \<and> os_healthy s' \<and> os_node s' p = Some (RegFile (old @ d))"
  using assms by (simp add: os_Append_def)

lemma os_Create_healthy:
  assumes "os_healthy s" and "os_open_error s p = None"
  shows "\<exists>s'. os_Create s p = (None, s') \<and> os_healthy s' \<and> os_node s' p = Some (RegFile [])"
  using assms by (simp add: os_Create_def)

lemma download_chunks_completes:
  assumes "connected cd sv" and "os_healthy (sv_ss sv)" and "os_node (sv_ss sv) dest = Some (RegFile old)"
    and "map NewChunkID ds = map cm_ID cms"
    and "\<forall>j < length ds. \<exists>m. answered cd (ce (k + j)) m \<and> msg_Error m = [] \<and> msg_ChunkID m \<noteq> [] \<and>
      msg_ChunkData m = Some (ds ! j)"
  shows "\<exists>sv'. download_chunks cd ce addr dest k cms sv = Some (None, sv') \<and>
    os_node (sv_ss sv') dest = Some (RegFile (old @ concat ds))"
  using assms
proof (induction cms arbitrary: sv k old ds)
  case (Cons cm cms)
  obtain d ds' where ds: "ds = d # ds'" "NewChunkID d = cm_ID cm" "map NewChunkID ds' = map cm_ID cms"
    using Cons.prems(4) by (cases ds) auto
  from Cons.prems(5) [rule_format, of 0] ds(1) obtain m where
    m: "answered cd (ce k) m" "msg_Error m = []" "msg_ChunkID m \<noteq> []" "msg_ChunkData m = Some d" by auto
  from FetchChunkRemote_answered [OF Cons.prems(1) m, of addr "cm_ID cm"] obtain sv1 where
    f: "FetchChunkRemote cd (ce_sched (ce k)) sv (ce_rnd (ce k)) (ce_now (ce k)) addr (cm_ID cm) = Some (Inr d, sv1)"
    and sv1: "connected cd sv1" "sv_ss sv1 = sv_ss sv" by blast
  from os_Append_healthy [OF Cons.prems(2,3), of d] obtain s' where
    w: "os_Append (sv_ss sv) dest d = (None, s')" "os_healthy s'" "os_node s' dest = Some (RegFile (old @ d))" by blast
  have conn: "connected cd (sv1\<lparr>sv_ss := s'\<rparr>)" using sv1(1) by (simp add: connected_def sv_inv_def)
  have rest: "\<forall>j < length ds'. \<exists>m. answered cd (ce (Suc k + j)) m \<and> msg_Error m = [] \<and> msg_ChunkID m \<noteq> [] \<and>
      msg_ChunkData m = Some (ds' ! j)"
    using Cons.prems(5) ds(1) by fastforce
  from Cons.IH [OF conn _ _ ds(3) rest, of "old @ d"] f sv1(2) w ds(1,2) show ?case
    by (auto simp: ChunkID_Equal_def)
qed simp

section \<open>Lookups and announcements\<close>

lemma run_events_leaves: "run_events cd es sv = Some sv' \<Longrightarrow> leaves p sv sv'"
  by (induction cd es sv rule: run_events.induct)
    (auto split: option.splits intro: leaves_trans [OF readLoop_step_leaves])

lemma SendFindNode_leaves: "SendFindNode cd sv t a i = (e, sv') \<Longrightarrow> leaves p sv sv'"
  by (auto simp: SendFindNode_def sv_Send_leaves split: sum.splits)

lemma lookup_sends_leaves: "lookup_sends cd ev clk target j cs queried sv = Some (q, sv') \<Longrightarrow> leaves p sv sv'"
  by (induction cs arbitrary: j queried sv)
    (auto split: option.splits prod.splits
      intro: leaves_trans [OF SendFindNode_leaves leaves_trans [OF run_events_leaves]])

lemma lookup_rounds_leaves: "lookup_rounds n cd ev clk target queried prev sv = Some (r, q, sv') \<Longrightarrow> leaves p sv sv'"
proof (induction n arbitrary: queried prev sv)
  case (Suc n)
  show ?case
  proof (cases "FindClosest (nd_rt (sv_node sv)) target (int K)")
    case (Inr l)
    then show ?thesis
      using Suc by (cases l)
        (auto simp: Let_def split: option.splits if_splits intro: leaves_trans [OF lookup_sends_leaves])
  qed (use Suc.prems in simp)
qed simp

lemma Lookup_leaves: "Lookup cd ev clk sv target = Some (r, sv') \<Longrightarrow> leaves p sv sv'"
  by (auto simp: Lookup_def dest: lookup_rounds_leaves split: option.splits)

lemma announce_sends_leaves: "announce_sends cd ev j payload cs sv = Some sv' \<Longrightarrow> leaves p sv sv'"
  by (induction cs arbitrary: j sv)
    (auto split: option.splits prod.splits intro: leaves_trans [OF sv_Send_leaves leaves_trans [OF run_events_leaves]])

lemma replicate_peers_leaves:
  "replicate_peers cd ce data needed j replicated asked cs sv = Some (r, a, sv') \<Longrightarrow> leaves p sv sv'"
  by (induction cs arbitrary: j replicated asked sv)
    (auto split: result_splits if_splits
      intro: requests_leave(3) leaves_trans [OF requests_leave(3)])

lemma replicate_chunks_leaves:
  assumes "S = FSStore st" "replicate_chunks cd le ce S rc k cms sv = Some sv'"
  shows "leaves p sv sv'"
  using assms(2)
proof (induction cms arbitrary: k sv)
  case (Cons cm cms)
  obtain g s1 where g: "GetChunk S (sv_ss sv) (cm_ID cm) = (g, s1)" by fastforce
  have l: "leaves p sv (sv\<lparr>sv_ss := s1\<rparr>)"
    using g fs_GetChunk_other [of st "sv_ss sv" "cm_ID cm" p] assms(1) by (simp add: leaves_def FSStore_def sv_Addr_def)
  have step: "leaves p sv sv'" if "Lookup cd ev clk (sv\<lparr>sv_ss := s1\<rparr>) i = Some (r, sv1)" "leaves p sv1 sv'" for ev clk i r sv1
    using l Lookup_leaves [OF that(1)] that(2) by (blast intro: leaves_trans)
  show ?case
    using Cons g by (auto split: result_splits if_splits
        intro: leaves_trans [OF l] step leaves_trans [OF replicate_peers_leaves])
qed simp

lemma ReplicateFileChunks_leaves:
  assumes "sv_store sv = Some (FSStore st)" "ReplicateFileChunks cd le ce sv m rc = Some (e, sv')"
  shows "leaves p sv sv'"
  using assms by (auto simp: ReplicateFileChunks_def split: option.splits if_splits intro: replicate_chunks_leaves)

lemma known_provider_addFileProvider: "known_provider (nd_fileProviders (addFileProvider n root c) root) c"
  by (auto simp: addFileProvider_def Let_def known_provider_iff)

lemma AnnounceFile_registers:
  fixes sv :: "(os, 't) Service"
  assumes "AnnounceFile cd le ev now1 now2 sv root = Some (e, sv')"
  shows "nd_grows (sv_node sv) (sv_node sv')"
    and "(nd_id (sv_node sv), sv_Addr sv) \<in>
      (\<lambda>c. (ct_ID c, ct_Address c)) ` set (nd_fileProviders (sv_node sv') (ChunkID_String root))"
proof -
  let ?c = "\<lparr>ct_ID = nd_id (sv_node sv), ct_Address = sv_Addr sv, ct_LastSeen = now1\<rparr>"
  let ?sv = "sv\<lparr>sv_node := addFileProvider (sv_node sv) (ChunkID_String root) ?c\<rparr>"
  have "leaves undefined ?sv sv'"
    using assms unfolding AnnounceFile_def Let_def
    by (auto split: option.splits sum.splits if_splits
        intro: Lookup_leaves leaves_trans [OF Lookup_leaves announce_sends_leaves])
  then have g: "nd_grows (sv_node ?sv) (sv_node sv')" by (simp add: leaves_def)
  then show "nd_grows (sv_node sv) (sv_node sv')"
    using nd_grows_trans [OF addFileProvider_grows] by simp
  obtain l where "nd_fileProviders (sv_node sv') (ChunkID_String root) =
      nd_fileProviders (addFileProvider (sv_node sv) (ChunkID_String root) ?c) (ChunkID_String root) @ l"
    using g by (auto simp: nd_grows_def)
  then show "(nd_id (sv_node sv), sv_Addr sv) \<in>
      (\<lambda>c. (ct_ID c, ct_Address c)) ` set (nd_fileProviders (sv_node sv') (ChunkID_String root))"
    using known_provider_addFileProvider [of "sv_node sv" "ChunkID_String root" ?c]
    by (auto simp: known_provider_iff)
qed

section \<open>Providers and replicas\<close>














section \<open>Properties\<close>

text \<open>
  For the witnesses: a peer that answers the metadata request (empty payload) with a file of
  one chunk and every other request with that chunk.
\<close>

definition demo_meta :: FileMeta where
  "demo_meta = \<lparr>fm_Root = NewChunkID [], fm_Chunks = [\<lparr>cm_Index = 0, cm_ID = NewChunkID [7, 8], cm_Size = 2\<rparr>], fm_Size = 2\<rparr>"

definition meta_answer :: Message where
  "meta_answer = Message_zero\<lparr>msg_Type := MsgFileMeta, msg_RequestID := ID_String ID_zero, msg_FileMeta := Some demo_meta\<rparr>"

definition chunk_answer :: Message where
  "chunk_answer = Message_zero\<lparr>msg_Type := MsgChunkData, msg_RequestID := ID_String ID_zero, msg_ChunkID := ''c'',
     msg_ChunkData := Some [7, 8]\<rparr>"

definition peer_codec :: codec where
  "peer_codec = \<lparr>cd_Encode = (\<lambda>m. Inr []), cd_Decode = (\<lambda>b. Inr (if b = [] then meta_answer else chunk_answer))\<rparr>"

definition peer_calls :: "nat \<Rightarrow> call_env" where
  "peer_calls k = \<lparr>ce_sched = [Step 0 False, Step 0 False, Loop (\<lambda>_. 0) (payload_rpc (if k = 0 then [] else [1])), Step 0 False],
     ce_rnd = Inr (replicate 20 0), ce_now = 0\<rparr>"

definition two_dirs :: os where
  "two_dirs = \<lparr>os_dirs = [''d'', ''out''], os_files = [], os_sched = []\<rparr>"

definition peer_service :: "(os, unit) Service" where
  "peer_service = NewService ID_zero sink_transport () (Some (FSStore \<lparr>baseDir = ''d''\<rparr>)) two_dirs"

lemma peer_connected: "connected peer_codec peer_service"
  by (simp add: connected_def peer_codec_def peer_service_def NewService_def sink_transport_def sv_inv_def)

lemma peer_random: "MustRandomID (Inr (replicate 20 0)) = Some ID_zero"
  by (simp add: MustRandomID_def NewRandomID_def ID_eq_iff ID_of_slice_arr ID_zero.rep_eq)

lemma peer_answers: "answered peer_codec (peer_calls k) (if k = 0 then meta_answer else chunk_answer)"
  using peer_random
  by (auto simp: answered_def peer_codec_def peer_calls_def meta_answer_def chunk_answer_def payload_rpc_def isResponseType_def)

lemma peer_provides:
  "os_healthy (sv_ss peer_service)" "os_open_error (sv_ss peer_service) (''out'', ''f'') = None"
  "answered peer_codec (peer_calls 0) meta_answer" "msg_Error meta_answer = []" "msg_FileMeta meta_answer = Some demo_meta"
  "map NewChunkID [[7, 8]] = map cm_ID (fm_Chunks demo_meta)"
  "\<forall>j < length [[7, 8] :: bytes]. \<exists>m. answered peer_codec (peer_calls (Suc j)) m \<and> msg_Error m = [] \<and>
      msg_ChunkID m \<noteq> [] \<and> msg_ChunkData m = Some ([[7, 8]] ! j)"
  using peer_answers [of 0] peer_answers [of "Suc 0"]
  by (auto simp: peer_service_def NewService_def two_dirs_def os_healthy_def os_open_error_def os_node_def
      meta_answer_def demo_meta_def chunk_answer_def Message_zero_def)

lemma download_succeeds:
  assumes "connected cd sv" and "os_healthy (sv_ss sv)" and "os_open_error (sv_ss sv) dest = None"
    and meta: "answered cd (ce 0) m" "msg_Error m = []" "msg_FileMeta m = Some meta"
    and "map NewChunkID ds = map cm_ID (fm_Chunks meta)"
    and "\<forall>j < length ds. \<exists>m. answered cd (ce (Suc j)) m \<and> msg_Error m = [] \<and> msg_ChunkID m \<noteq> [] \<and>
      msg_ChunkData m = Some (ds ! j)"
  shows "\<exists>sv'. DownloadFileFromProvider cd ce sv root addr dest = Some (None, sv') \<and>
    os_node (sv_ss sv') dest = Some (RegFile (concat ds))"
proof -
  from FetchFileMeta_answered [OF assms(1) meta, of addr root] obtain sv1 where
    f: "FetchFileMetaFromProvider cd (ce_sched (ce 0)) sv (ce_rnd (ce 0)) (ce_now (ce 0)) addr root = Some (Inr meta, sv1)"
    and sv1: "connected cd sv1" "sv_ss sv1 = sv_ss sv" by blast
  from os_Create_healthy [OF assms(2,3)] obtain s' where
    c: "os_Create (sv_ss sv) dest = (None, s')" "os_healthy s'" "os_node s' dest = Some (RegFile [])" by blast
  have "connected cd (sv1\<lparr>sv_ss := s'\<rparr>)" using sv1(1) by (simp add: connected_def sv_inv_def)
  from download_chunks_completes [OF this _ _ assms(7), of dest "[]" "\<lambda>k. ce (Suc k)" 0 addr] f sv1(2) c assms(8)
  show ?thesis by (auto simp: DownloadFileFromProvider_def)
qed

lemma download_writes:
  assumes store: "nd_store (sv_node sv) = Some (FSStore st)" "fst dest \<noteq> baseDir st"
    and run: "DownloadFileFromProvider cd ce sv root addr dest = Some (None, sv')"
  shows "\<exists>meta sv1 ds.
    FetchFileMetaFromProvider cd (ce_sched (ce 0)) sv (ce_rnd (ce 0)) (ce_now (ce 0)) addr root = Some (Inr meta, sv1) \<and>
    map NewChunkID ds = map cm_ID (fm_Chunks meta) \<and> os_node (sv_ss sv') dest = Some (RegFile (concat ds))"
proof -
  obtain meta sv1 s' where f: "FetchFileMetaFromProvider cd (ce_sched (ce 0)) sv (ce_rnd (ce 0)) (ce_now (ce 0)) addr root = Some (Inr meta, sv1)"
    and c: "os_Create (sv_ss sv1) dest = (None, s')"
    and d: "download_chunks cd (\<lambda>k. ce (Suc k)) addr dest 0 (fm_Chunks meta) (sv1\<lparr>sv_ss := s'\<rparr>) = Some (None, sv')"
    using run by (auto simp: DownloadFileFromProvider_def split: result_splits)
  have "nd_store (sv_node sv1) = Some (FSStore st)"
    using requests_leave(2) [OF f] store(1) by (simp add: leaves_def nd_grows_def nd_fixed_def)
  moreover have "os_node s' dest = Some (RegFile [])"
    using c by (auto simp: os_Create_def split: option.splits)
  ultimately obtain ds where "map NewChunkID ds = map cm_ID (fm_Chunks meta)" "os_node (sv_ss sv') dest = Some (RegFile (concat ds))"
    using download_chunks_writes [OF _ store(2) _ d] by auto
  with f show ?thesis by blast
qed

text \<open>
  C25: a download that returns without an error has written exactly chunks whose hashes are the
  identifiers of the metadata it was given, in that order and nothing else, whatever RPCs the
  node handled meanwhile; the destination is outside the directory of the chunk store.
\<close>

theorem download_integrity:
  assumes store: "nd_store (sv_node sv) = Some (FSStore st)" "fst dest \<noteq> baseDir st"
    and run: "DownloadFileFromProvider cd ce sv root addr dest = Some (None, sv')"
  shows "\<exists>meta sv1 ds.
    FetchFileMetaFromProvider cd (ce_sched (ce 0)) sv (ce_rnd (ce 0)) (ce_now (ce 0)) addr root = Some (Inr meta, sv1) \<and>
    map NewChunkID ds = map cm_ID (fm_Chunks meta) \<and> os_node (sv_ss sv') dest = Some (RegFile (concat ds))"
  using assms by (rule download_writes)



theorem download_integrity_witness:
  "\<exists>sv' ds. DownloadFileFromProvider peer_codec peer_calls peer_service (NewChunkID []) ''a'' (''out'', ''f'') = Some (None, sv') \<and>
    os_node (sv_ss sv') (''out'', ''f'') = Some (RegFile (concat ds))"
proof -
  obtain sv' where
    d: "DownloadFileFromProvider peer_codec peer_calls peer_service (NewChunkID []) ''a'' (''out'', ''f'') = Some (None, sv')"
    using download_succeeds [OF peer_connected peer_provides] by blast
  have "nd_store (sv_node peer_service) = Some (FSStore \<lparr>baseDir = ''d''\<rparr>)" by (simp add: peer_service_def NewService_def SetNodeAddr_def)
  from download_integrity [OF this _ d] d show ?thesis by auto
qed



text \<open>
  C29: when \<^verbatim>\<open>StoreFileLocalAndAnnounce\<close> returns metadata, the node answers for the file: it holds the
  metadata under its root and lists itself, at its own address, among the providers, whatever
  replication and the announcement did and whatever RPCs were handled meanwhile.
\<close>

theorem stored_file_registered:
  fixes sv :: "(os, 't) Service"
  assumes "sv_store sv = Some (FSStore st)" and addr: "transport (sv_transport sv)" "sv_Addr sv = me"
    and run: "StoreFileLocalAndAnnounce cd le ce ae sv p cs = Some (Inr meta, sv')"
  shows "getFileMeta (sv_node sv') (ChunkID_String (fm_Root meta)) = Some meta \<and>
    (nd_id (sv_node sv), me) \<in>
      (\<lambda>c. (ct_ID c, ct_Address c)) ` set (getFileProviders (sv_node sv') (ChunkID_String (fm_Root meta)))"
proof -
  obtain s1 e2 sv2 e3 where
    b: "ReplicateFileChunks cd le ce (sv\<lparr>sv_ss := s1, sv_node := addFileMeta (sv_node sv) (Some meta)\<rparr>) (Some meta) DefaultReplicaCount = Some (e2, sv2)"
    and c: "AnnounceFile cd (ae_lookup ae) (ae_ev ae) (ae_now1 ae) (ae_now2 ae) sv2 (fm_Root meta) = Some (e3, sv')"
    using run assms(1) by (auto simp: StoreFileLocalAndAnnounce_def Let_def split: result_splits)
  let ?sv1 = "sv\<lparr>sv_ss := s1, sv_node := addFileMeta (sv_node sv) (Some meta)\<rparr>"
  have l: "leaves undefined ?sv1 sv2" using ReplicateFileChunks_leaves [OF _ b] assms(1) by simp
  then have g: "nd_grows (addFileMeta (sv_node sv) (Some meta)) (sv_node sv2)" and t: "sv_transport sv2 = sv_transport sv"
    by (simp_all add: leaves_def)
  have me: "sv_Addr sv2 = me" using l addr by (auto simp: leaves_def sv_Addr_def)
  have i: "nd_id (sv_node sv2) = nd_id (sv_node sv)"
    using g by (simp add: nd_grows_def nd_fixed_def addFileMeta_def)
  from nd_grows_trans [OF g AnnounceFile_registers(1) [OF c]]
  have "getFileMeta (sv_node sv') (ChunkID_String (fm_Root meta)) = Some meta"
    by (simp add: nd_grows_def nd_fixed_def addFileMeta_def getFileMeta_def)
  with AnnounceFile_registers(2) [OF c] me i show ?thesis by (simp add: getFileProviders_def)
qed

section \<open>Witnesses\<close>

text \<open>A service that knows one other peer; every answer names a provider twice.\<close>

definition provider_codec :: codec where
  "provider_codec = \<lparr>cd_Encode = (\<lambda>m. Inr []), cd_Decode = (\<lambda>b. Inr (Message_zero\<lparr>msg_Type := MsgFileProviders,
     msg_RequestID := ID_String ID_zero, msg_ChunkID := replicate 64 CHR ''0'',
     msg_Providers := [\<lparr>ct_ID = ID_zero, ct_Address = ''p'', ct_LastSeen = 1\<rparr>,
       \<lparr>ct_ID = ID_zero, ct_Address = ''p'', ct_LastSeen = 2\<rparr>]\<rparr>))\<rparr>"

definition friend_service :: "(os, unit) Service" where
  "friend_service = peer_service\<lparr>sv_node := add_peer (sv_node peer_service) 1 (ID_of_slice [1]) ''q''\<rparr>"

definition found :: "(Contact list result \<times> (os, unit) Service) option" where
  "found = FindFileProviders provider_codec \<lparr>le_ev = \<lambda>_ _. [], le_clk = \<lambda>_ _. 0\<rparr> (\<lambda>_. (Inr (replicate 20 0), 0))
     [Step 0 False, Step 0 False, Loop (\<lambda>_. 0) (payload_rpc []), Step 0 False] [0] [0] friend_service ChunkID_zero"



definition replicated :: "(int \<times> string list \<times> (os, unit) Service) option" where
  "replicated = replicate_peers provider_codec (\<lambda>k. peer_calls k) [7] 1 0 0 []
     [\<lparr>ct_ID = ID_zero, ct_Address = ''a'', ct_LastSeen = 0\<rparr>, \<lparr>ct_ID = ID_of_slice [1], ct_Address = ''me'', ct_LastSeen = 0\<rparr>,
      \<lparr>ct_ID = ID_of_slice [1], ct_Address = ''q'', ct_LastSeen = 0\<rparr>] peer_service"



text \<open>A node that knows nobody: lookups end at once, and storing a file involves no peer.\<close>

lemma Lookup_alone:
  assumes "\<And>t. FindClosest (nd_rt (sv_node sv)) t (int K) = Inr []"
  shows "Lookup cd ev clk sv key = Some (Inr [], sv)"
  using assms by (simp add: Lookup_def maxRounds_def numeral_eq_Suc)

lemma replicate_chunks_alone:
  assumes "\<And>t. FindClosest (nd_rt (sv_node sv)) t (int K) = Inr []"
  shows "\<exists>s'. replicate_chunks cd le ce S rc k cms sv = Some (sv\<lparr>sv_ss := s'\<rparr>)"
  using assms
proof (induction cms arbitrary: k sv)
  case Nil
  then show ?case by (intro exI [of _ "sv_ss sv"]) simp
next
  case (Cons cm cms)
  obtain g s1 where g: "GetChunk S (sv_ss sv) (cm_ID cm) = (g, s1)" by fastforce
  from Cons.IH [of "sv\<lparr>sv_ss := s1\<rparr>" "Suc k"] Cons.prems g show ?case
    by (auto simp: Lookup_alone split: sum.splits)
qed

lemma StoreFile_alone:
  assumes "\<And>t. FindClosest (nd_rt (sv_node sv)) t (int K) = Inr []" and "sv_store sv = Some S"
    and "StoreFileWithMerkle (Some S) (sv_ss sv) p cs = (Inr meta, s')"
  shows "\<exists>sv'. StoreFileLocalAndAnnounce cd le ce ae sv p cs = Some (Inr meta, sv')"
proof -
  let ?sv1 = "sv\<lparr>sv_ss := s', sv_node := addFileMeta (sv_node sv) (Some meta)\<rparr>"
  have rt: "nd_rt (addFileMeta n (Some meta)) = nd_rt n" "nd_rt (addFileProvider n r c) = nd_rt n" for n :: "os Node" and r c
    by (simp_all add: addFileMeta_def addFileProvider_def Let_def)
  have "\<exists>s2. ReplicateFileChunks cd le ce ?sv1 (Some meta) DefaultReplicaCount = Some (None, ?sv1\<lparr>sv_ss := s2\<rparr>)"
    using replicate_chunks_alone [of ?sv1 cd le ce S DefaultReplicaCount 0 "fm_Chunks meta"] assms(1,2) rt
    by (auto simp: ReplicateFileChunks_def DefaultReplicaCount_def)
  then obtain s2 where r: "ReplicateFileChunks cd le ce ?sv1 (Some meta) DefaultReplicaCount = Some (None, ?sv1\<lparr>sv_ss := s2\<rparr>)" ..
  have a: "\<exists>sv3. AnnounceFile cd l ev t1 t2 (?sv1\<lparr>sv_ss := s2\<rparr>) (fm_Root meta) = Some (None, sv3)" for l ev t1 t2
    using assms(1) rt by (simp add: AnnounceFile_def Let_def Lookup_alone)
  show ?thesis
    using assms(2,3) r a [of "ae_lookup ae" "ae_ev ae" "ae_now1 ae" "ae_now2 ae"]
    by (auto simp: StoreFileLocalAndAnnounce_def Let_def)
qed

definition file_service :: "(os, unit) Service" where
  "file_service = peer_service\<lparr>sv_ss := \<lparr>os_dirs = [''d'', ''out''], os_files = [((''out'', ''f''), RegFile [7, 8])], os_sched = []\<rparr>\<rparr>"

lemma file_service_stores:
  "\<exists>meta s'. StoreFileWithMerkle (Some (FSStore \<lparr>baseDir = ''d''\<rparr>)) (sv_ss file_service) (''out'', ''f'') 4 = (Inr meta, s')"
proof -
  let ?s = "sv_ss file_service"
  have "fs_inv \<lparr>baseDir = ''d''\<rparr> (os_tick ?s)" "os_healthy (os_tick ?s)"
    by (auto simp: fs_inv_def fs_holds_def file_service_def os_node_def os_healthy_def os_tick_def chunkPath_def)
  moreover have "os_Open ?s (''out'', ''f'') = (Inr \<lparr>rd_segs = [[7, 8]], rd_err = Io_EOF, rd_joint = False\<rparr>, os_tick ?s)"
    by (simp add: os_Open_def file_service_def os_node_def os_fault_def)
  ultimately show ?thesis
    using fs.BuildFileMetaFromReader_healthy [of "\<lparr>baseDir = ''d''\<rparr>" "os_tick ?s" "\<lparr>rd_segs = [[7, 8]], rd_err = Io_EOF, rd_joint = False\<rparr>" 4]
    by (simp add: StoreFileWithMerkle_def at_end_def rd_content_def)
qed

theorem stored_file_registered_witness:
  "\<exists>meta sv'. StoreFileLocalAndAnnounce peer_codec (\<lambda>_. \<lparr>le_ev = \<lambda>_ _. [], le_clk = \<lambda>_ _. 0\<rparr>) (\<lambda>_. peer_calls)
       \<lparr>ae_lookup = \<lparr>le_ev = \<lambda>_ _. [], le_clk = \<lambda>_ _. 0\<rparr>, ae_ev = \<lambda>_. [], ae_now1 = 0, ae_now2 = 0\<rparr>
       file_service (''out'', ''f'') 4 = Some (Inr meta, sv') \<and>
     getFileMeta (sv_node sv') (ChunkID_String (fm_Root meta)) = Some meta"
proof -
  have rt: "FindClosest (nd_rt (sv_node file_service)) t (int K) = Inr []" for t
    by (simp add: file_service_def peer_service_def NewService_def NewNode_def SetNodeAddr_def FindClosest_def all_contacts_def NewRoutingTable_def bucket_all_def)
  have st: "sv_store file_service = Some (FSStore \<lparr>baseDir = ''d''\<rparr>)" "transport (sv_transport file_service)" "sv_Addr file_service = ''me''"
    by (simp_all add: file_service_def peer_service_def NewService_def sink_transport_def transport_def sv_Addr_def)
  obtain meta s' where "StoreFileWithMerkle (Some (FSStore \<lparr>baseDir = ''d''\<rparr>)) (sv_ss file_service) (''out'', ''f'') 4 = (Inr meta, s')"
    using file_service_stores by blast
  from StoreFile_alone [OF rt st(1) this] obtain sv' where
    run: "StoreFileLocalAndAnnounce peer_codec (\<lambda>_. \<lparr>le_ev = \<lambda>_ _. [], le_clk = \<lambda>_ _. 0\<rparr>) (\<lambda>_. peer_calls)
       \<lparr>ae_lookup = \<lparr>le_ev = \<lambda>_ _. [], le_clk = \<lambda>_ _. 0\<rparr>, ae_ev = \<lambda>_. [], ae_now1 = 0, ae_now2 = 0\<rparr>
       file_service (''out'', ''f'') 4 = Some (Inr meta, sv')" by blast
  from stored_file_registered [OF st run] run show ?thesis by blast
qed

end
