(* ===== verification/Wire_Codec.thy ===== *)
theory Wire_Codec
  imports P2p_Types Go_Os Go_Strings Sha256
begin

text \<open>
  The wire format, \<^verbatim>\<open>internal/p2p/codec.go\<close>: a 4-byte big-endian length and the JSON text of an
  RPC. The two JSON functions are the argument \<open>rj\<close> (the program's are \<open>json_rpc\<close> of theory \<open>Json_Rpc\<close>); the framing around them, with its
  limits and error branches, is modelled, on readers that cut the stream anywhere and
  writers whose calls may fail. \<open>rd_ReadFull\<close> is \<^verbatim>\<open>io.ReadFull\<close> on a plain reader.

  Lemmas: reading does not depend on the segmentation; a sequence of frames is read back as
  it was written; two encoders that share a connection can break the framing.
\<close>

section \<open>Reading exactly\<close>

function rd_fill :: "reader \<Rightarrow> nat \<Rightarrow> bytes \<Rightarrow> bytes \<times> go_error option \<times> reader" where
  "rd_fill r n acc =
     (if n \<le> length acc then (acc, None, r)
      else case rd_Read r (n - length acc) of
             (d, None, r') \<Rightarrow> rd_fill r' n (acc @ d)
           | (d, Some e, r') \<Rightarrow>
               if n \<le> length (acc @ d) then (acc @ d, None, r')
               else if acc @ d \<noteq> [] \<and> e = Io_EOF then (acc @ d, Some Io_ErrUnexpectedEOF, r')
               else (acc @ d, Some e, r'))"
  by pat_completeness auto
termination
proof (relation "measure (\<lambda>(r, n, acc). rd_size r)", goal_cases)
  case (2 r n acc d y e r')
  then show ?case using rd_Read_size [of r "n - length acc" d r'] by auto
qed simp

declare rd_fill.simps [simp del]

definition rd_ReadFull :: "reader \<Rightarrow> nat \<Rightarrow> bytes \<times> go_error option \<times> reader" where
  "rd_ReadFull r n = rd_fill r n []"

section \<open>The codec\<close>

record rpc_json =
  rj_Marshal :: "RPC \<Rightarrow> bytes result"
  rj_Unmarshal :: "bytes \<Rightarrow> RPC result"

definition MaxMessageSize :: nat where
  "MaxMessageSize = 4 * 2 ^ 20"

definition codec_Encode :: "rpc_json \<Rightarrow> writer \<Rightarrow> RPC \<Rightarrow> go_error option \<times> writer" where
  "codec_Encode rj w rpc =
     (case rj_Marshal rj rpc of
        Inl e \<Rightarrow> (Some (Wrapf ''encode: json marshal error: '' e), w)
      | Inr data \<Rightarrow>
          if length data > MaxMessageSize then
            (Some (Errorf (''encode: message too large ('' @ itoa (int (length data)) @ '' > ''
               @ itoa (int MaxMessageSize) @ '')'')), w)
          else (case w_Write w (be32_bytes (of_nat (length data))) of
                  (Some e, w') \<Rightarrow> (Some (Wrapf ''encode: write length error: '' e), w')
                | (None, w') \<Rightarrow>
                    (case w_Write w' data of
                       (Some e, w'') \<Rightarrow> (Some (Wrapf ''encode: write payload error: '' e), w'')
                     | (None, w'') \<Rightarrow> (None, w''))))"

definition be_Uint32 :: "bytes \<Rightarrow> u32" where
  "be_Uint32 b = be32_word (b ! 0) (b ! 1) (b ! 2) (b ! 3)"

definition codec_Decode :: "rpc_json \<Rightarrow> reader \<Rightarrow> RPC result \<times> reader" where
  "codec_Decode rj r =
     (case rd_ReadFull r 4 of
        (_, Some e, r1) \<Rightarrow> (Inl (Wrapf ''decode: read length error: '' e), r1)
      | (lengthPrefix, None, r1) \<Rightarrow>
          let len = be_Uint32 lengthPrefix
          in if len = 0 then (Inl (Errorf ''decode: zero-length message''), r1)
             else if len > of_nat MaxMessageSize then
               (Inl (Errorf (''decode: message too large ('' @ itoa (uint len) @ '' > ''
                  @ itoa (int MaxMessageSize) @ '')'')), r1)
             else (case rd_ReadFull r1 (unat len) of
                     (_, Some e, r2) \<Rightarrow> (Inl (Wrapf ''decode: read payload error: '' e), r2)
                   | (buf, None, r2) \<Rightarrow>
                       (case rj_Unmarshal rj buf of
                          Inl e \<Rightarrow> (Inl (Wrapf ''decode: json unmarshal error: '' e), r2)
                        | Inr rpc \<Rightarrow> (Inr rpc, r2))))"

section \<open>Lemmas\<close>

lemma rd_fill_spec:
  "length acc \<le> n \<Longrightarrow> rd_fill r n acc = (out, e, r') \<Longrightarrow>
   (if n - length acc \<le> length (rd_content r)
    then out = acc @ take (n - length acc) (rd_content r) \<and> e = None \<and>
      rd_content r' = drop (n - length acc) (rd_content r)
    else out = acc @ rd_content r \<and>
      e = Some (if out \<noteq> [] \<and> rd_err r = Io_EOF then Io_ErrUnexpectedEOF else rd_err r) \<and> rd_content r' = []) \<and>
   rd_err r' = rd_err r"
proof (induction r n acc rule: rd_fill.induct)
  case (1 r n acc)
  show ?case
  proof (cases "n \<le> length acc")
    case True
    then show ?thesis using "1.prems" by (simp add: rd_fill.simps [of r])
  next
    case False
    obtain d x r1 where rd: "rd_Read r (n - length acc) = (d, x, r1)" by (metis prod_cases3)
    note c = rd_Read_content [OF rd]
    show ?thesis
    proof (cases x)
      case None
      then have "rd_fill r1 n (acc @ d) = (out, e, r')" using "1.prems"(2) False rd by (simp add: rd_fill.simps [of r])
      moreover have le: "length (acc @ d) \<le> n" using c False by simp linarith
      ultimately have ih: "(if n - length (acc @ d) \<le> length (rd_content r1)
          then out = (acc @ d) @ take (n - length (acc @ d)) (rd_content r1) \<and> e = None \<and>
            rd_content r' = drop (n - length (acc @ d)) (rd_content r1)
          else out = (acc @ d) @ rd_content r1 \<and>
            e = Some (if out \<noteq> [] \<and> rd_err r1 = Io_EOF then Io_ErrUnexpectedEOF else rd_err r1) \<and> rd_content r' = []) \<and>
          rd_err r' = rd_err r1"
        using "1.IH" [OF False rd [symmetric] refl None] by blast
      have cond: "n - length acc \<le> length (rd_content r) \<longleftrightarrow> n - length (acc @ d) \<le> length (rd_content r1)"
        using c le by auto
      have "take (n - length acc) (rd_content r) = d @ take (n - length (acc @ d)) (rd_content r1)"
        and "drop (n - length acc) (rd_content r) = drop (n - length (acc @ d)) (rd_content r1)"
        using c by simp_all
      with ih c show ?thesis unfolding cond by (simp split: if_splits)
    next
      case (Some err)
      then have err: "err = rd_err r" "rd_content r1 = []" using rd_Read_error rd by auto
      then show ?thesis using "1.prems"(2) False rd Some c by (auto simp: rd_fill.simps [of r] split: if_splits)
    qed
  qed
qed

lemma rd_ReadFull_enough:
  assumes "n \<le> length (rd_content r)"
  shows "\<exists>r'. rd_ReadFull r n = (take n (rd_content r), None, r') \<and> rd_content r' = drop n (rd_content r) \<and> rd_err r' = rd_err r"
proof -
  obtain out e r' where f: "rd_fill r n [] = (out, e, r')" by (metis prod_cases3)
  from rd_fill_spec [OF _ f] assms f show ?thesis by (simp add: rd_ReadFull_def)
qed

lemma rd_ReadFull_short:
  assumes "length (rd_content r) < n"
  shows "\<exists>r'. rd_ReadFull r n = (rd_content r,
    Some (if rd_content r \<noteq> [] \<and> rd_err r = Io_EOF then Io_ErrUnexpectedEOF else rd_err r), r')"
proof -
  obtain out e r' where f: "rd_fill r n [] = (out, e, r')" by (metis prod_cases3)
  from rd_fill_spec [OF _ f] assms f show ?thesis by (simp add: rd_ReadFull_def)
qed

lemma be32_word_bytes: "be_Uint32 (be32_bytes w) = w"
proof (rule bit_word_eqI)
  fix n assume "n < LENGTH(32)"
  consider "n < 8" | "8 \<le> n" "n < 16" | "16 \<le> n" "n < 24" | "24 \<le> n" by linarith
  then show "bit (be_Uint32 (be32_bytes w)) n = bit w n"
    unfolding be_Uint32_def be32_bytes_def be32_word_def
    using \<open>n < LENGTH(32)\<close> by cases (auto simp: bit_simps)
qed

text \<open>One frame.\<close>

definition frame :: "bytes \<Rightarrow> bytes" where
  "frame data = be32_bytes (of_nat (length data)) @ data"

lemma unat_length: "length data \<le> MaxMessageSize \<Longrightarrow> unat (of_nat (length data) :: u32) = length data"
  by (simp add: unat_of_nat MaxMessageSize_def)

lemma Decode_frame:
  assumes "rd_content r = frame data @ rest" and "data \<noteq> []" and "length data \<le> MaxMessageSize"
    and "rj_Unmarshal rj data = Inr rpc"
  shows "\<exists>r'. codec_Decode rj r = (Inr rpc, r') \<and> rd_content r' = rest \<and> rd_err r' = rd_err r"
proof -
  let ?len = "of_nat (length data) :: u32"
  have len: "unat ?len = length data" by (rule unat_length [OF assms(3)])
  have "?len \<noteq> 0" using len assms(2) by (metis length_0_conv unat_0)
  moreover have "\<not> ?len > of_nat MaxMessageSize"
    using assms(3) len unat_length by (simp add: word_less_nat_alt MaxMessageSize_def)
  moreover obtain r1 where "rd_ReadFull r 4 = (be32_bytes ?len, None, r1)" "rd_content r1 = data @ rest" "rd_err r1 = rd_err r"
    using rd_ReadFull_enough [of 4 r] assms(1) by (auto simp: frame_def)
  moreover obtain r2 where "rd_ReadFull r1 (unat ?len) = (data, None, r2)" "rd_content r2 = rest" "rd_err r2 = rd_err r1"
    using rd_ReadFull_enough [of "unat ?len" r1] calculation(4) len by auto
  ultimately show ?thesis
    using assms(4) by (simp add: codec_Decode_def be32_word_bytes Let_def)
qed

lemma Encode_frame:
  assumes "rj_Marshal rj rpc = Inr data" and "length data \<le> MaxMessageSize" and "w_sched w = []"
  shows "codec_Encode rj w rpc = (None, w\<lparr>w_out := w_out w @ frame data\<rparr>)"
  using assms by (simp add: codec_Encode_def w_Write_def frame_def)

text \<open>Several messages, one after the other.\<close>

fun encode_all :: "rpc_json \<Rightarrow> writer \<Rightarrow> RPC list \<Rightarrow> go_error option \<times> writer" where
  "encode_all rj w [] = (None, w)"
| "encode_all rj w (rpc # rpcs) =
     (case codec_Encode rj w rpc of (Some e, w') \<Rightarrow> (Some e, w') | (None, w') \<Rightarrow> encode_all rj w' rpcs)"

fun decode_n :: "rpc_json \<Rightarrow> nat \<Rightarrow> reader \<Rightarrow> RPC list result \<times> reader" where
  "decode_n rj 0 r = (Inr [], r)"
| "decode_n rj (Suc n) r =
     (case codec_Decode rj r of
        (Inl e, r') \<Rightarrow> (Inl e, r')
      | (Inr rpc, r') \<Rightarrow>
          (case decode_n rj n r' of (Inl e, r'') \<Rightarrow> (Inl e, r'') | (Inr rpcs, r'') \<Rightarrow> (Inr (rpc # rpcs), r'')))"

text \<open>The documented behaviour of the JSON functions on a value: it is read back as it was written.\<close>

definition rj_roundtrip :: "rpc_json \<Rightarrow> RPC \<Rightarrow> bool" where
  "rj_roundtrip rj rpc \<longleftrightarrow> (\<exists>d. rj_Marshal rj rpc = Inr d \<and> d \<noteq> [] \<and> rj_Unmarshal rj d = Inr rpc)"

definition fits :: "rpc_json \<Rightarrow> RPC \<Rightarrow> bool" where
  "fits rj rpc \<longleftrightarrow> (case rj_Marshal rj rpc of Inl _ \<Rightarrow> False | Inr d \<Rightarrow> length d \<le> MaxMessageSize)"

definition frames :: "rpc_json \<Rightarrow> RPC list \<Rightarrow> bytes" where
  "frames rj rpcs = concat (map (\<lambda>rpc. case rj_Marshal rj rpc of Inl _ \<Rightarrow> [] | Inr d \<Rightarrow> frame d) rpcs)"

lemma encode_all_frames:
  "w_sched w = [] \<Longrightarrow> \<forall>rpc \<in> set rpcs. fits rj rpc \<Longrightarrow>
   encode_all rj w rpcs = (None, w\<lparr>w_out := w_out w @ frames rj rpcs\<rparr>)"
proof (induction rpcs arbitrary: w)
  case (Cons rpc rpcs)
  then obtain d where d: "rj_Marshal rj rpc = Inr d" "length d \<le> MaxMessageSize"
    by (auto simp: fits_def split: sum.splits)
  then show ?case
    using Cons.prems Cons.IH [of "w\<lparr>w_out := w_out w @ frame d\<rparr>"] Encode_frame [OF d Cons.prems(1)]
    by (simp add: frames_def)
qed (simp add: frames_def)

lemma decode_n_frames:
  "\<forall>rpc \<in> set rpcs. fits rj rpc \<and> rj_roundtrip rj rpc \<Longrightarrow> rd_content r = frames rj rpcs @ rest \<Longrightarrow>
   \<exists>r'. decode_n rj (length rpcs) r = (Inr rpcs, r') \<and> rd_content r' = rest \<and> rd_err r' = rd_err r"
proof (induction rpcs arbitrary: r)
  case (Cons rpc rpcs)
  then obtain d where d: "rj_Marshal rj rpc = Inr d" "length d \<le> MaxMessageSize" "d \<noteq> []" "rj_Unmarshal rj d = Inr rpc"
    by (auto simp: fits_def rj_roundtrip_def)
  have "rd_content r = frame d @ (frames rj rpcs @ rest)" using Cons.prems(2) d by (simp add: frames_def)
  from Decode_frame [OF this d(3,2,4)] obtain r1 where
    r1: "codec_Decode rj r = (Inr rpc, r1)" "rd_content r1 = frames rj rpcs @ rest" "rd_err r1 = rd_err r"
    by blast
  with Cons.IH [of r1] Cons.prems(1) show ?case by auto
qed (simp add: frames_def)

section \<open>Properties\<close>

text \<open>A JSON stand-in for the witnesses: the payload behind a marker byte.\<close>

definition toy_json :: rpc_json where
  "toy_json = \<lparr>rj_Marshal = (\<lambda>rpc. Inr (123 # rpc_Payload rpc)), rj_Unmarshal = (\<lambda>b. Inr (payload_rpc (tl b)))\<rparr>"

text \<open>
  Messages written one after the other to a connection are read back by the decoder in the same
  order, each exactly once, however the network cuts the stream, and the bytes behind them
  stay unread; the only assumptions are that the JSON functions round-trip these values and
  that each text is at most \<^verbatim>\<open>MaxMessageSize\<close>.
\<close>

theorem codec_stream_roundtrip:
  assumes "\<forall>rpc \<in> set rpcs. fits rj rpc \<and> rj_roundtrip rj rpc" and "w_sched w = []"
    and "encode_all rj w rpcs = (e, w')" and "w_out w @ rd_content r = w_out w' @ rest"
  shows "e = None \<and> (\<exists>r'. decode_n rj (length rpcs) r = (Inr rpcs, r') \<and> rd_content r' = rest \<and> rd_err r' = rd_err r)"
proof -
  have "(e, w') = (None, w\<lparr>w_out := w_out w @ frames rj rpcs\<rparr>)"
    using encode_all_frames [OF assms(2)] assms(1,3) by simp
  then have "e = None" "rd_content r = frames rj rpcs @ rest" using assms(4) by auto
  with decode_n_frames [OF assms(1)] show ?thesis by blast
qed

theorem codec_stream_roundtrip_witness:
  "\<exists>r'. decode_n toy_json 2 \<lparr>rd_segs = [[0, 0], [0, 2, 123], [1, 0, 0, 0, 1], [123, 9]], rd_err = Io_EOF, rd_joint = True\<rparr> =
     (Inr [payload_rpc [1], payload_rpc []], r') \<and> rd_content r' = [9]"
proof -
  let ?rpcs = "[payload_rpc [1], payload_rpc []]"
  let ?w = "\<lparr>w_out = [], w_sched = []\<rparr>"
  have ok: "\<forall>rpc \<in> set ?rpcs. fits toy_json rpc \<and> rj_roundtrip toy_json rpc"
    by (simp add: fits_def rj_roundtrip_def toy_json_def payload_rpc_def MaxMessageSize_def)
  have enc: "encode_all toy_json ?w ?rpcs = (None, \<lparr>w_out = [0, 0, 0, 2, 123, 1, 0, 0, 0, 1, 123], w_sched = []\<rparr>)"
  proof -
    have "be32_bytes (of_nat 2) = [0, 0, 0, 2]" "be32_bytes (of_nat 1) = [0, 0, 0, 1]" by code_simp+
    then have "frames toy_json ?rpcs = [0, 0, 0, 2, 123, 1, 0, 0, 0, 1, 123]"
      by (simp add: frames_def frame_def toy_json_def payload_rpc_def)
    then show ?thesis using encode_all_frames [of ?w ?rpcs toy_json] ok by simp
  qed
  from codec_stream_roundtrip [OF ok _ enc, of "\<lparr>rd_segs = [[0, 0], [0, 2, 123], [1, 0, 0, 0, 1], [123, 9]], rd_err = Io_EOF, rd_joint = True\<rparr>" "[9]"]
  show ?thesis by (auto simp add: rd_content_def numeral_2_eq_2 simp del: decode_n.simps)
qed

text \<open>
  C30: the decoder never returns a message from a damaged frame: a stream that ends inside a frame, a
  zero length and a length above \<^verbatim>\<open>MaxMessageSize\<close> are errors, and for the last two no byte
  of the body is read.
\<close>

theorem codec_rejects:
  assumes "length pre = 4"
  shows "(length (rd_content r) < 4 \<longrightarrow> (\<exists>e r'. codec_Decode rj r = (Inl e, r'))) \<and>
    (rd_content r = pre @ body \<longrightarrow> be_Uint32 pre = 0 \<or> unat (be_Uint32 pre) > MaxMessageSize \<longrightarrow>
       (\<exists>e r'. codec_Decode rj r = (Inl e, r') \<and> rd_content r' = body)) \<and>
    (rd_content r = pre @ body \<longrightarrow> length body < unat (be_Uint32 pre) \<longrightarrow> (\<exists>e r'. codec_Decode rj r = (Inl e, r')))"
proof (intro conjI impI)
  assume "length (rd_content r) < 4"
  with rd_ReadFull_short obtain x e r' where "rd_ReadFull r 4 = (x, Some e, r')" by blast
  then show "\<exists>e r'. codec_Decode rj r = (Inl e, r')" by (simp add: codec_Decode_def)
next
  assume c: "rd_content r = pre @ body"
  have max: "unat (of_nat MaxMessageSize :: u32) = MaxMessageSize" by (simp add: unat_of_nat MaxMessageSize_def)
  obtain r1 where r1: "rd_ReadFull r 4 = (pre, None, r1)" "rd_content r1 = body"
    using rd_ReadFull_enough [of 4 r] c assms by auto
  {
    assume "be_Uint32 pre = 0 \<or> unat (be_Uint32 pre) > MaxMessageSize"
    then show "\<exists>e r'. codec_Decode rj r = (Inl e, r') \<and> rd_content r' = body"
      using r1 max by (auto simp: codec_Decode_def Let_def word_less_nat_alt)
  next
    assume "length body < unat (be_Uint32 pre)"
    with rd_ReadFull_short [of r1] r1(2) obtain x e r' where "rd_ReadFull r1 (unat (be_Uint32 pre)) = (x, Some e, r')"
      by blast
    then show "\<exists>e r'. codec_Decode rj r = (Inl e, r')"
      using r1(1) by (auto simp: codec_Decode_def Let_def)
  }
qed

theorem codec_rejects_witness:
  "\<exists>e r'. codec_Decode toy_json \<lparr>rd_segs = [[0, 0, 0, 0, 7]], rd_err = Io_EOF, rd_joint = False\<rparr> = (Inl e, r') \<and> rd_content r' = [7]"
proof -
  have "be_Uint32 [0, 0, 0, 0] = 0" by code_simp
  then show ?thesis
    using codec_rejects [of "[0, 0, 0, 0]" "\<lparr>rd_segs = [[0, 0, 0, 0, 7]], rd_err = Io_EOF, rd_joint = False\<rparr>" toy_json "[7]"]
    by (simp add: rd_content_def)
qed

text \<open>
  \<^verbatim>\<open>Encode\<close> makes two separate \<^verbatim>\<open>Write\<close> calls, and nothing orders the calls of two goroutines that
  send to the same peer. When the two prefixes are written before the two bodies, the reader
  sees a frame that neither sender wrote: whatever the two texts are, the first message it
  decodes begins with the length prefix of the other.
\<close>

theorem codec_interleaving_breaks_frames:
  assumes "rj_Marshal rj a = Inr x" and "rj_Marshal rj b = Inr y" and "4 \<le> length x" and "length x \<le> MaxMessageSize"
    and "rd_content r = be32_bytes (of_nat (length x)) @ be32_bytes (of_nat (length y)) @ x @ y"
  shows "\<exists>r'. codec_Decode rj r =
    ((case rj_Unmarshal rj (be32_bytes (of_nat (length y)) @ take (length x - 4) x) of
        Inl e \<Rightarrow> Inl (Wrapf ''decode: json unmarshal error: '' e)
      | Inr rpc \<Rightarrow> Inr rpc), r')"
proof -
  let ?len = "of_nat (length x) :: u32"
  have len: "unat ?len = length x" by (rule unat_length [OF assms(4)])
  have "?len \<noteq> 0" using len assms(3) by auto
  moreover have "\<not> ?len > of_nat MaxMessageSize"
    using assms(4) len by (simp add: word_less_nat_alt unat_of_nat MaxMessageSize_def)
  moreover obtain r1 where "rd_ReadFull r 4 = (be32_bytes ?len, None, r1)"
    "rd_content r1 = be32_bytes (of_nat (length y)) @ x @ y"
    using rd_ReadFull_enough [of 4 r] assms(5) by auto
  moreover obtain r2 where
    "rd_ReadFull r1 (unat ?len) = (be32_bytes (of_nat (length y)) @ take (length x - 4) x, None, r2)"
    using rd_ReadFull_enough [of "unat ?len" r1] calculation(4) len assms(3) by auto
  ultimately show ?thesis
    by (cases "rj_Unmarshal rj (be32_bytes (of_nat (length y)) @ take (length x - 4) x)")
      (simp_all add: codec_Decode_def be32_word_bytes Let_def)
qed

theorem codec_interleaving_breaks_frames_witness:
  "\<exists>r'. codec_Decode toy_json \<lparr>rd_segs = [[0, 0, 0, 5], [0, 0, 0, 4], [123, 1, 1, 1, 1], [123, 2, 2, 2]], rd_err = Io_EOF, rd_joint = False\<rparr> =
     (Inr (payload_rpc [0, 0, 4, 123]), r')"
proof -
  have "be32_bytes (of_nat 5) = [0, 0, 0, 5]" "be32_bytes (of_nat 4) = [0, 0, 0, 4]" by code_simp+
  then show ?thesis
    using codec_interleaving_breaks_frames [of toy_json "payload_rpc [1, 1, 1, 1]" "[123, 1, 1, 1, 1]" "payload_rpc [2, 2, 2]" "[123, 2, 2, 2]"
        "\<lparr>rd_segs = [[0, 0, 0, 5], [0, 0, 0, 4], [123, 1, 1, 1, 1], [123, 2, 2, 2]], rd_err = Io_EOF, rd_joint = False\<rparr>"]
    by (simp add: toy_json_def payload_rpc_def rd_content_def MaxMessageSize_def)
qed

end
