(* ===== verification/Tcp_Transport.thy ===== *)
theory Tcp_Transport
  imports Wire_Codec
begin

text \<open>
  The TCP transport, \<^verbatim>\<open>internal/p2p/tcp_transport.go\<close>. A connection is the stream that will still
  arrive on it, the writer behind it and whether it is open; what \<^verbatim>\<open>net\<close> and \<^verbatim>\<open>tls\<close> return is
  the argument \<open>ne\<close>. The goroutine of \<^verbatim>\<open>handleConn\<close> is a state machine with one state per point
  where another goroutine can run, and the pointer to a \<^verbatim>\<open>TCPPeer\<close> is the number of its
  goroutine. \<open>tcp_step\<close> is the relation of all steps of a transport, \<open>tcp_reach\<close> its runs.

  Lemmas: the invariant of the peer table and of the channel in all reachable states; what a
  handler delivers; the three ways in which a connection falls out of use.
\<close>

section \<open>Connections and peers\<close>

record Conn =
  c_remote :: string
  c_in :: reader
  c_out :: writer
  c_open :: bool

record TCPPeer =
  conn :: Conn
  outbound :: bool
  wg :: int

definition NewTCPPeer :: "Conn \<Rightarrow> bool \<Rightarrow> TCPPeer" where
  "NewTCPPeer c out = \<lparr>conn = c, outbound = out, wg = 0\<rparr>"

definition peer_Addr :: "TCPPeer \<Rightarrow> string" where
  "peer_Addr p = c_remote (conn p)"

text \<open>Reads and writes on a connection that this side has closed fail.\<close>

definition conn_reader :: "Conn \<Rightarrow> reader" where
  "conn_reader c = (if c_open c then c_in c else \<lparr>rd_segs = [], rd_err = Net_ErrClosed, rd_joint = False\<rparr>)"

definition conn_writer :: "Conn \<Rightarrow> writer" where
  "conn_writer c = (if c_open c then c_out c else (c_out c)\<lparr>w_sched := [Some (0, Net_ErrClosed)]\<rparr>)"

definition peer_Send :: "TCPPeer \<Rightarrow> bytes \<Rightarrow> go_error option \<times> TCPPeer" where
  "peer_Send p b =
     (case w_Write (conn_writer (conn p)) b of
        (e, w) \<Rightarrow> (e, if c_open (conn p) then p\<lparr>conn := (conn p)\<lparr>c_out := w\<rparr>\<rparr> else p))"

definition peer_Close :: "TCPPeer \<Rightarrow> go_error option \<times> TCPPeer" where
  "peer_Close p = (if c_open (conn p) then (None, p\<lparr>conn := (conn p)\<lparr>c_open := False\<rparr>\<rparr>) else (Some Net_ErrClosed, p))"

definition peer_Outbound :: "TCPPeer \<Rightarrow> bool" where
  "peer_Outbound p = outbound p"

text \<open>\<^verbatim>\<open>wg.Done()\<close>; a negative counter panics.\<close>

definition CloseStream :: "TCPPeer \<Rightarrow> TCPPeer option" where
  "CloseStream p = (if wg p \<le> 0 then None else Some (p\<lparr>wg := wg p - 1\<rparr>))"

section \<open>The transport\<close>

text \<open>
  A callback gets the peer as a \<^verbatim>\<open>Peer\<close>: it may write to the connection or close it.
\<close>

type_synonym callback = "TCPPeer \<Rightarrow> go_error option \<times> TCPPeer"

record TCPTransportOpts =
  o_ListenAddr :: string
  o_HandshakeFunc :: "callback option"
  o_Decoder :: "(reader \<Rightarrow> RPC result \<times> reader) option"
  o_Encoder :: "(writer \<Rightarrow> RPC \<Rightarrow> go_error option \<times> writer) option"
  o_OnPeer :: "callback option"
  o_TLSConfig :: bool

datatype pc = HNew | HHandshake | HOnPeer | HRead | HSend RPC | HStream | HDelete | HClose | HDone

record handler =
  h_peer :: TCPPeer
  h_pc :: pc

record TCPTransport =
  tt_opts :: TCPTransportOpts
  tt_listener :: "bool option"
  tt_accepting :: nat
  tt_rpcCh :: "RPC list"
  tt_peers :: "string \<Rightarrow> nat option"
  tt_handlers :: "handler list"

definition rpcCh_cap :: nat where
  "rpcCh_cap = 1024"

definition NewTCPTransport :: "TCPTransportOpts \<Rightarrow> TCPTransport" where
  "NewTCPTransport opts =
     \<lparr>tt_opts = opts, tt_listener = None, tt_accepting = 0, tt_rpcCh = [], tt_peers = (\<lambda>_. None), tt_handlers = []\<rparr>"

definition tcp_Addr :: "TCPTransport \<Rightarrow> string" where
  "tcp_Addr t = o_ListenAddr (tt_opts t)"

text \<open>One receive from the channel that \<^verbatim>\<open>Consume\<close> returns.\<close>

definition tcp_receive :: "TCPTransport \<Rightarrow> (RPC \<times> TCPTransport) option" where
  "tcp_receive t = (case tt_rpcCh t of [] \<Rightarrow> None | r # rs \<Rightarrow> Some (r, t\<lparr>tt_rpcCh := rs\<rparr>))"

text \<open>\<open>tt_listener\<close>: none yet, open, or closed.\<close>

definition tcp_Close :: "TCPTransport \<Rightarrow> go_error option \<times> TCPTransport" where
  "tcp_Close t =
     (case tt_listener t of
        None \<Rightarrow> (None, t)
      | Some True \<Rightarrow> (None, t\<lparr>tt_listener := Some False\<rparr>)
      | Some False \<Rightarrow> (Some Net_ErrClosed, t))"

record net_env =
  ne_Listen :: "string \<Rightarrow> string result"
  ne_Dial :: "string \<Rightarrow> Conn result"
  ne_tlsDial :: "string \<Rightarrow> Conn result"

definition tcp_ListenAndAccept :: "net_env \<Rightarrow> TCPTransport \<Rightarrow> go_error option \<times> TCPTransport" where
  "tcp_ListenAndAccept ne t =
     (case ne_Listen ne (o_ListenAddr (tt_opts t)) of
        Inl e \<Rightarrow> (Some e, t\<lparr>tt_listener := None\<rparr>)
      | Inr addr \<Rightarrow>
          (None, t\<lparr>tt_listener := Some True, tt_opts := (tt_opts t)\<lparr>o_ListenAddr := addr\<rparr>,
                   tt_accepting := Suc (tt_accepting t)\<rparr>))"

definition spawn :: "TCPTransport \<Rightarrow> Conn \<Rightarrow> bool \<Rightarrow> TCPTransport" where
  "spawn t c out = t\<lparr>tt_handlers := tt_handlers t @ [\<lparr>h_peer = NewTCPPeer c out, h_pc = HNew\<rparr>]\<rparr>"

definition tcp_Dial :: "net_env \<Rightarrow> TCPTransport \<Rightarrow> string \<Rightarrow> go_error option \<times> TCPTransport" where
  "tcp_Dial ne t addr =
     (case (if o_TLSConfig (tt_opts t) then ne_tlsDial ne addr else ne_Dial ne addr) of
        Inl e \<Rightarrow> (Some e, t)
      | Inr c \<Rightarrow> (None, spawn t c True))"

section \<open>Accepting\<close>

text \<open>
  What \<^verbatim>\<open>Accept\<close> returns on an open listener: an error, or a connection with what the TLS
  handshake on it would give.
\<close>

datatype accepted = AcceptError go_error | Accepted Conn "Conn result"

text \<open>One iteration of \<^verbatim>\<open>startAcceptLoop\<close>; \<open>None\<close> is the panic of \<^verbatim>\<open>Accept\<close> on a nil listener.\<close>

definition accept_step :: "TCPTransport \<Rightarrow> accepted \<Rightarrow> TCPTransport option" where
  "accept_step t a =
     (case tt_listener t of
        None \<Rightarrow> None
      | Some False \<Rightarrow> Some (t\<lparr>tt_accepting := tt_accepting t - 1\<rparr>)
      | Some True \<Rightarrow>
          (case a of
             AcceptError e \<Rightarrow>
               if e = Net_ErrClosed then Some (t\<lparr>tt_accepting := tt_accepting t - 1\<rparr>) else Some t
           | Accepted c tls \<Rightarrow>
               if o_TLSConfig (tt_opts t) then
                 (case tls of
                    Inl _ \<Rightarrow> Some t
                  | Inr c' \<Rightarrow> Some (spawn t c' False))
               else Some (spawn t c False)))"

section \<open>Connection handlers\<close>

definition set_handler :: "TCPTransport \<Rightarrow> nat \<Rightarrow> handler \<Rightarrow> TCPTransport" where
  "set_handler t k h = t\<lparr>tt_handlers := (tt_handlers t)[k := h]\<rparr>"

text \<open>What a callback may change of a peer.\<close>

definition call_back :: "callback option \<Rightarrow> TCPPeer \<Rightarrow> go_error option \<times> TCPPeer" where
  "call_back f p =
     (case f of
        None \<Rightarrow> (None, p)
      | Some g \<Rightarrow> (case g p of (e, p') \<Rightarrow> (e, p\<lparr>conn := (conn p)\<lparr>c_out := c_out (conn p'), c_open := c_open (conn p')\<rparr>\<rparr>)))"

text \<open>
  One step of \<^verbatim>\<open>handleConn\<close>; \<open>None\<close> when it cannot run: the channel is full, the stream is not
  closed, or it has returned. An error of \<^verbatim>\<open>peer.Close\<close> is ignored.
\<close>

definition handler_step :: "TCPTransport \<Rightarrow> nat \<Rightarrow> TCPTransport option" where
  "handler_step t k =
     (if \<not> k < length (tt_handlers t) then None else
      let h = tt_handlers t ! k; p = h_peer h; addr = peer_Addr p
      in case h_pc h of
           HNew \<Rightarrow> Some ((set_handler t k (h\<lparr>h_pc := HHandshake\<rparr>))\<lparr>tt_peers := (tt_peers t)(addr := Some k)\<rparr>)
         | HHandshake \<Rightarrow>
             (case call_back (o_HandshakeFunc (tt_opts t)) p of
                (Some _, p') \<Rightarrow> Some (set_handler t k \<lparr>h_peer = p', h_pc = HDelete\<rparr>)
              | (None, p') \<Rightarrow> Some (set_handler t k \<lparr>h_peer = p', h_pc = HOnPeer\<rparr>))
         | HOnPeer \<Rightarrow>
             (case call_back (o_OnPeer (tt_opts t)) p of
                (Some _, p') \<Rightarrow> Some (set_handler t k \<lparr>h_peer = p', h_pc = HDelete\<rparr>)
              | (None, p') \<Rightarrow> Some (set_handler t k \<lparr>h_peer = p', h_pc = HRead\<rparr>))
         | HRead \<Rightarrow>
             (case o_Decoder (tt_opts t) of
                None \<Rightarrow> Some (set_handler t k (h\<lparr>h_pc := HDelete\<rparr>))
              | Some dec \<Rightarrow>
                  (case dec (conn_reader (conn p)) of
                     (Inl _, r) \<Rightarrow> Some (set_handler t k \<lparr>h_peer = p\<lparr>conn := (conn p)\<lparr>c_in := r\<rparr>\<rparr>, h_pc = HDelete\<rparr>)
                   | (Inr rpc, r) \<Rightarrow>
                       let p' = p\<lparr>conn := (conn p)\<lparr>c_in := r\<rparr>\<rparr>; rpc' = rpc\<lparr>rpc_From := addr\<rparr>
                       in if rpc_Stream rpc' then Some (set_handler t k \<lparr>h_peer = p'\<lparr>wg := wg p' + 1\<rparr>, h_pc = HStream\<rparr>)
                          else Some (set_handler t k \<lparr>h_peer = p', h_pc = HSend rpc'\<rparr>)))
         | HSend rpc \<Rightarrow>
             if length (tt_rpcCh t) < rpcCh_cap
             then Some ((set_handler t k (h\<lparr>h_pc := HRead\<rparr>))\<lparr>tt_rpcCh := tt_rpcCh t @ [rpc]\<rparr>) else None
         | HStream \<Rightarrow> if wg p = 0 then Some (set_handler t k (h\<lparr>h_pc := HRead\<rparr>)) else None
         | HDelete \<Rightarrow> Some ((set_handler t k (h\<lparr>h_pc := HClose\<rparr>))\<lparr>tt_peers := (tt_peers t)(addr := None)\<rparr>)
         | HClose \<Rightarrow> Some (set_handler t k \<lparr>h_peer = snd (peer_Close p), h_pc = HDone\<rparr>)
         | HDone \<Rightarrow> None)"

section \<open>Sending\<close>

text \<open>
  What the other goroutines do in the meantime: steps of handlers, accepted connections,
  receives of the consumer; a step that cannot run is skipped.
\<close>

datatype tcp_event = EvHandler nat | EvAccept accepted | EvReceive

definition tcp_event_step :: "TCPTransport \<Rightarrow> tcp_event \<Rightarrow> TCPTransport" where
  "tcp_event_step t ev =
     (case ev of
        EvHandler k \<Rightarrow> (case handler_step t k of None \<Rightarrow> t | Some t' \<Rightarrow> t')
      | EvAccept a \<Rightarrow> (if tt_accepting t = 0 then t else case accept_step t a of None \<Rightarrow> t | Some t' \<Rightarrow> t')
      | EvReceive \<Rightarrow> (case tcp_receive t of None \<Rightarrow> t | Some (_, t') \<Rightarrow> t'))"

definition tcp_events :: "TCPTransport \<Rightarrow> tcp_event list \<Rightarrow> TCPTransport" where
  "tcp_events t evs = foldl tcp_event_step t evs"

text \<open>\<open>es1\<close> runs during the pause after a dial, \<open>es2\<close> between the lookup of the peer and the write.\<close>

definition peer_for :: "net_env \<Rightarrow> tcp_event list \<Rightarrow> TCPTransport \<Rightarrow> string \<Rightarrow> nat result \<times> TCPTransport" where
  "peer_for ne es1 t addr =
     (case tt_peers t addr of
        Some k \<Rightarrow> (Inr k, t)
      | None \<Rightarrow>
          (case tcp_Dial ne t addr of
             (Some e, t1) \<Rightarrow> (Inl e, t1)
           | (None, t1) \<Rightarrow>
               let t2 = tcp_events t1 es1
               in (case tt_peers t2 addr of
                     None \<Rightarrow> (Inl (Errorf (''could not connect to '' @ addr)), t2)
                   | Some k \<Rightarrow> (Inr k, t2))))"

definition tcp_Send ::
  "net_env \<Rightarrow> tcp_event list \<Rightarrow> tcp_event list \<Rightarrow> TCPTransport \<Rightarrow> string \<Rightarrow> RPC \<Rightarrow> go_error option \<times> TCPTransport" where
  "tcp_Send ne es1 es2 t addr rpc =
     (case peer_for ne es1 t addr of
        (Inl e, t1) \<Rightarrow> (Some e, t1)
      | (Inr k, t1) \<Rightarrow>
          (case o_Encoder (tt_opts t1) of
             None \<Rightarrow> (Some (Errorf ''no encoder configured''), t1)
           | Some enc \<Rightarrow>
               let t2 = tcp_events t1 es2; h = tt_handlers t2 ! k; c = conn (h_peer h)
               in (case enc (conn_writer c) rpc of
                     (e, w) \<Rightarrow>
                       (e, if c_open c then set_handler t2 k (h\<lparr>h_peer := (h_peer h)\<lparr>conn := c\<lparr>c_out := w\<rparr>\<rparr>\<rparr>) else t2))))"

section \<open>All steps\<close>

text \<open>The write of a \<^verbatim>\<open>Send\<close> appears with any outcome.\<close>

inductive tcp_step :: "TCPTransport \<Rightarrow> TCPTransport \<Rightarrow> bool" where
  step_listen: "tcp_step t (snd (tcp_ListenAndAccept ne t))"
| step_dial: "tcp_step t (snd (tcp_Dial ne t a))"
| step_accept: "0 < tt_accepting t \<Longrightarrow> accept_step t a = Some t' \<Longrightarrow> tcp_step t t'"
| step_handler: "handler_step t k = Some t' \<Longrightarrow> tcp_step t t'"
| step_receive: "tcp_receive t = Some (r, t') \<Longrightarrow> tcp_step t t'"
| step_write: "k < length (tt_handlers t) \<Longrightarrow> h = tt_handlers t ! k \<Longrightarrow>
    tcp_step t (set_handler t k (h\<lparr>h_peer := (h_peer h)\<lparr>conn := (conn (h_peer h))\<lparr>c_out := w\<rparr>\<rparr>\<rparr>))"
| step_stream: "k < length (tt_handlers t) \<Longrightarrow> h = tt_handlers t ! k \<Longrightarrow> CloseStream (h_peer h) = Some p \<Longrightarrow>
    tcp_step t (set_handler t k (h\<lparr>h_peer := p\<rparr>))"
| step_close: "tcp_step t (snd (tcp_Close t))"

definition tcp_reach :: "TCPTransportOpts \<Rightarrow> TCPTransport \<Rightarrow> bool" where
  "tcp_reach opts t \<longleftrightarrow> tcp_step\<^sup>*\<^sup>* (NewTCPTransport opts) t"

text \<open>
  The invariant. Peer table: an entry leads to a connection with that address whose handler
  has registered it and not yet begun to leave. Channel: bounded, and every RPC in it, or about to be
  sent to it, is no stream message and carries the address of a connection. Counter: only a
  handler that waits for a stream has one.
\<close>

definition h_ok :: "handler \<Rightarrow> bool" where
  "h_ok h \<longleftrightarrow>
     (case h_pc h of
        HStream \<Rightarrow> wg (h_peer h) = 0 \<or> wg (h_peer h) = 1
      | HSend rpc \<Rightarrow> \<not> rpc_Stream rpc \<and> rpc_From rpc = peer_Addr (h_peer h) \<and> wg (h_peer h) = 0
      | HDone \<Rightarrow> \<not> c_open (conn (h_peer h)) \<and> wg (h_peer h) = 0
      | _ \<Rightarrow> wg (h_peer h) = 0)"

definition registered :: "pc \<Rightarrow> bool" where
  "registered x \<longleftrightarrow> (case x of HNew \<Rightarrow> False | HClose \<Rightarrow> False | HDone \<Rightarrow> False | _ \<Rightarrow> True)"

definition tt_inv :: "TCPTransport \<Rightarrow> bool" where
  "tt_inv t \<longleftrightarrow>
     (\<forall>a k. tt_peers t a = Some k \<longrightarrow>
        k < length (tt_handlers t) \<and> peer_Addr (h_peer (tt_handlers t ! k)) = a \<and> registered (h_pc (tt_handlers t ! k))) \<and>
     (\<forall>h \<in> set (tt_handlers t). h_ok h) \<and>
     length (tt_rpcCh t) \<le> rpcCh_cap \<and>
     (\<forall>r \<in> set (tt_rpcCh t). \<not> rpc_Stream r \<and> rpc_From r \<in> (peer_Addr \<circ> h_peer) ` set (tt_handlers t))"

lemma tt_inv_New [simp]: "tt_inv (NewTCPTransport opts)"
  by (simp add: tt_inv_def NewTCPTransport_def)

text \<open>Adding a handler, and changing one that stays registered with its address.\<close>

lemma tt_inv_spawn: "tt_inv t \<Longrightarrow> tt_inv (spawn t c out)"
  by (auto simp: tt_inv_def spawn_def h_ok_def NewTCPPeer_def nth_append less_SucI split: option.splits)

lemma addr_image_update:
  assumes "k < length hs" and "peer_Addr (h_peer h) = peer_Addr (h_peer (hs ! k))"
  shows "(peer_Addr \<circ> h_peer) ` set (hs[k := h]) = (peer_Addr \<circ> h_peer) ` set hs"
proof -
  have "map (peer_Addr \<circ> h_peer) (hs[k := h]) = map (peer_Addr \<circ> h_peer) hs"
    using assms by (simp add: map_update list_update_same_conv)
  then show ?thesis by (metis list.set_map)
qed

lemma tt_inv_set:
  assumes "tt_inv t" and "k < length (tt_handlers t)" and "peer_Addr (h_peer h) = peer_Addr (h_peer (tt_handlers t ! k))"
    and "h_ok h" and "\<And>a. tt_peers t a = Some k \<Longrightarrow> registered (h_pc h)"
  shows "tt_inv (set_handler t k h)"
  using assms addr_image_update [OF assms(2,3)] set_update_subset_insert [of "tt_handlers t" k h]
  unfolding tt_inv_def set_handler_def
  by (auto simp: nth_list_update)

lemma tt_inv_entry:
  assumes "tt_inv t" and "tt_peers t a = Some k"
  shows "k < length (tt_handlers t)" and "peer_Addr (h_peer (tt_handlers t ! k)) = a" and "registered (h_pc (tt_handlers t ! k))"
  using assms by (auto simp: tt_inv_def)

lemma tt_inv_handler: "tt_inv t \<Longrightarrow> k < length (tt_handlers t) \<Longrightarrow> h_ok (tt_handlers t ! k)"
  by (auto simp: tt_inv_def)

lemma call_back_frame:
  "call_back f p = (e, p') \<Longrightarrow> peer_Addr p' = peer_Addr p \<and> wg p' = wg p \<and> outbound p' = outbound p"
  by (auto simp: call_back_def peer_Addr_def split: option.splits prod.splits)

lemma peer_Close_frame [simp]:
  "peer_Addr (snd (peer_Close p)) = peer_Addr p" "wg (snd (peer_Close p)) = wg p" "\<not> c_open (conn (snd (peer_Close p)))"
  by (simp_all add: peer_Close_def peer_Addr_def)

text \<open>The two steps that change the table, and the one that fills the channel.\<close>

lemma tt_inv_register:
  assumes "tt_inv t" and "k < length (tt_handlers t)" and "peer_Addr (h_peer h) = peer_Addr (h_peer (tt_handlers t ! k))"
    and "h_ok h" and "registered (h_pc h)" and "a = peer_Addr (h_peer h)"
  shows "tt_inv ((set_handler t k h)\<lparr>tt_peers := (tt_peers t)(a := Some k)\<rparr>)"
proof -
  have "tt_inv (set_handler t k h)" using assms by (intro tt_inv_set) auto
  then show ?thesis using assms by (auto simp: tt_inv_def set_handler_def)
qed

lemma tt_inv_deregister:
  assumes "tt_inv t" and "k < length (tt_handlers t)" and "peer_Addr (h_peer h) = peer_Addr (h_peer (tt_handlers t ! k))"
    and "h_ok h" and "a = peer_Addr (h_peer h)"
  shows "tt_inv ((set_handler t k h)\<lparr>tt_peers := (tt_peers t)(a := None)\<rparr>)"
proof -
  let ?t = "t\<lparr>tt_peers := (tt_peers t)(a := None)\<rparr>"
  have "tt_inv ?t" using assms(1) by (auto simp: tt_inv_def)
  moreover have "tt_peers ?t b \<noteq> Some k" for b using tt_inv_entry(2) [OF assms(1), of b k] assms(3,5) by auto
  ultimately have "tt_inv (set_handler ?t k h)" using assms by (intro tt_inv_set) auto
  then show ?thesis by (simp add: set_handler_def tt_inv_def)
qed

lemma tt_inv_channel:
  assumes "tt_inv t" and "length (tt_rpcCh t) < rpcCh_cap" and "\<not> rpc_Stream r" and "rpc_From r \<in> (peer_Addr \<circ> h_peer) ` set (tt_handlers t)"
  shows "tt_inv (t\<lparr>tt_rpcCh := tt_rpcCh t @ [r]\<rparr>)"
  using assms by (auto simp: tt_inv_def)

lemma handler_step_inv:
  assumes inv: "tt_inv t" and step: "handler_step t k = Some t'"
  shows "tt_inv t'"
proof -
  have k: "k < length (tt_handlers t)" using step by (auto simp: handler_step_def split: if_splits)
  define h where "h = tt_handlers t ! k"
  have ok: "h_ok h" using tt_inv_handler [OF inv k] by (simp add: h_def)
  note set = tt_inv_set [OF inv k]
  note step' = step [unfolded handler_step_def Let_def, simplified k h_def [symmetric]]
  show ?thesis
  proof (cases "h_pc h")
    case HNew
    with step' ok show ?thesis
      by (auto intro!: tt_inv_register [OF inv k] simp: h_def [symmetric] h_ok_def registered_def)
  next
    case HHandshake
    with step' ok show ?thesis
      by (auto intro!: set dest!: call_back_frame simp: h_def [symmetric] h_ok_def registered_def split: prod.splits option.splits)
  next
    case HOnPeer
    with step' ok show ?thesis
      by (auto intro!: set dest!: call_back_frame simp: h_def [symmetric] h_ok_def registered_def split: prod.splits option.splits)
  next
    case HRead
    with step' ok show ?thesis
      by (auto intro!: set simp: h_def [symmetric] h_ok_def registered_def peer_Addr_def Let_def
          split: result_splits if_splits)
  next
    case (HSend rpc)
    then have full: "length (tt_rpcCh t) < rpcCh_cap" and t': "t' = (set_handler t k (h\<lparr>h_pc := HRead\<rparr>))\<lparr>tt_rpcCh := tt_rpcCh t @ [rpc]\<rparr>"
      using step' by (auto split: if_splits)
    let ?t = "set_handler t k (h\<lparr>h_pc := HRead\<rparr>)"
    have "tt_inv ?t" using HSend ok by (intro set) (auto simp: h_def [symmetric] h_ok_def registered_def)
    moreover have "rpc_From rpc \<in> (peer_Addr \<circ> h_peer) ` set (tt_handlers ?t)"
      using k HSend ok addr_image_update [of k "tt_handlers t" "h\<lparr>h_pc := HRead\<rparr>"]
      by (auto simp: set_handler_def h_def [symmetric] h_ok_def) (metis comp_apply h_def image_eqI nth_mem)
    ultimately show ?thesis
      using tt_inv_channel [of ?t rpc] t' full HSend ok by (simp add: set_handler_def h_ok_def)
  next
    case HStream
    with step' ok show ?thesis
      by (auto intro!: set simp: h_def [symmetric] h_ok_def registered_def split: if_splits)
  next
    case HDelete
    with step' ok show ?thesis
      by (auto intro!: tt_inv_deregister [OF inv k] simp: h_def [symmetric] h_ok_def)
  next
    case HClose
    then have "tt_peers t a \<noteq> Some k" for a using tt_inv_entry(3) [OF inv, of a k] by (auto simp: h_def registered_def)
    with HClose step' ok show ?thesis
      by (auto intro!: set simp: h_def [symmetric] h_ok_def)
  next
    case HDone
    with step' show ?thesis by simp
  qed
qed

lemma accept_step_inv: "tt_inv t \<Longrightarrow> accept_step t a = Some t' \<Longrightarrow> tt_inv t'"
  by (auto simp: accept_step_def tt_inv_spawn split: option.splits accepted.splits if_splits sum.splits bool.splits)
    (auto simp: tt_inv_def)

lemma tcp_step_inv: "tcp_step t t' \<Longrightarrow> tt_inv t \<Longrightarrow> tt_inv t'"
proof (induction rule: tcp_step.induct)
  case (step_listen t ne)
  then show ?case by (auto simp: tcp_ListenAndAccept_def tt_inv_def split: sum.splits)
next
  case (step_dial t ne a)
  then show ?case by (auto simp: tcp_Dial_def tt_inv_spawn split: sum.splits)
next
  case (step_receive t r t')
  then show ?case by (auto simp: tcp_receive_def tt_inv_def split: list.splits)
next
  case (step_write k t h w)
  then show ?case
    using tt_inv_handler [of t k] tt_inv_entry(3) [of t _ k]
    by (intro tt_inv_set) (auto simp: peer_Addr_def h_ok_def split: pc.splits)
next
  case (step_stream k t h p)
  then have "h_pc h = HStream" "p = (h_peer h)\<lparr>wg := 0\<rparr>"
    using tt_inv_handler [of t k] by (auto simp: CloseStream_def h_ok_def split: if_splits pc.splits)
  then show ?case
    using step_stream by (intro tt_inv_set) (auto simp: peer_Addr_def h_ok_def registered_def)
next
  case (step_close t)
  then show ?case by (auto simp: tcp_Close_def tt_inv_def split: option.splits bool.splits)
qed (auto intro: handler_step_inv accept_step_inv)

lemma tcp_steps_inv: "tcp_step\<^sup>*\<^sup>* t t' \<Longrightarrow> tt_inv t \<Longrightarrow> tt_inv t'"
  by (induction rule: rtranclp_induct) (auto intro: tcp_step_inv)


section \<open>Sends as steps\<close>

lemma tcp_event_steps: "tcp_step\<^sup>*\<^sup>* t (tcp_event_step t ev)"
  by (auto simp: tcp_event_step_def intro: tcp_step.intros split: tcp_event.splits option.splits)

lemma tcp_events_steps: "tcp_step\<^sup>*\<^sup>* t (tcp_events t evs)"
  unfolding tcp_events_def by (induction evs arbitrary: t) (auto intro: rtranclp_trans [OF tcp_event_steps])


lemma tcp_event_step_mono: "length (tt_handlers t) \<le> length (tt_handlers (tcp_event_step t ev))"
  by (auto simp: tcp_event_step_def handler_step_def accept_step_def tcp_receive_def set_handler_def spawn_def Let_def
      split: tcp_event.splits option.splits if_splits pc.splits prod.splits sum.splits accepted.splits list.splits bool.splits)

lemma tcp_events_mono: "length (tt_handlers t) \<le> length (tt_handlers (tcp_events t evs))"
  unfolding tcp_events_def by (induction evs arbitrary: t) (auto intro: le_trans [OF tcp_event_step_mono])

lemma tcp_Dial_step: "tcp_Dial ne t a = (e, t') \<Longrightarrow> tcp_step t t'"
  using step_dial [of t ne a] by simp

lemma peer_for_steps:
  assumes "peer_for ne es1 t addr = (x, t')"
  shows "tcp_step\<^sup>*\<^sup>* t t'" and "\<And>k. x = Inr k \<Longrightarrow> tt_peers t' addr = Some k"
proof -
  have "tcp_step\<^sup>*\<^sup>* t (tcp_events t1 es1)" "tcp_step\<^sup>*\<^sup>* t t1" if "tcp_Dial ne t addr = (e, t1)" for e t1
    using tcp_Dial_step [OF that] tcp_events_steps [of t1 es1] by (auto intro: converse_rtranclp_into_rtranclp)
  with assms show "tcp_step\<^sup>*\<^sup>* t t'" by (auto simp: peer_for_def Let_def split: option.splits prod.splits)
  show "\<And>k. x = Inr k \<Longrightarrow> tt_peers t' addr = Some k"
    using assms by (auto simp: peer_for_def Let_def split: option.splits prod.splits)
qed

lemma tcp_Send_steps:
  assumes inv: "tt_inv t" and send: "tcp_Send ne es1 es2 t addr rpc = (e, t')"
  shows "tcp_step\<^sup>*\<^sup>* t t'"
proof -
  obtain x t1 where p: "peer_for ne es1 t addr = (x, t1)" by fastforce
  note s1 = peer_for_steps(1) [OF p]
  show ?thesis
  proof (cases "\<exists>k enc. x = Inr k \<and> o_Encoder (tt_opts t1) = Some enc")
    case True
    then obtain k enc where k: "x = Inr k" "o_Encoder (tt_opts t1) = Some enc" by blast
    have "k < length (tt_handlers t1)" using tt_inv_entry(1) [OF tcp_steps_inv [OF s1 inv]] peer_for_steps(2) [OF p k(1)] by blast
    then have "k < length (tt_handlers (tcp_events t1 es2))" using tcp_events_mono [of t1 es2] by simp
    from step_write [OF this refl] have "tcp_step\<^sup>*\<^sup>* (tcp_events t1 es2) t'"
      using send p k by (auto simp: tcp_Send_def Let_def split: prod.splits if_splits)
    with s1 tcp_events_steps [of t1 es2] show ?thesis by (meson rtranclp_trans)
  next
    case False
    then show ?thesis
      using send p s1 by (auto simp: tcp_Send_def split: sum.splits option.splits)
  qed
qed

text \<open>The address changes only when the transport starts to listen.\<close>

lemma tcp_event_step_opts: "tt_opts (tcp_event_step t ev) = tt_opts t"
  by (auto simp: tcp_event_step_def handler_step_def accept_step_def tcp_receive_def set_handler_def spawn_def Let_def
      split: tcp_event.splits option.splits if_splits pc.splits prod.splits sum.splits accepted.splits list.splits bool.splits)

lemma tcp_events_opts [simp]: "tt_opts (tcp_events t evs) = tt_opts t"
  unfolding tcp_events_def by (induction evs arbitrary: t) (simp_all add: tcp_event_step_opts)

lemma tcp_Send_addr: "tcp_Send ne es1 es2 t addr rpc = (e, t') \<Longrightarrow> tcp_Addr t' = tcp_Addr t"
  by (auto simp: tcp_Send_def peer_for_def tcp_Dial_def spawn_def set_handler_def tcp_Addr_def Let_def
      split: result_splits if_splits)

lemma tcp_Close_addr: "tcp_Close t = (e, t') \<Longrightarrow> tcp_Addr t' = tcp_Addr t"
  by (auto simp: tcp_Close_def tcp_Addr_def split: option.splits bool.splits)

section \<open>As a transport of the DHT\<close>

text \<open>
  The methods as a \<^verbatim>\<open>Transport\<close>: the state holds, besides the transport, what the network and the
  other goroutines do during each of the calls still to come.
\<close>

record tcp_env =
  te_net :: net_env
  te_es1 :: "tcp_event list"
  te_es2 :: "tcp_event list"

record tcp_state =
  ts_tcp :: TCPTransport
  ts_env :: "nat \<Rightarrow> tcp_env"
  ts_call :: nat

definition tcp_call :: "tcp_state \<Rightarrow> (tcp_env \<Rightarrow> TCPTransport \<Rightarrow> go_error option \<times> TCPTransport) \<Rightarrow> go_error option \<times> tcp_state" where
  "tcp_call ts f =
     (case f (ts_env ts (ts_call ts)) (ts_tcp ts) of
        (e, t') \<Rightarrow> (e, ts\<lparr>ts_tcp := t', ts_call := Suc (ts_call ts)\<rparr>))"

definition TCP :: "tcp_state Transport" where
  "TCP =
     \<lparr>tp_Addr = (\<lambda>ts. tcp_Addr (ts_tcp ts)),
      tp_ListenAndAccept = (\<lambda>ts. tcp_call ts (\<lambda>env. tcp_ListenAndAccept (te_net env))),
      tp_Dial = (\<lambda>ts addr. tcp_call ts (\<lambda>env t. tcp_Dial (te_net env) t addr)),
      tp_Send = (\<lambda>ts addr rpc. tcp_call ts (\<lambda>env t. tcp_Send (te_net env) (te_es1 env) (te_es2 env) t addr rpc)),
      tp_Close = (\<lambda>ts. tcp_call ts (\<lambda>env. tcp_Close))\<rparr>"

interpretation tcp: transport TCP
  by unfold_locales
    (auto simp: TCP_def tcp_call_def dest: tcp_Send_addr tcp_Close_addr split: prod.splits)

section \<open>What a handler delivers\<close>

definition with_input :: "handler \<Rightarrow> reader \<Rightarrow> handler" where
  "with_input h r = h\<lparr>h_peer := (h_peer h)\<lparr>conn := (conn (h_peer h))\<lparr>c_in := r\<rparr>\<rparr>\<rparr>"

lemma with_input_simps [simp]:
  "h_pc (with_input h r) = h_pc h" "peer_Addr (h_peer (with_input h r)) = peer_Addr (h_peer h)"
  "c_open (conn (h_peer (with_input h r))) = c_open (conn (h_peer h))" "c_in (conn (h_peer (with_input h r))) = r"
  "with_input (with_input h r) r' = with_input h r'"
  by (simp_all add: with_input_def peer_Addr_def)

lemma set_handler_simps [simp]:
  "tt_opts (set_handler t k h) = tt_opts t" "tt_rpcCh (set_handler t k h) = tt_rpcCh t" "tt_peers (set_handler t k h) = tt_peers t"
  "length (tt_handlers (set_handler t k h)) = length (tt_handlers t)"
  "k < length (tt_handlers t) \<Longrightarrow> tt_handlers (set_handler t k h) ! k = h"
  "set_handler (set_handler t k h) k h' = set_handler t k h'"
  by (simp_all add: set_handler_def)

lemma handler_upd [simp]: "h\<lparr>h_peer := p, h_pc := x\<rparr> = \<lparr>h_peer = p, h_pc = x\<rparr>" for h :: handler
  by (cases h) simp

text \<open>A handler in its read loop, on an open connection, with the codec.\<close>

definition reading :: "rpc_json \<Rightarrow> TCPTransport \<Rightarrow> nat \<Rightarrow> bool" where
  "reading rj t k \<longleftrightarrow> k < length (tt_handlers t) \<and> h_pc (tt_handlers t ! k) = HRead \<and>
     c_open (conn (h_peer (tt_handlers t ! k))) \<and> o_Decoder (tt_opts t) = Some (codec_Decode rj)"

definition in_content :: "TCPTransport \<Rightarrow> nat \<Rightarrow> bytes" where
  "in_content t k = rd_content (c_in (conn (h_peer (tt_handlers t ! k))))"

lemma reading_one:
  assumes read: "reading rj t k" and h: "h = tt_handlers t ! k"
    and c: "in_content t k = frame d @ rest" and d: "d \<noteq> []" "length d \<le> MaxMessageSize"
    and rpc: "rj_Unmarshal rj d = Inr rpc" "\<not> rpc_Stream rpc" and room: "length (tt_rpcCh t) < rpcCh_cap"
  shows "\<exists>r. tcp_events t [EvHandler k, EvHandler k] =
      (set_handler t k (with_input h r))\<lparr>tt_rpcCh := tt_rpcCh t @ [rpc\<lparr>rpc_From := peer_Addr (h_peer h)\<rparr>]\<rparr> \<and>
    rd_content r = rest \<and> rd_err r = rd_err (c_in (conn (h_peer h)))"
proof -
  let ?p = "h_peer h" and ?r0 = "c_in (conn (h_peer h))"
  have k: "k < length (tt_handlers t)" and pc: "h_pc h = HRead" and op: "c_open (conn ?p)"
    and dec: "o_Decoder (tt_opts t) = Some (codec_Decode rj)"
    using read h by (auto simp: reading_def)
  obtain r where r: "codec_Decode rj ?r0 = (Inr rpc, r)" "rd_content r = rest" "rd_err r = rd_err ?r0"
    using Decode_frame [OF _ d rpc(1), of ?r0 rest] c h by (auto simp: in_content_def)
  let ?rpc = "rpc\<lparr>rpc_From := peer_Addr ?p\<rparr>"
  let ?t1 = "set_handler t k ((with_input h r)\<lparr>h_pc := HSend ?rpc\<rparr>)"
  have s1: "handler_step t k = Some ?t1"
    using k pc op dec r(1) rpc(2)
    by (simp add: handler_step_def h [symmetric] conn_reader_def with_input_def Let_def)
  have s2: "handler_step ?t1 k = Some ((set_handler t k (with_input h r))\<lparr>tt_rpcCh := tt_rpcCh t @ [?rpc]\<rparr>)"
    using k pc room by (cases h) (simp add: handler_step_def Let_def with_input_def)
  show ?thesis using s1 s2 r by (auto simp: tcp_events_def tcp_event_step_def)
qed


text \<open>At the end of the stream the handler leaves.\<close>

lemma reading_end:
  assumes read: "reading rj t k" and h: "h = tt_handlers t ! k" and c: "in_content t k = []"
  shows "\<exists>r. tcp_events t (replicate 3 (EvHandler k)) =
    (set_handler t k \<lparr>h_peer = snd (peer_Close (h_peer (with_input h r))), h_pc = HDone\<rparr>)\<lparr>tt_peers := (tt_peers t)(peer_Addr (h_peer h) := None)\<rparr>"
proof -
  have k: "k < length (tt_handlers t)" and pc: "h_pc h = HRead" and op: "c_open (conn (h_peer h))"
    and dec: "o_Decoder (tt_opts t) = Some (codec_Decode rj)"
    using read h by (auto simp: reading_def)
  obtain e r where r: "codec_Decode rj (c_in (conn (h_peer h))) = (Inl e, r)"
    using rd_ReadFull_short [of "c_in (conn (h_peer h))" 4] c h by (auto simp: in_content_def codec_Decode_def)
  have s1: "handler_step t k = Some (set_handler t k ((with_input h r)\<lparr>h_pc := HDelete\<rparr>))"
    using k pc op dec r by (simp add: handler_step_def h [symmetric] conn_reader_def with_input_def Let_def)
  have s2: "handler_step (set_handler t k ((with_input h r)\<lparr>h_pc := HDelete\<rparr>)) k =
      Some ((set_handler t k ((with_input h r)\<lparr>h_pc := HClose\<rparr>))\<lparr>tt_peers := (tt_peers t)(peer_Addr (h_peer h) := None)\<rparr>)"
    using k by (simp add: handler_step_def Let_def)
  have s3: "handler_step ((set_handler t k ((with_input h r)\<lparr>h_pc := HClose\<rparr>))\<lparr>tt_peers := (tt_peers t)(peer_Addr (h_peer h) := None)\<rparr>) k =
      Some ((set_handler t k \<lparr>h_peer = snd (peer_Close (h_peer (with_input h r))), h_pc = HDone\<rparr>)\<lparr>tt_peers := (tt_peers t)(peer_Addr (h_peer h) := None)\<rparr>)"
    using k by (simp add: handler_step_def Let_def set_handler_def)
  show ?thesis using s1 s2 s3 by (auto simp: tcp_events_def tcp_event_step_def numeral_3_eq_3)
qed



text \<open>Sending on a connection of the table.\<close>

lemma tcp_Send_registered:
  assumes "tt_peers t addr = Some k" and "o_Encoder (tt_opts t) = Some (codec_Encode rj)"
    and "h = tt_handlers t ! k" and "c_open (conn (h_peer h))" and "w_sched (c_out (conn (h_peer h))) = []"
    and "rj_Marshal rj rpc = Inr d" and "length d \<le> MaxMessageSize"
  shows "tcp_Send ne es1 [] t addr rpc =
    (None, set_handler t k (h\<lparr>h_peer := (h_peer h)\<lparr>conn := (conn (h_peer h))\<lparr>c_out :=
       (c_out (conn (h_peer h)))\<lparr>w_out := w_out (c_out (conn (h_peer h))) @ frame d\<rparr>\<rparr>\<rparr>\<rparr>))"
  using assms Encode_frame [OF assms(6,7,5)]
  by (simp add: tcp_Send_def peer_for_def tcp_events_def conn_writer_def Let_def)



section \<open>Properties\<close>

text \<open>For the witnesses: two connections to one address, one of them at its end, and a codec.\<close>

definition demo_opts :: TCPTransportOpts where
  "demo_opts = \<lparr>o_ListenAddr = ''me'', o_HandshakeFunc = None, o_Decoder = Some (codec_Decode toy_json),
     o_Encoder = Some (codec_Encode toy_json), o_OnPeer = None, o_TLSConfig = False\<rparr>"

lemma demo_opts_simps [simp]:
  "o_HandshakeFunc demo_opts = None" "o_OnPeer demo_opts = None" "o_Decoder demo_opts = Some (codec_Decode toy_json)"
  "o_Encoder demo_opts = Some (codec_Encode toy_json)" "\<not> o_TLSConfig demo_opts"
  by (simp_all add: demo_opts_def)

definition conn_to :: "string \<Rightarrow> bytes \<Rightarrow> Conn" where
  "conn_to a bs = \<lparr>c_remote = a, c_in = \<lparr>rd_segs = filter (\<lambda>x. x \<noteq> []) [bs], rd_err = Io_EOF, rd_joint = False\<rparr>,
     c_out = \<lparr>w_out = [], w_sched = []\<rparr>, c_open = True\<rparr>"

definition demo_net :: "bytes \<Rightarrow> net_env" where
  "demo_net bs = \<lparr>ne_Listen = (\<lambda>a. Inr a), ne_Dial = (\<lambda>a. Inr (conn_to a bs)), ne_tlsDial = (\<lambda>a. Inr (conn_to a bs))\<rparr>"

text \<open>A transport that has dialled one peer and reads from it.\<close>

definition dialled :: "TCPTransportOpts \<Rightarrow> bytes \<Rightarrow> TCPTransport" where
  "dialled opts bs = tcp_events (snd (tcp_Dial (demo_net bs) (NewTCPTransport opts) ''p'')) [EvHandler 0, EvHandler 0, EvHandler 0]"

lemma tcp_reach_dial: "tcp_reach opts t \<Longrightarrow> tcp_reach opts (snd (tcp_Dial ne t a))"
  unfolding tcp_reach_def using step_dial [of t ne a] by (metis rtranclp.rtrancl_into_rtrancl)

lemma tcp_reach_events: "tcp_reach opts t \<Longrightarrow> tcp_reach opts (tcp_events t evs)"
  unfolding tcp_reach_def using tcp_events_steps rtranclp_trans by metis

lemma tcp_reach_New: "tcp_reach opts (NewTCPTransport opts)"
  by (simp add: tcp_reach_def)

lemma dialled_simps [simp]:
  "tt_peers (dialled demo_opts bs) = (\<lambda>_. None)(''p'' := Some 0)" "tt_rpcCh (dialled demo_opts bs) = []"
  "tt_handlers (dialled demo_opts bs) = [\<lparr>h_peer = NewTCPPeer (conn_to ''p'' bs) True, h_pc = HRead\<rparr>]"
  "tt_opts (dialled demo_opts bs) = demo_opts"
  by (simp_all add: dialled_def tcp_Dial_def demo_net_def spawn_def NewTCPTransport_def tcp_events_def tcp_event_step_def
      handler_step_def set_handler_def call_back_def Let_def peer_Addr_def NewTCPPeer_def conn_to_def)

lemma conn_to_simps [simp]:
  "peer_Addr (NewTCPPeer (conn_to a bs) out) = a" "conn (NewTCPPeer (conn_to a bs) out) = conn_to a bs"
  "c_open (conn_to a bs)" "c_out (conn_to a bs) = \<lparr>w_out = [], w_sched = []\<rparr>" "rd_content (c_in (conn_to a bs)) = bs"
  by (simp_all add: peer_Addr_def NewTCPPeer_def conn_to_def rd_content_def)

lemma dialled_reading: "reading toy_json (dialled demo_opts bs) 0" "in_content (dialled demo_opts bs) 0 = bs"
  by (simp_all add: reading_def in_content_def)

lemma toy_rpc: "fits toy_json (payload_rpc bs)" "rj_roundtrip toy_json (payload_rpc bs)" "\<not> rpc_Stream (payload_rpc bs)"
  if "length bs < 9"
  using that by (simp_all add: fits_def rj_roundtrip_def toy_json_def payload_rpc_def MaxMessageSize_def)



text \<open>
  A message that one transport sends on a registered, working connection appears unchanged in the
  channel of the transport at the other end, behind what was there, with the address of the
  connection as its sender: whatever was written before or follows on the connection, however the stream is cut, after
  two steps of the handler.
\<close>

theorem tcp_message_arrives:
  assumes a: "tt_peers t addr = Some k" "o_Encoder (tt_opts t) = Some (codec_Encode rj)" "k < length (tt_handlers t)"
    "c_open (conn (h_peer (tt_handlers t ! k)))" "w_sched (c_out (conn (h_peer (tt_handlers t ! k)))) = []"
    and m: "fits rj rpc" "rj_roundtrip rj rpc" "\<not> rpc_Stream rpc"
    and b: "reading rj u j" "length (tt_rpcCh u) < rpcCh_cap"
  shows "\<exists>t' bs. tcp_Send ne es1 [] t addr rpc = (None, t') \<and>
    w_out (c_out (conn (h_peer (tt_handlers t' ! k)))) = w_out (c_out (conn (h_peer (tt_handlers t ! k)))) @ bs \<and>
    (\<forall>rest. in_content u j = bs @ rest \<longrightarrow>
       (let u' = tcp_events u [EvHandler j, EvHandler j]
        in tt_rpcCh u' = tt_rpcCh u @ [rpc\<lparr>rpc_From := peer_Addr (h_peer (tt_handlers u ! j))\<rparr>] \<and>
           reading rj u' j \<and> in_content u' j = rest))"
proof -
  obtain d where d: "rj_Marshal rj rpc = Inr d" "d \<noteq> []" "length d \<le> MaxMessageSize" "rj_Unmarshal rj d = Inr rpc"
    using m by (auto simp: fits_def rj_roundtrip_def)
  let ?h = "tt_handlers t ! k"
  note send = tcp_Send_registered [OF a(1,2) refl a(4,5) d(1,3), of ne es1]
  have "let u' = tcp_events u [EvHandler j, EvHandler j]
      in tt_rpcCh u' = tt_rpcCh u @ [rpc\<lparr>rpc_From := peer_Addr (h_peer (tt_handlers u ! j))\<rparr>] \<and> reading rj u' j \<and> in_content u' j = rest"
    if c: "in_content u j = frame d @ rest" for rest
  proof -
    obtain r where "tcp_events u [EvHandler j, EvHandler j] =
        (set_handler u j (with_input (tt_handlers u ! j) r))\<lparr>tt_rpcCh := tt_rpcCh u @ [rpc\<lparr>rpc_From := peer_Addr (h_peer (tt_handlers u ! j))\<rparr>]\<rparr>"
      "rd_content r = rest"
      using reading_one [OF b(1) refl c d(2-4) m(3) b(2)] by blast
    then show ?thesis using b(1) by (simp add: reading_def in_content_def)
  qed
  with send a(3) show ?thesis by (intro exI [of _ "frame d"] exI conjI) (auto simp: Let_def)
qed

theorem tcp_message_arrives_witness:
  "\<exists>t'. tcp_Send (demo_net []) [] [] (dialled demo_opts []) ''p'' (payload_rpc [5]) = (None, t')"
proof -
  have "o_Encoder (tt_opts (dialled demo_opts [])) = Some (codec_Encode toy_json)" by simp
  from tcp_message_arrives [OF _ this _ _ _ toy_rpc [of "[5]"] dialled_reading(1), of "''p''" 0 "[]" "demo_net []" "[]"]
  show ?thesis by (auto simp: rpcCh_cap_def)
qed






text \<open>
  The peer table can lose a connection that works. The entry that a handler deletes when it leaves is
  the one of its address, whoever put it there: for every codec and every address there is a reachable
  state in which a connection to that address is open and its handler is reading, but the
  table has no entry for it, so that the next \<^verbatim>\<open>Send\<close> dials again.
\<close>

theorem tcp_table_loses_connection:
  "\<exists>t. tcp_reach (demo_opts\<lparr>o_Decoder := Some (codec_Decode rj)\<rparr>) t \<and> reading rj t 1 \<and>
     peer_Addr (h_peer (tt_handlers t ! 1)) = addr \<and> tt_peers t addr = None"
proof -
  let ?o = "demo_opts\<lparr>o_Decoder := Some (codec_Decode rj)\<rparr>"
  let ?t0 = "snd (tcp_Dial (demo_net []) (snd (tcp_Dial (demo_net []) (NewTCPTransport ?o) addr)) addr)"
  let ?t1 = "tcp_events ?t0 [EvHandler 0, EvHandler 0, EvHandler 0, EvHandler 1, EvHandler 1, EvHandler 1]"
  have reach: "tcp_reach ?o (tcp_events ?t1 (replicate 3 (EvHandler 0)))"
    by (intro tcp_reach_events tcp_reach_dial tcp_reach_New)
  have t1: "tt_handlers ?t1 = replicate 2 \<lparr>h_peer = NewTCPPeer (conn_to addr []) True, h_pc = HRead\<rparr>" "tt_opts ?t1 = ?o"
    by (simp_all add: tcp_Dial_def demo_net_def spawn_def NewTCPTransport_def tcp_events_def tcp_event_step_def
        handler_step_def set_handler_def call_back_def Let_def numeral_2_eq_2)
  then have "reading rj ?t1 0" "in_content ?t1 0 = []" by (simp_all add: reading_def in_content_def)
  from reading_end [OF this(1) refl this(2)] obtain r where
    "tcp_events ?t1 (replicate 3 (EvHandler 0)) =
      (set_handler ?t1 0 \<lparr>h_peer = snd (peer_Close (h_peer (with_input (tt_handlers ?t1 ! 0) r))), h_pc = HDone\<rparr>)
        \<lparr>tt_peers := (tt_peers ?t1)(peer_Addr (h_peer (tt_handlers ?t1 ! 0)) := None)\<rparr>" by blast
  then have "reading rj (tcp_events ?t1 (replicate 3 (EvHandler 0))) 1"
    "peer_Addr (h_peer (tt_handlers (tcp_events ?t1 (replicate 3 (EvHandler 0))) ! 1)) = addr"
    "tt_peers (tcp_events ?t1 (replicate 3 (EvHandler 0))) addr = None"
    using t1 by (simp_all add: reading_def set_handler_def numeral_2_eq_2)
  with reach show ?thesis by blast
qed



end
