(* ===== verification/Go_Parse.thy ===== *)
theory Go_Parse
  imports Go_Strings
begin

text \<open>
  The functions of \<^verbatim>\<open>strings\<close> and \<^verbatim>\<open>strconv\<close> that the command line uses: \<^verbatim>\<open>strings.Split\<close> with a separator of one
  byte, \<^verbatim>\<open>strings.TrimSpace\<close> and \<^verbatim>\<open>strconv.Atoi\<close> on a 64-bit platform. The space
  characters are the code points of \<^verbatim>\<open>unicode.IsSpace\<close> in UTF-8. Lemmas: \<^verbatim>\<open>Split\<close> undoes joining,
  \<^verbatim>\<open>TrimSpace\<close> removes ASCII space around a word, \<^verbatim>\<open>Atoi\<close> reads what \<^verbatim>\<open>%d\<close> prints and only numbers in range.
\<close>

section \<open>Split and TrimSpace\<close>

fun strings_Split :: "string \<Rightarrow> char \<Rightarrow> string list" where
  "strings_Split [] sep = [[]]"
| "strings_Split (c # s) sep =
     (if c = sep then [] # strings_Split s sep
      else case strings_Split s sep of [] \<Rightarrow> [[c]] | w # ws \<Rightarrow> (c # w) # ws)"

definition ascii_spaces :: "char list" where
  "ascii_spaces = map char_of [9, 10, 11, 12, 13, 32 :: nat]"

definition space_runes :: "string list" where
  "space_runes =
     map (\<lambda>c. [c]) ascii_spaces @
     map (map char_of)
       ([[0xC2, 0x85], [0xC2, 0xA0], [0xE1, 0x9A, 0x80]] @ map (\<lambda>k. [0xE2, 0x80, 0x80 + k]) [0..<11] @
        [[0xE2, 0x80, 0xA8], [0xE2, 0x80, 0xA9], [0xE2, 0x80, 0xAF], [0xE2, 0x81, 0x9F], [0xE3, 0x80, 0x80 :: nat]])"

text \<open>The space rune at the beginning, if there is one.\<close>

fun leading_space :: "string list \<Rightarrow> string \<Rightarrow> nat" where
  "leading_space [] s = 0"
| "leading_space (r # rs) s = (if take (length r) s = r then length r else leading_space rs s)"

fun trim_with :: "nat \<Rightarrow> string list \<Rightarrow> string \<Rightarrow> string" where
  "trim_with 0 runes s = s"
| "trim_with (Suc n) runes s = (case leading_space runes s of 0 \<Rightarrow> s | Suc k \<Rightarrow> trim_with n runes (drop (Suc k) s))"

text \<open>From the right, the same on the reversed string with reversed runes; a rune is never empty, so the length is enough fuel.\<close>

definition strings_TrimSpace :: "string \<Rightarrow> string" where
  "strings_TrimSpace s =
     (let l = trim_with (length s) space_runes s
      in rev (trim_with (length l) (map rev space_runes) (rev l)))"

section \<open>Atoi\<close>

datatype num_error = ErrSyntax | ErrRange

definition digit_val :: "char \<Rightarrow> nat option" where
  "digit_val c = (let n = of_char c :: nat in if 48 \<le> n \<and> n \<le> 57 then Some (n - 48) else None)"

text \<open>\<^verbatim>\<open>ParseUint\<close> in base 10: the order of the checks decides which error is reported.\<close>

fun parse_uint :: "nat \<Rightarrow> string \<Rightarrow> num_error + nat" where
  "parse_uint n [] = Inr n"
| "parse_uint n (c # cs) =
     (case digit_val c of
        None \<Rightarrow> Inl ErrSyntax
      | Some d \<Rightarrow>
          if n \<ge> (2 ^ 64 - 1) div 10 + 1 \<or> n * 10 + d > 2 ^ 64 - 1 then Inl ErrRange
          else parse_uint (n * 10 + d) cs)"

definition parse_int :: "bool \<Rightarrow> string \<Rightarrow> num_error + int" where
  "parse_int neg s =
     (if s = [] then Inl ErrSyntax
      else case parse_uint 0 s of
             Inl e \<Rightarrow> Inl e
           | Inr un \<Rightarrow>
               if \<not> neg \<and> un \<ge> 2 ^ 63 \<or> neg \<and> un > 2 ^ 63 then Inl ErrRange
               else Inr (if neg then - int un else int un))"

definition strconv_Atoi :: "string \<Rightarrow> num_error + int" where
  "strconv_Atoi s =
     (case s of
        [] \<Rightarrow> Inl ErrSyntax
      | c # cs \<Rightarrow> if c = CHR ''+'' then parse_int False cs else if c = CHR ''-'' then parse_int True cs else parse_int False s)"

section \<open>Lemmas\<close>

lemma Split_not_Nil [simp]: "strings_Split s sep \<noteq> []"
  by (induction s) (auto split: list.splits)

lemma Split_none: "sep \<notin> set s \<Longrightarrow> strings_Split s sep = [s]"
  by (induction s) auto

lemma Split_word: "sep \<notin> set w \<Longrightarrow> strings_Split (w @ sep # s) sep = w # strings_Split s sep"
  by (induction w) auto

fun strings_Join :: "char \<Rightarrow> string list \<Rightarrow> string" where
  "strings_Join sep [] = []"
| "strings_Join sep [w] = w"
| "strings_Join sep (w # v # ws) = w @ sep # strings_Join sep (v # ws)"

lemma Join_Split: "strings_Join sep (strings_Split s sep) = s"
proof (induction s)
  case (Cons c s)
  obtain w ws where "strings_Split s sep = w # ws" by (cases "strings_Split s sep") auto
  with Cons show ?case by (cases ws) auto
qed simp

lemma Split_Join: "ws \<noteq> [] \<Longrightarrow> \<forall>w \<in> set ws. sep \<notin> set w \<Longrightarrow> strings_Split (strings_Join sep ws) sep = ws"
  by (induction sep ws rule: strings_Join.induct) (auto simp: Split_none Split_word)

lemma Split_parts: "w \<in> set (strings_Split s sep) \<Longrightarrow> sep \<notin> set w"
  by (induction s arbitrary: w) (auto split: list.splits if_splits)

lemma Split_length: "length (strings_Split s sep) = Suc (count_list s sep)"
  by (induction s) (auto split: list.splits)

text \<open>A character that is neither an ASCII space nor the first byte of another space.\<close>

definition plain_char :: "char \<Rightarrow> bool" where
  "plain_char c \<longleftrightarrow> c \<notin> set ascii_spaces \<and> (of_char c :: nat) < 128"

lemma leading_space_none: "\<forall>r \<in> set runes. r \<noteq> [] \<and> hd r \<noteq> c \<Longrightarrow> leading_space runes (c # s) = 0"
  by (induction runes) (auto simp: neq_Nil_conv)

lemma leading_space_one: "c \<in> set cs \<Longrightarrow> leading_space (map (\<lambda>c. [c]) cs @ runes) (c # s) = 1"
  by (induction cs) auto

lemma space_runes_hd:
  "\<forall>r \<in> set space_runes. r \<noteq> [] \<and> (hd r \<in> set ascii_spaces \<or> 128 \<le> (of_char (hd r) :: nat))"
  "\<forall>r \<in> set (map rev space_runes). r \<noteq> [] \<and> (hd r \<in> set ascii_spaces \<or> 128 \<le> (of_char (hd r) :: nat))"
  by code_simp+

lemma plain_no_space:
  assumes "plain_char c"
  shows "leading_space space_runes (c # s) = 0" and "leading_space (map rev space_runes) (c # s) = 0"
  using assms space_runes_hd by (fastforce intro!: leading_space_none simp: plain_char_def)+

lemma space_one:
  assumes "c \<in> set ascii_spaces"
  shows "leading_space space_runes (c # s) = 1" and "leading_space (map rev space_runes) (c # s) = 1"
  using leading_space_one [OF assms] by (simp_all add: space_runes_def comp_def)

text \<open>A word: not empty, and no space at its ends.\<close>

definition word_ends :: "string \<Rightarrow> bool" where
  "word_ends s \<longleftrightarrow> s \<noteq> [] \<and> plain_char (hd s) \<and> plain_char (last s)"

lemma trim_with_spaces:
  assumes "runes = space_runes \<or> runes = map rev space_runes" and "set w \<subseteq> set ascii_spaces" and "s \<noteq> []" "plain_char (hd s)"
    and "length w \<le> n"
  shows "trim_with n runes (w @ s) = s"
  using assms(2,5)
proof (induction w arbitrary: n)
  case Nil
  obtain c s' where s: "s = c # s'" using assms(3) by (cases s) auto
  then have "leading_space runes s = 0" using assms(1,4) plain_no_space [of c s'] by auto
  then show ?case by (cases n) auto
next
  case (Cons c w)
  then obtain m where m: "n = Suc m" by (cases n) auto
  have "leading_space runes (c # (w @ s)) = 1" using assms(1) Cons.prems(1) space_one [of c "w @ s"] by auto
  then show ?case using Cons m by (simp add: One_nat_def)
qed

lemma TrimSpace_word:
  assumes "set w1 \<subseteq> set ascii_spaces" and "set w2 \<subseteq> set ascii_spaces" and "word_ends s"
  shows "strings_TrimSpace (w1 @ s @ w2) = s"
proof -
  have s: "s \<noteq> []" "plain_char (hd s)" "plain_char (hd (rev s))" using assms(3) by (auto simp: word_ends_def hd_rev)
  have "trim_with (length (w1 @ s @ w2)) space_runes (w1 @ s @ w2) = s @ w2"
    using trim_with_spaces [OF _ assms(1), of space_runes "s @ w2" "length (w1 @ s @ w2)"] s by simp
  moreover have "trim_with (length (s @ w2)) (map rev space_runes) (rev w2 @ rev s) = rev s"
    using assms(2) s by (intro trim_with_spaces) auto
  ultimately show ?thesis by (simp add: strings_TrimSpace_def Let_def)
qed

text \<open>Decimal numbers.\<close>

lemma digit_char_val: "d < 10 \<Longrightarrow> digit_val (digit_char d) = Some d \<and> plain_char (digit_char d)"
proof -
  have "\<forall>d \<in> set [0..<10]. digit_val (digit_char d) = Some d \<and> plain_char (digit_char d)" by code_simp
  then show "d < 10 \<Longrightarrow> digit_val (digit_char d) = Some d \<and> plain_char (digit_char d)" by simp
qed

lemma parse_uint_append:
  "parse_uint n (s @ s') = (case parse_uint n s of Inl e \<Rightarrow> Inl e | Inr m \<Rightarrow> parse_uint m s')"
  by (induction s arbitrary: n) (auto split: option.splits)

lemma parse_uint_nat_str: "n < 2 ^ 64 \<Longrightarrow> parse_uint 0 (nat_str n) = Inr n"
proof (induction n rule: nat_str.induct)
  case (1 n)
  show ?case
  proof (cases "n < 10")
    case True
    then show ?thesis using digit_char_val [of n] by (simp add: nat_str.simps [of n])
  next
    case False
    have "n div 10 \<le> (2 ^ 64 - 1) div 10" using "1.prems" by (intro div_le_mono) simp
    moreover have "n div 10 * 10 + n mod 10 = n" by simp
    ultimately show ?thesis
      using 1 False digit_char_val [of "n mod 10"] by (simp add: nat_str.simps [of n] parse_uint_append del: div_mult_mod_eq)
  qed
qed

lemma nat_str_ends: "word_ends (nat_str n) \<and> (\<forall>c \<in> set (nat_str n). digit_val c \<noteq> None)"
proof (induction n rule: nat_str.induct)
  case (1 n)
  then show ?case
    using digit_char_val [of n] digit_char_val [of "n mod 10"] by (auto simp: nat_str.simps [of n] word_ends_def)
qed

lemma Atoi_itoa:
  assumes "- (2 ^ 63) \<le> i" and "i < 2 ^ 63"
  shows "strconv_Atoi (itoa i) = Inr i"
proof -
  have ne: "nat_str m \<noteq> []" "\<forall>c \<in> set (nat_str m). digit_val c \<noteq> None" for m
    using nat_str_ends [of m] by (auto simp: word_ends_def)
  have sign: "digit_val (CHR ''+'') = None" "digit_val (CHR ''-'') = None" by code_simp+
  show ?thesis
  proof (cases "i < 0")
    case True
    then have "nat (- i) < 2 ^ 64" "nat (- i) \<le> 2 ^ 63" using assms(1) by auto
    then show ?thesis using True ne [of "nat (- i)"] by (simp add: itoa_def strconv_Atoi_def parse_int_def parse_uint_nat_str)
  next
    case False
    then have b: "nat i < 2 ^ 64" "nat i < 2 ^ 63" using assms(2) by auto
    obtain c cs where c: "nat_str (nat i) = c # cs" using ne by (cases "nat_str (nat i)") auto
    then have "c \<noteq> CHR ''+''" "c \<noteq> CHR ''-''" using ne(2) [of "nat i"] sign by auto
    then show ?thesis
      using False b c parse_uint_nat_str [OF b(1)] by (simp add: itoa_def strconv_Atoi_def parse_int_def)
  qed
qed

lemma Atoi_range: "strconv_Atoi s = Inr i \<Longrightarrow> - (2 ^ 63) \<le> i \<and> i < 2 ^ 63"
  by (auto simp: strconv_Atoi_def parse_int_def split: list.splits if_splits sum.splits)

lemma itoa_word: "word_ends (itoa i)"
proof -
  have "plain_char (CHR ''-'')" by code_simp
  then show ?thesis
    using nat_str_ends [of "nat i"] nat_str_ends [of "nat (- i)"] by (auto simp: itoa_def word_ends_def)
qed

lemma itoa_no_plus: "CHR ''+'' \<notin> set (itoa i)"
proof -
  have "digit_val (CHR ''+'') = None" by code_simp
  then show ?thesis using nat_str_ends [of "nat i"] nat_str_ends [of "nat (- i)"] by (auto simp: itoa_def)
qed

end
