(* ===== verification/Node_Main.thy ===== *)
theory Node_Main
  imports Dht_Files Tcp_Transport Go_Parse
begin

text \<open>
  The program, \<^verbatim>\<open>cmd/node/main.go\<close>: reading of the erasure-coding option, and \<^verbatim>\<open>main\<close> from the
  parsed flags to the point where it ends or serves for ever. It builds the real parts: the TCP
  transport with the length-prefixed codec, the filesystem store and the service over both.
  What happens around it (random bytes, clock, network, RPCs handled during a pause or a call)
  is the argument \<open>en\<close>; \<open>cd\<close> and \<open>rj\<close> are the JSON functions (instantiated in theory \<open>Node_Flags\<close>), \<open>rs\<close> the Reed-Solomon library.
  The command-line strings that name files are cut at their last slash.

  Lemmas: which specifications \<^verbatim>\<open>-ec\<close> accepts; which runs end in which way; what a
  download has written when the node goes on to serve.
\<close>

section \<open>The erasure-coding option\<close>

datatype ec_error =
    EmptySpec
  | BadSpec string
  | BadDataShards string num_error
  | BadParityShards string num_error
  | BadParams go_error

definition parseECParams :: "string \<Rightarrow> ec_error + ECParams" where
  "parseECParams spec0 =
     (let spec = strings_TrimSpace spec0 in
      if spec = [] then Inl EmptySpec
      else let parts = strings_Split spec (CHR ''+'') in
        if length parts \<noteq> 2 then Inl (BadSpec spec)
        else (case strconv_Atoi (strings_TrimSpace (parts ! 0)) of
                Inl e \<Rightarrow> Inl (BadDataShards spec e)
              | Inr dataShards \<Rightarrow>
                  (case strconv_Atoi (strings_TrimSpace (parts ! 1)) of
                     Inl e \<Rightarrow> Inl (BadParityShards spec e)
                   | Inr parityShards \<Rightarrow>
                       let params = \<lparr>DataShards = dataShards, ParityShards = parityShards\<rparr>
                       in (case Validate params of Some e \<Rightarrow> Inl (BadParams e) | None \<Rightarrow> Inr params))))"

section \<open>Flags and outcomes\<close>

record flags =
  f_listen :: string
  f_bootstrap :: string
  f_lookup :: string
  f_storeTo :: string
  f_storeData :: string
  f_fetchFrom :: string
  f_fetchChunk :: string
  f_storeFile :: string
  f_chunkSize :: int
  f_downloadRoot :: string
  f_out :: string
  f_ec :: string

definition default_flags :: flags where
  "default_flags =
     \<lparr>f_listen = ''127.0.0.1:4000'', f_bootstrap = [], f_lookup = [], f_storeTo = [], f_storeData = [],
      f_fetchFrom = [], f_fetchChunk = [], f_storeFile = [], f_chunkSize = 1024 * 256,
      f_downloadRoot = [], f_out = [], f_ec = []\<rparr>"

text \<open>\<^verbatim>\<open>log.Fatalf\<close> by its place, the end of \<^verbatim>\<open>main\<close>, and \<^verbatim>\<open>select {}\<close>.\<close>

datatype fatal =
    FListen string go_error
  | FChunkStore go_error
  | FEcSpec string ec_error
  | FStoreEC go_error
  | FStoreFile go_error
  | FOutRequired
  | FBadRoot go_error
  | FFallback go_error
  | FDownload go_error

datatype exit = Fatal fatal | Return | Serve

definition path_of :: "string \<Rightarrow> path" where
  "path_of s =
     (case rev (strings_Split s (CHR ''/'')) of
        [] \<Rightarrow> (''.'', [])
      | [w] \<Rightarrow> (''.'', w)
      | w # ws \<Rightarrow> (strings_Join (CHR ''/'') (rev ws), w))"

type_synonym node = "(os, tcp_state) Service"

record boot_env =
  be_ev1 :: events
  be_ev2 :: events
  be_ev3 :: events
  be_now1 :: time
  be_now2 :: time

record main_env =
  en_rnd :: "bytes result"
  en_net :: "nat \<Rightarrow> tcp_env"
  en_os :: os
  en_boot :: "nat \<Rightarrow> boot_env"
  en_pause :: events
  en_lookup_pause :: events
  en_lookup :: lookup_env
  en_store :: call_env
  en_fetch :: call_env
  en_rep_lookup :: "nat \<Rightarrow> lookup_env"
  en_rep :: "nat \<Rightarrow> nat \<Rightarrow> call_env"
  en_announce :: announce_env
  en_find_lookup :: lookup_env
  en_find_rnd :: "nat \<Rightarrow> bytes result \<times> time"
  en_find_sched :: "sched list"
  en_find_arrive :: "nat list"
  en_find_iter :: "nat list"
  en_down :: "nat \<Rightarrow> call_env"
  en_fallback :: "nat \<Rightarrow> call_env"

section \<open>Start-up\<close>

definition main_opts :: "rpc_json \<Rightarrow> string \<Rightarrow> TCPTransportOpts" where
  "main_opts rj listen =
     \<lparr>o_ListenAddr = listen, o_HandshakeFunc = Some (\<lambda>p. (None, p)), o_Decoder = Some (codec_Decode rj),
      o_Encoder = Some (codec_Encode rj), o_OnPeer = Some (\<lambda>p. (None, p)), o_TLSConfig = False\<rparr>"

text \<open>\<open>None\<close>: \<^verbatim>\<open>MustRandomID\<close> panics.\<close>

definition startup :: "rpc_json \<Rightarrow> main_env \<Rightarrow> flags \<Rightarrow> (fatal + node) option" where
  "startup rj en fl =
     (case MustRandomID (en_rnd en) of
        None \<Rightarrow> None
      | Some selfID \<Rightarrow>
          let ts = \<lparr>ts_tcp = NewTCPTransport (main_opts rj (f_listen fl)), ts_env = en_net en, ts_call = 0\<rparr> in
          (case tp_ListenAndAccept TCP ts of
             (Some e, _) \<Rightarrow> Some (Inl (FListen (f_listen fl) e))
           | (None, ts1) \<Rightarrow>
               (case NewFSChunkStore (en_os en) ''./data/chunks'' of
                  (Inl e, _) \<Rightarrow> Some (Inl (FChunkStore e))
                | (Inr st, s') \<Rightarrow> Some (Inr (NewService selfID TCP ts1 (Some (FSStore st)) s')))))"

section \<open>Bootstrap\<close>

text \<open>\<open>be_ev1\<close> is the pause after a dial; \<open>be_ev2\<close> and \<open>be_ev3\<close> follow the two messages.\<close>

fun boot_loop :: "codec \<Rightarrow> (nat \<Rightarrow> boot_env) \<Rightarrow> nat \<Rightarrow> string list \<Rightarrow> ('s, 't) Service \<Rightarrow> ('s, 't) Service option" where
  "boot_loop cd be k [] sv = Some sv"
| "boot_loop cd be k (a # as) sv =
     (let addr = strings_TrimSpace a in
      if addr = [] then boot_loop cd be (Suc k) as sv
      else case tp_Dial (sv_transport sv) (sv_ts sv) addr of
             (Some _, ts) \<Rightarrow> boot_loop cd be (Suc k) as (sv\<lparr>sv_ts := ts\<rparr>)
           | (None, ts) \<Rightarrow>
               (case run_events cd (be_ev1 (be k)) (sv\<lparr>sv_ts := ts\<rparr>) of
                  None \<Rightarrow> None
                | Some sv1 \<Rightarrow>
                    (case run_events cd (be_ev2 (be k)) (snd (SendPing cd sv1 (be_now1 (be k)) addr)) of
                       None \<Rightarrow> None
                     | Some sv2 \<Rightarrow>
                         (case run_events cd (be_ev3 (be k))
                              (snd (SendFindNode cd sv2 (be_now2 (be k)) addr (nd_id (sv_node sv2)))) of
                            None \<Rightarrow> None
                          | Some sv3 \<Rightarrow> boot_loop cd be (Suc k) as sv3))))"

definition main_bootstrap :: "codec \<Rightarrow> main_env \<Rightarrow> flags \<Rightarrow> node \<Rightarrow> node option" where
  "main_bootstrap cd en fl sv =
     (case (if f_bootstrap fl \<noteq> [] then boot_loop cd (en_boot en) 0 (strings_Split (f_bootstrap fl) (CHR '','')) sv
            else Some sv) of
        None \<Rightarrow> None
      | Some sv1 \<Rightarrow> run_events cd (en_pause en) sv1)"

section \<open>Single operations\<close>

text \<open>Their results are only logged.\<close>

definition main_lookup :: "codec \<Rightarrow> main_env \<Rightarrow> flags \<Rightarrow> node \<Rightarrow> node option" where
  "main_lookup cd en fl sv =
     (if f_lookup fl = [] then Some sv
      else case IDFromHex (f_lookup fl) of
             Inl _ \<Rightarrow> Some sv
           | Inr i \<Rightarrow>
               (case run_events cd (en_lookup_pause en) sv of
                  None \<Rightarrow> None
                | Some sv1 \<Rightarrow> map_option snd (Lookup cd (le_ev (en_lookup en)) (le_clk (en_lookup en)) sv1 i)))"

definition main_store_chunk :: "codec \<Rightarrow> main_env \<Rightarrow> flags \<Rightarrow> node \<Rightarrow> node option" where
  "main_store_chunk cd en fl sv =
     (if f_storeTo fl \<noteq> [] \<and> f_storeData fl \<noteq> [] then
        map_option snd (StoreChunkRemote cd (ce_sched (en_store en)) sv (ce_rnd (en_store en)) (ce_now (en_store en))
          (f_storeTo fl) (map of_char (f_storeData fl)))
      else Some sv)"

definition main_fetch_chunk :: "codec \<Rightarrow> main_env \<Rightarrow> flags \<Rightarrow> node \<Rightarrow> node option" where
  "main_fetch_chunk cd en fl sv =
     (if f_fetchFrom fl \<noteq> [] \<and> f_fetchChunk fl \<noteq> [] then
        (case ChunkIDFromHex (f_fetchChunk fl) of
           Inl _ \<Rightarrow> Some sv
         | Inr cid \<Rightarrow>
             map_option snd (FetchChunkRemote cd (ce_sched (en_fetch en)) sv (ce_rnd (en_fetch en)) (ce_now (en_fetch en))
               (f_fetchFrom fl) cid))
      else Some sv)"

section \<open>Storing and downloading files\<close>

definition main_store_file :: "codec \<Rightarrow> rs_lib \<Rightarrow> main_env \<Rightarrow> flags \<Rightarrow> node \<Rightarrow> (exit \<times> node) option" where
  "main_store_file cd rs en fl sv =
     (if f_ec fl \<noteq> [] then
        (case parseECParams (f_ec fl) of
           Inl e \<Rightarrow> Some (Fatal (FEcSpec (f_ec fl) e), sv)
         | Inr params \<Rightarrow>
             (case StoreFileWithEC rs sv (path_of (f_storeFile fl)) (f_chunkSize fl) params of
                (Inl e, sv') \<Rightarrow> Some (Fatal (FStoreEC e), sv')
              | (Inr _, sv') \<Rightarrow> Some (Return, sv')))
      else
        (case StoreFileLocalAndAnnounce cd (en_rep_lookup en) (en_rep en) (en_announce en) sv
             (path_of (f_storeFile fl)) (f_chunkSize fl) of
           None \<Rightarrow> None
         | Some (Inl e, sv') \<Rightarrow> Some (Fatal (FStoreFile e), sv')
         | Some (Inr _, sv') \<Rightarrow> Some (Return, sv')))"

definition main_download :: "codec \<Rightarrow> main_env \<Rightarrow> flags \<Rightarrow> node \<Rightarrow> (exit \<times> node) option" where
  "main_download cd en fl sv =
     (if f_downloadRoot fl = [] then Some (Serve, sv)
      else if f_out fl = [] then Some (Fatal FOutRequired, sv)
      else case ChunkIDFromHex (f_downloadRoot fl) of
             Inl e \<Rightarrow> Some (Fatal (FBadRoot e), sv)
           | Inr rootID \<Rightarrow>
               (case DownloadFile cd (en_find_lookup en) (en_find_rnd en) (en_find_sched en) (en_find_arrive en)
                    (en_find_iter en) (en_down en) sv rootID (path_of (f_out fl)) of
                  None \<Rightarrow> None
                | Some (None, sv1) \<Rightarrow> Some (Serve, sv1)
                | Some (Some e, sv1) \<Rightarrow>
                    if f_bootstrap fl \<noteq> [] then
                      (let addr = strings_TrimSpace (strings_Split (f_bootstrap fl) (CHR '','') ! 0)
                       in case DownloadFileFromProvider cd (en_fallback en) sv1 rootID addr (path_of (f_out fl)) of
                            None \<Rightarrow> None
                          | Some (None, sv2) \<Rightarrow> Some (Serve, sv2)
                          | Some (Some e2, sv2) \<Rightarrow> Some (Fatal (FFallback e2), sv2))
                    else Some (Fatal (FDownload e), sv1)))"

section \<open>The program\<close>

definition main_commands :: "codec \<Rightarrow> rs_lib \<Rightarrow> main_env \<Rightarrow> flags \<Rightarrow> node \<Rightarrow> (exit \<times> node) option" where
  "main_commands cd rs en fl sv0 =
     (case main_bootstrap cd en fl sv0 of None \<Rightarrow> None | Some sv1 \<Rightarrow>
     (case main_lookup cd en fl sv1 of None \<Rightarrow> None | Some sv2 \<Rightarrow>
     (case main_store_chunk cd en fl sv2 of None \<Rightarrow> None | Some sv3 \<Rightarrow>
     (case main_fetch_chunk cd en fl sv3 of None \<Rightarrow> None | Some sv4 \<Rightarrow>
       if f_storeFile fl \<noteq> [] then main_store_file cd rs en fl sv4
       else main_download cd en fl sv4))))"

definition main_run :: "codec \<Rightarrow> rpc_json \<Rightarrow> rs_lib \<Rightarrow> main_env \<Rightarrow> flags \<Rightarrow> (exit \<times> node option) option" where
  "main_run cd rj rs en fl =
     (case startup rj en fl of
        None \<Rightarrow> None
      | Some (Inl f) \<Rightarrow> Some (Fatal f, None)
      | Some (Inr sv) \<Rightarrow>
          (case main_commands cd rs en fl sv of
             None \<Rightarrow> None
           | Some (x, sv') \<Rightarrow> Some (x, Some sv')))"

section \<open>Lemmas\<close>

text \<open>The files of the node: its store stays the one it was started with.\<close>

lemma startup_node:
  assumes "startup rj en fl = Some (Inr sv)"
  shows "sv_good sv" and "\<exists>st. baseDir st = ''./data/chunks'' \<and> sv_store sv = Some (FSStore st) \<and> nd_store (sv_node sv) = Some (FSStore st)"
    and "sv_transport sv = TCP"
proof -
  obtain i ts st s' where sv: "sv = NewService i TCP ts (Some (FSStore st)) s'" and st: "NewFSChunkStore (en_os en) ''./data/chunks'' = (Inr st, s')"
    using assms by (auto simp: startup_def Let_def split: result_splits)
  show "sv_good sv" unfolding sv by (rule sv_good_New)
  have "baseDir st = ''./data/chunks''" using st by (auto simp: NewFSChunkStore_def split: prod.splits option.splits)
  then show "\<exists>st. baseDir st = ''./data/chunks'' \<and> sv_store sv = Some (FSStore st) \<and> nd_store (sv_node sv) = Some (FSStore st)"
    by (intro exI [of _ st]) (simp add: sv NewService_def SetNodeAddr_def)
  show "sv_transport sv = TCP" by (simp add: sv NewService_def)
qed

lemma SendPing_good: "sv_good sv \<Longrightarrow> sv_good (snd (SendPing cd sv t a))"
  using sv_Send_good [of sv a] by (auto simp: SendPing_def split: sum.splits) (metis prod.collapse)

lemma SendFindNode_good': "sv_good sv \<Longrightarrow> sv_good (snd (SendFindNode cd sv t a i))"
  by (metis SendFindNode_good prod.collapse)

lemma sv_good_ts [simp]: "sv_good (sv\<lparr>sv_ts := ts\<rparr>) = sv_good sv"
  by (simp add: sv_good_def sv_inv_def)

lemma boot_loop_good: "sv_good sv \<Longrightarrow> \<exists>sv'. boot_loop cd be k as sv = Some sv' \<and> sv_good sv'"
proof (induction "as" arbitrary: k sv)
  case (Cons a "as")
  obtain e ts where d: "tp_Dial (sv_transport sv) (sv_ts sv) (strings_TrimSpace a) = (e, ts)" by fastforce
  obtain sv1 where 1: "run_events cd (be_ev1 (be k)) (sv\<lparr>sv_ts := ts\<rparr>) = Some sv1" "sv_good sv1"
    using run_events_good [of "sv\<lparr>sv_ts := ts\<rparr>"] Cons.prems by auto
  obtain sv2 where 2: "run_events cd (be_ev2 (be k)) (snd (SendPing cd sv1 (be_now1 (be k)) (strings_TrimSpace a))) = Some sv2" "sv_good sv2"
    using run_events_good SendPing_good [OF 1(2)] by blast
  obtain sv3 where "run_events cd (be_ev3 (be k))
      (snd (SendFindNode cd sv2 (be_now2 (be k)) (strings_TrimSpace a) (nd_id (sv_node sv2)))) = Some sv3" "sv_good sv3"
    using run_events_good SendFindNode_good' [OF 2(2)] by blast
  with Cons d 1 2 show ?case by (cases e) (auto simp: Let_def)
qed simp

lemma main_bootstrap_good: "sv_good sv \<Longrightarrow> \<exists>sv'. main_bootstrap cd en fl sv = Some sv' \<and> sv_good sv'"
proof -
  assume sv: "sv_good sv"
  have "\<exists>sv1. (if f_bootstrap fl \<noteq> [] then boot_loop cd (en_boot en) 0 (strings_Split (f_bootstrap fl) (CHR '','')) sv else Some sv) =
      Some sv1 \<and> sv_good sv1"
    using boot_loop_good [OF sv] sv by auto
  then show ?thesis using run_events_good by (auto simp: main_bootstrap_def)
qed

lemma main_lookup_good: "sv_good sv \<Longrightarrow> \<exists>sv'. main_lookup cd en fl sv = Some sv' \<and> sv_good sv'"
proof -
  assume sv: "sv_good sv"
  obtain sv1 where 1: "run_events cd (en_lookup_pause en) sv = Some sv1" "sv_good sv1" using run_events_good [OF sv] by blast
  have "\<exists>r sv'. Lookup cd ev clk sv1 i = Some (r, sv') \<and> sv_good sv'" for ev clk i
    using lookup_rounds_good [OF 1(2), of maxRounds cd ev clk i "[]" None] by (auto simp: Lookup_def)
  then show ?thesis using sv 1 by (fastforce simp: main_lookup_def split: sum.splits)
qed

text \<open>What the single commands leave of the node.\<close>

lemma boot_loop_grows: "boot_loop cd be k as sv = Some sv' \<Longrightarrow> nd_grows (sv_node sv) (sv_node sv')" for sv :: "(os, 't) Service"
proof (induction "as" arbitrary: k sv)
  case (Cons a "as")
  have l: "leaves p sv1 sv2 \<Longrightarrow> nd_grows (sv_node sv1) (sv_node sv2)" for p and sv1 sv2 :: "(os, 't) Service"
    by (simp add: leaves_def)
  have ping: "nd_grows (sv_node sv1) (sv_node (snd (SendPing cd sv1 t x)))" "nd_grows (sv_node sv1) (sv_node (snd (SendFindNode cd sv1 t x i)))"
    for sv1 :: "(os, 't) Service" and t x i
    by (auto simp: SendPing_def SendFindNode_def sv_Send_def split: sum.splits prod.splits)
  note ev = l [OF run_events_leaves]
  show ?case
    using Cons.prems Cons.IH
    by (auto simp: Let_def split: if_splits prod.splits option.splits dest!: Cons.IH ev)
      (meson nd_grows_trans ping)+
qed simp

lemma FindFileProviders_leaves: "FindFileProviders cd le rnds xs arrive iter sv root = Some (r, sv') \<Longrightarrow> leaves p sv sv'"
  unfolding FindFileProviders_def Let_def
  by (auto split: result_splits if_splits
      intro: Lookup_leaves leaves_trans [OF Lookup_leaves run_sched_leaves])

lemma download_chunks_grows:
  "download_chunks cd ce addr dest k cms sv = Some (e, sv') \<Longrightarrow> nd_grows (sv_node sv) (sv_node sv')"
proof (induction cms arbitrary: k sv)
  case (Cons cm cms)
  have f: "nd_grows (sv_node sv) (sv_node sv1)" if "FetchChunkRemote cd xs sv rnd now addr i = Some (r, sv1)" for xs rnd now i r sv1
    using requests_leave(1) [OF that] by (simp add: leaves_def)
  from Cons show ?case
    by (auto split: result_splits if_splits intro: f dest!: Cons.IH nd_grows_trans [OF f])
qed simp

lemma DownloadFileFromProvider_grows:
  assumes "DownloadFileFromProvider cd ce sv root addr dest = Some (e, sv')"
  shows "nd_grows (sv_node sv) (sv_node sv')"
proof -
  have f: "nd_grows (sv_node sv) (sv_node sv1)" if "FetchFileMetaFromProvider cd xs sv rnd now addr root = Some (r, sv1)" for xs rnd now r sv1
    using requests_leave(2) [OF that] by (simp add: leaves_def)
  show ?thesis
    using assms
    by (auto simp: DownloadFileFromProvider_def split: result_splits
        intro: f dest!: download_chunks_grows nd_grows_trans [OF f])
qed

lemma main_commands_grows:
  assumes "main_bootstrap cd en fl sv = Some sv1" and "main_lookup cd en fl sv1 = Some sv2"
    and "main_store_chunk cd en fl sv2 = Some sv3" and "main_fetch_chunk cd en fl sv3 = Some sv4"
  shows "nd_grows (sv_node sv) (sv_node sv4)"
proof -
  have l: "leaves p a b \<Longrightarrow> nd_grows (sv_node a) (sv_node b)" for p and a b :: node by (simp add: leaves_def)
  have "nd_grows (sv_node sv) (sv_node sv1)"
    using assms(1) nd_grows_trans [OF boot_loop_grows l [OF run_events_leaves]] l [OF run_events_leaves]
    by (fastforce simp: main_bootstrap_def split: if_splits option.splits)
  moreover have "nd_grows (sv_node sv1) (sv_node sv2)"
    using assms(2) nd_grows_trans [OF l [OF run_events_leaves] l [OF Lookup_leaves]]
    by (fastforce simp: main_lookup_def split: if_splits sum.splits option.splits)
  moreover have "nd_grows (sv_node sv2) (sv_node sv3)"
    using assms(3) l [OF requests_leave(3)] by (fastforce simp: main_store_chunk_def split: if_splits)
  moreover have "nd_grows (sv_node sv3) (sv_node sv4)"
    using assms(4) l [OF requests_leave(1)] by (fastforce simp: main_fetch_chunk_def split: if_splits sum.splits)
  ultimately show ?thesis by (blast intro: nd_grows_trans)
qed

text \<open>
  A node that was told to download a file and goes on to serve has written chunks that match
  the metadata of the provider it asked, found by the lookup or the first bootstrap peer.
\<close>

lemma main_download_written:
  assumes run: "main_run cd rj rs en fl = Some (Serve, Some sv')" and root: "f_downloadRoot fl \<noteq> []"
    and out: "fst (path_of (f_out fl)) \<noteq> ''./data/chunks''"
  shows "\<exists>i (ce :: nat \<Rightarrow> call_env) a (sv1 :: node) meta sv2 ds. ChunkIDFromHex (f_downloadRoot fl) = Inr i \<and>
    FetchFileMetaFromProvider cd (ce_sched (ce 0)) sv1 (ce_rnd (ce 0)) (ce_now (ce 0)) a i = Some (Inr meta, sv2) \<and>
    map NewChunkID ds = map cm_ID (fm_Chunks meta) \<and> os_node (sv_ss sv') (path_of (f_out fl)) = Some (RegFile (concat ds))"
proof -
  obtain sv0 sv1 sv2 sv3 sv4 where st: "startup rj en fl = Some (Inr sv0)" and p: "main_bootstrap cd en fl sv0 = Some sv1"
    "main_lookup cd en fl sv1 = Some sv2" "main_store_chunk cd en fl sv2 = Some sv3" "main_fetch_chunk cd en fl sv3 = Some sv4"
    and c: "(if f_storeFile fl \<noteq> [] then main_store_file cd rs en fl sv4 else main_download cd en fl sv4) = Some (Serve, sv')"
    using run by (auto simp: main_run_def main_commands_def split: result_splits)
  have d: "main_download cd en fl sv4 = Some (Serve, sv')"
    using c by (auto simp: main_store_file_def split: result_splits if_splits)
  obtain s where s: "baseDir s = ''./data/chunks''" "nd_store (sv_node sv4) = Some (FSStore s)"
    using startup_node(2) [OF st] main_commands_grows [OF p] by (auto simp: nd_grows_def nd_fixed_def)
  have store: "nd_store (sv_node b) = Some (FSStore s)" if "nd_grows (sv_node sv4) (sv_node b)" for b :: node
    using that s(2) by (simp add: nd_grows_def nd_fixed_def)
  obtain i r svd where i: "ChunkIDFromHex (f_downloadRoot fl) = Inr i"
    and dl: "DownloadFile cd (en_find_lookup en) (en_find_rnd en) (en_find_sched en) (en_find_arrive en) (en_find_iter en)
        (en_down en) sv4 i (path_of (f_out fl)) = Some (r, svd)"
    using d root by (auto simp: main_download_def split: if_splits sum.splits option.splits)
  have find: "nd_grows (sv_node sv4) (sv_node b)"
    if "FindFileProviders cd le rnds xs ar it sv4 i = Some (q, b)" for le rnds xs ar it q b
    using FindFileProviders_leaves [OF that] by (simp add: leaves_def)
  have grow: "nd_grows (sv_node sv4) (sv_node svd)"
    using dl by (auto simp: DownloadFile_def split: option.splits sum.splits list.splits
        intro: find nd_grows_trans [OF find DownloadFileFromProvider_grows])
  have down: "\<exists>ce a b. nd_store (sv_node b) = Some (FSStore s) \<and> DownloadFileFromProvider cd ce b i a (path_of (f_out fl)) = Some (None, sv')"
  proof (cases r)
    case None
    then have "svd = sv'" using d root i dl by (auto simp: main_download_def split: if_splits)
    with dl None show ?thesis
      by (auto simp: DownloadFile_def split: option.splits sum.splits list.splits) (metis find store)
  next
    case (Some e)
    then have "DownloadFileFromProvider cd (en_fallback en) svd i (strings_TrimSpace (strings_Split (f_bootstrap fl) (CHR '','') ! 0))
        (path_of (f_out fl)) = Some (None, sv')"
      using d root i dl by (auto simp: main_download_def Let_def split: if_splits option.splits)
    then show ?thesis using store [OF grow] by blast
  qed
  have ne: "fst (path_of (f_out fl)) \<noteq> baseDir s" using out s(1) by simp
  from down obtain ce a b where b: "nd_store (sv_node b) = Some (FSStore s)"
    "DownloadFileFromProvider cd ce b i a (path_of (f_out fl)) = Some (None, sv')" by blast
  from download_writes [OF b(1) ne b(2)] i show ?thesis by blast
qed

section \<open>Properties\<close>

text \<open>
  C38: \<^verbatim>\<open>-ec\<close> accepts two decimal numbers around one plus sign, with ASCII space anywhere between them and around
  them, exactly when \<^verbatim>\<open>Validate\<close> accepts the counts, and returns these counts; every other
  pair of 64-bit numbers is refused with the error of \<^verbatim>\<open>Validate\<close>.
\<close>

theorem parseECParams_decimal:
  assumes "set w1 \<union> set w2 \<union> set w3 \<union> set w4 \<subseteq> set ascii_spaces"
    and "- (2 ^ 63) \<le> d" "d < 2 ^ 63" "- (2 ^ 63) \<le> p" "p < 2 ^ 63"
  shows "parseECParams (w1 @ itoa d @ w2 @ ''+'' @ w3 @ itoa p @ w4) =
    (case Validate \<lparr>DataShards = d, ParityShards = p\<rparr> of
       None \<Rightarrow> Inr \<lparr>DataShards = d, ParityShards = p\<rparr> | Some e \<Rightarrow> Inl (BadParams e))"
proof -
  have sp: "set w1 \<subseteq> set ascii_spaces" "set w2 \<subseteq> set ascii_spaces" "set w3 \<subseteq> set ascii_spaces" "set w4 \<subseteq> set ascii_spaces"
    using assms(1) by auto
  have "CHR ''+'' \<notin> set ascii_spaces" by code_simp
  then have np: "CHR ''+'' \<notin> set (itoa d @ w2)" "CHR ''+'' \<notin> set (w3 @ itoa p)" using sp itoa_no_plus by auto
  let ?s = "itoa d @ w2 @ ''+'' @ w3 @ itoa p"
  have "word_ends ?s" using itoa_word [of d] itoa_word [of p] by (auto simp: word_ends_def)
  then have trim: "strings_TrimSpace (w1 @ itoa d @ w2 @ ''+'' @ w3 @ itoa p @ w4) = ?s"
    using TrimSpace_word [OF sp(1,4)] by (metis append.assoc)
  have split: "strings_Split ?s (CHR ''+'') = [itoa d @ w2, w3 @ itoa p]"
    using Split_word [OF np(1), of "w3 @ itoa p"] Split_none [OF np(2)] by simp
  have t: "strings_TrimSpace (itoa d @ w2) = itoa d" "strings_TrimSpace (w3 @ itoa p) = itoa p"
    using TrimSpace_word [OF _ sp(2) itoa_word, of "[]"] TrimSpace_word [OF sp(3) _ itoa_word, of "[]"] by simp_all
  show ?thesis
    unfolding parseECParams_def Let_def trim split using t Atoi_itoa [OF assms(2,3)] Atoi_itoa [OF assms(4,5)] by simp
qed

theorem parseECParams_decimal_witness:
  "parseECParams '' 4 +2'' = Inr \<lparr>DataShards = 4, ParityShards = 2\<rparr>"
proof -
  have "set '' '' \<union> set '' '' \<union> set [] \<union> set [] \<subseteq> set ascii_spaces" by code_simp
  moreover have "'' '' @ itoa 4 @ '' '' @ ''+'' @ [] @ itoa 2 @ [] = '' 4 +2''" by code_simp
  moreover have "Validate \<lparr>DataShards = 4, ParityShards = 2\<rparr> = None" by (simp add: Validate_def TotalShards_def wrap64_def)
  ultimately show ?thesis using parseECParams_decimal [of "'' ''" "'' ''" "[]" "[]" 4 2] by simp
qed

text \<open>
  C37: a node that is started with bootstrap peers and an optional lookup always comes to the point where it
  serves, whatever the bootstrap string holds, whichever dials and sends fail and whatever RPCs arrive
  meanwhile; no step panics, and the invariants of the service and of its routing table hold then.
\<close>

theorem node_reaches_serving:
  assumes "startup rj en fl = Some (Inr sv)"
    and "f_storeTo fl = []" "f_fetchFrom fl = []" "f_storeFile fl = []" "f_downloadRoot fl = []"
  shows "\<exists>sv'. main_run cd rj rs en fl = Some (Serve, Some sv') \<and> sv_good sv'"
proof -
  obtain sv1 where 1: "main_bootstrap cd en fl sv = Some sv1" "sv_good sv1"
    using main_bootstrap_good [OF startup_node(1) [OF assms(1)]] by blast
  obtain sv2 where "main_lookup cd en fl sv1 = Some sv2" "sv_good sv2" using main_lookup_good [OF 1(2)] by blast
  with 1 assms show ?thesis
    by (simp add: main_run_def main_commands_def main_store_chunk_def main_fetch_chunk_def main_download_def)
qed


section \<open>Witnesses\<close>

text \<open>A machine with one file, a network without peers, and an environment in which nothing happens.\<close>

definition quiet_env :: main_env where
  "quiet_env =
     \<lparr>en_rnd = Inr (replicate 20 0), en_net = (\<lambda>_. \<lparr>te_net = demo_net [], te_es1 = [], te_es2 = []\<rparr>),
      en_os = \<lparr>os_dirs = [''out''], os_files = [((''out'', ''f''), RegFile [7, 8])], os_sched = []\<rparr>,
      en_boot = (\<lambda>_. \<lparr>be_ev1 = [], be_ev2 = [], be_ev3 = [], be_now1 = 0, be_now2 = 0\<rparr>), en_pause = [], en_lookup_pause = [],
      en_lookup = \<lparr>le_ev = \<lambda>_ _. [], le_clk = \<lambda>_ _. 0\<rparr>, en_store = peer_calls 0, en_fetch = peer_calls 0,
      en_rep_lookup = (\<lambda>_. \<lparr>le_ev = \<lambda>_ _. [], le_clk = \<lambda>_ _. 0\<rparr>), en_rep = (\<lambda>_. peer_calls),
      en_announce = \<lparr>ae_lookup = \<lparr>le_ev = \<lambda>_ _. [], le_clk = \<lambda>_ _. 0\<rparr>, ae_ev = \<lambda>_. [], ae_now1 = 0, ae_now2 = 0\<rparr>,
      en_find_lookup = \<lparr>le_ev = \<lambda>_ _. [], le_clk = \<lambda>_ _. 0\<rparr>, en_find_rnd = (\<lambda>_. (Inr (replicate 20 0), 0)), en_find_sched = [],
      en_find_arrive = [], en_find_iter = [], en_down = peer_calls, en_fallback = peer_calls\<rparr>"

definition quiet_os :: os where
  "quiet_os = \<lparr>os_dirs = [''./data/chunks'', ''out''], os_files = [((''out'', ''f''), RegFile [7, 8])], os_sched = []\<rparr>"

lemma quiet_startup:
  "\<exists>ts. startup toy_json quiet_env fl = Some (Inr (NewService ID_zero TCP ts (Some (FSStore \<lparr>baseDir = ''./data/chunks''\<rparr>)) quiet_os))"
proof -
  let ?ts = "\<lparr>ts_tcp = NewTCPTransport (main_opts toy_json (f_listen fl)), ts_env = en_net quiet_env, ts_call = 0\<rparr>"
  have "\<exists>ts1. tp_ListenAndAccept TCP ?ts = (None, ts1)"
    by (simp add: TCP_def tcp_call_def tcp_ListenAndAccept_def quiet_env_def demo_net_def)
  then obtain ts1 where l: "tp_ListenAndAccept TCP ?ts = (None, ts1)" ..
  have "MustRandomID (en_rnd quiet_env) = Some ID_zero"
    "NewFSChunkStore (en_os quiet_env) ''./data/chunks'' = (Inr \<lparr>baseDir = ''./data/chunks''\<rparr>, quiet_os)"
    using peer_random by (simp_all add: quiet_env_def quiet_os_def NewFSChunkStore_def os_MkdirAll_def os_fault_def os_tick_def)
  with l show ?thesis by (intro exI [of _ ts1]) (simp add: startup_def Let_def)
qed

theorem node_reaches_serving_witness:
  "\<exists>sv'. main_run peer_codec toy_json xor_rs quiet_env (default_flags\<lparr>f_bootstrap := ''p, ,q''\<rparr>) = Some (Serve, Some sv')"
proof -
  obtain ts where "startup toy_json quiet_env (default_flags\<lparr>f_bootstrap := ''p, ,q''\<rparr>) =
      Some (Inr (NewService ID_zero TCP ts (Some (FSStore \<lparr>baseDir = ''./data/chunks''\<rparr>)) quiet_os))"
    using quiet_startup by blast
  from node_reaches_serving [OF this, of peer_codec xor_rs] show ?thesis by (auto simp: default_flags_def)
qed



end
