(* ===== verification/Json_Text.thy ===== *)
theory Json_Text
  imports Go_Parse
begin

text \<open>
  The JSON text layer of the standard library, as far as \<^verbatim>\<open>json.Marshal\<close> and \<^verbatim>\<open>json.Unmarshal\<close> reach it from the
  sources: the syntax check of the decoder as a lexer and a pushdown machine with
  the decoder's nesting limit, the compact form the encoder writes, and the quoting of strings (HTML
  characters and control characters escaped, invalid UTF-8 replaced). A tree keeps number and
  string literals as they are in the text; what they denote is decided where they are decoded.

  Lemmas: a printed tree is read back as it is; a quoted string is one literal, and unquoting gives back a valid UTF-8
  string.
\<close>

section \<open>Trees and tokens\<close>

datatype jtext =
    JtNull
  | JtBool bool
  | JtNum string
  | JtStr string
  | JtArr "jtext list"
  | JtObj "(string \<times> jtext) list"

datatype token = Punct char | Scalar jtext

abbreviation bslash :: char where "bslash \<equiv> CHR 0x5C"
abbreviation dquote :: char where "dquote \<equiv> CHR 0x22"

definition json_space :: "char \<Rightarrow> bool" where
  "json_space c \<longleftrightarrow> c = CHR '' '' \<or> c = CHR 0x09 \<or> c = CHR 0x0D \<or> c = CHR 0x0A"

definition is_digit :: "char \<Rightarrow> bool" where
  "is_digit c \<longleftrightarrow> digit_val c \<noteq> None"

definition is_hex :: "char \<Rightarrow> bool" where
  "is_hex c \<longleftrightarrow> unhex c \<noteq> None"

section \<open>The lexer\<close>

definition simple_escape :: "char \<Rightarrow> bool" where
  "simple_escape e \<longleftrightarrow> e \<in> set ''bfnrt/'' \<or> e = bslash \<or> e = dquote"

text \<open>The body of a string literal up to the closing quote, and what follows it.\<close>

fun scan_str :: "string \<Rightarrow> (string \<times> string) option" where
  "scan_str [] = None"
| "scan_str (c # s) =
     (if c = dquote then Some ([], s)
      else if c = bslash then
        (case s of
           [] \<Rightarrow> None
         | e # s' \<Rightarrow>
             if simple_escape e then map_option (apfst (\<lambda>b. c # e # b)) (scan_str s')
             else if e = CHR ''u'' \<and> 4 \<le> length s' \<and> list_all is_hex (take 4 s')
             then map_option (apfst (\<lambda>b. c # e # take 4 s' @ b)) (scan_str (drop 4 s'))
             else None)
      else if (of_char c :: nat) < 32 then None
      else map_option (apfst (\<lambda>b. c # b)) (scan_str s))"

definition scan_int :: "string \<Rightarrow> (string \<times> string) option" where
  "scan_int s =
     (case s of
        [] \<Rightarrow> None
      | c # r \<Rightarrow> if c = CHR ''0'' then Some ([c], r)
                 else if is_digit c then Some (takeWhile is_digit s, dropWhile is_digit s) else None)"

definition scan_frac :: "string \<Rightarrow> (string \<times> string) option" where
  "scan_frac s =
     (case s of
        [] \<Rightarrow> Some ([], s)
      | c # r \<Rightarrow> if c = CHR ''.'' then
                   if takeWhile is_digit r = [] then None else Some (c # takeWhile is_digit r, dropWhile is_digit r)
                 else Some ([], s))"

definition scan_sign :: "string \<Rightarrow> string \<Rightarrow> string \<times> string" where
  "scan_sign cs s = (case s of [] \<Rightarrow> ([], s) | c # r \<Rightarrow> if c \<in> set cs then ([c], r) else ([], s))"

definition scan_exp :: "string \<Rightarrow> (string \<times> string) option" where
  "scan_exp s =
     (case s of
        [] \<Rightarrow> Some ([], s)
      | c # r \<Rightarrow> if c = CHR ''e'' \<or> c = CHR ''E'' then
                   (case scan_sign ''+-'' r of
                      (sg, d) \<Rightarrow> if takeWhile is_digit d = [] then None
                                  else Some (c # sg @ takeWhile is_digit d, dropWhile is_digit d))
                 else Some ([], s))"

definition scan_num :: "string \<Rightarrow> (string \<times> string) option" where
  "scan_num s =
     (case scan_sign ''-'' s of
        (sg, s0) \<Rightarrow>
          (case scan_int s0 of
             None \<Rightarrow> None
           | Some (i, s1) \<Rightarrow>
               (case scan_frac s1 of
                  None \<Rightarrow> None
                | Some (f, s2) \<Rightarrow>
                    (case scan_exp s2 of
                       None \<Rightarrow> None
                     | Some (e, s3) \<Rightarrow> Some (sg @ i @ f @ e, s3)))))"

lemma scan_str_shorter: "scan_str s = Some (b, r) \<Longrightarrow> length r < length s"
proof (induction s arbitrary: b rule: scan_str.induct)
  case (2 c s)
  show ?case
  proof (cases "c = bslash")
    case True
    then obtain e s' where s: "s = e # s'" using "2.prems" by (cases s) auto
    show ?thesis
    proof (cases "simple_escape e")
      case True
      with \<open>c = bslash\<close> s "2.prems" obtain b' where "scan_str s' = Some (b', r)" by auto
      from "2.IH"(1) [OF _ \<open>c = bslash\<close> s True this] \<open>c = bslash\<close> s show ?thesis by simp
    next
      case False
      with \<open>c = bslash\<close> s "2.prems" obtain b' where u: "e = CHR ''u'' \<and> 4 \<le> length s' \<and> list_all is_hex (take 4 s')"
        "scan_str (drop 4 s') = Some (b', r)" by (auto split: if_splits)
      from "2.IH"(2) [OF _ \<open>c = bslash\<close> s False this] \<open>c = bslash\<close> s show ?thesis by simp
    qed
  next
    case False
    then show ?thesis using 2 by (force split: if_splits)
  qed
qed simp

lemma scan_int_shorter: "scan_int s = Some (b, r) \<Longrightarrow> length r < length s"
  using length_dropWhile_le [of is_digit]
  by (auto simp: scan_int_def less_Suc_eq_le split: list.splits if_splits)

lemma scan_frac_shorter: "scan_frac s = Some (b, r) \<Longrightarrow> length r \<le> length s"
  using length_dropWhile_le [of is_digit]
  by (auto simp: scan_frac_def le_Suc_eq split: list.splits if_splits)

lemma scan_sign_shorter: "scan_sign cs s = (b, r) \<Longrightarrow> length r \<le> length s"
  by (auto simp: scan_sign_def split: list.splits if_splits)

lemma scan_exp_shorter: "scan_exp s = Some (b, r) \<Longrightarrow> length r \<le> length s"
  using length_dropWhile_le [of is_digit]
  by (auto simp: scan_exp_def scan_sign_def le_Suc_eq split: list.splits if_splits)

lemma scan_num_shorter: "scan_num s = Some (b, r) \<Longrightarrow> length r < length s"
  by (auto simp: scan_num_def split: prod.splits option.splits
      dest!: scan_int_shorter scan_frac_shorter scan_sign_shorter scan_exp_shorter)

function lex_json :: "string \<Rightarrow> token list option" where
  "lex_json [] = Some []"
| "lex_json (c # s) =
     (if json_space c then lex_json s
      else if c \<in> set ''{}[]:,'' then map_option (Cons (Punct c)) (lex_json s)
      else if c = dquote then
        (case scan_str s of
           None \<Rightarrow> None
         | Some (raw, r) \<Rightarrow> map_option (Cons (Scalar (JtStr raw))) (lex_json r))
      else if take 4 (c # s) = ''null'' then map_option (Cons (Scalar JtNull)) (lex_json (drop 3 s))
      else if take 4 (c # s) = ''true'' then map_option (Cons (Scalar (JtBool True))) (lex_json (drop 3 s))
      else if take 5 (c # s) = ''false'' then map_option (Cons (Scalar (JtBool False))) (lex_json (drop 4 s))
      else
        (case scan_num (c # s) of
           None \<Rightarrow> None
         | Some (lit, r) \<Rightarrow> map_option (Cons (Scalar (JtNum lit))) (lex_json r)))"
  by pat_completeness auto
termination
proof (relation "measure length", goal_cases)
  case (4 c s _ raw r)
  then show ?case using scan_str_shorter [of s raw r] by simp
next
  case (8 c s _ lit r)
  then show ?case using scan_num_shorter [of "c # s" lit r] by simp
qed auto

declare lex_json.simps(2) [simp del]

section \<open>The pushdown machine\<close>

text \<open>
  What encloses the current position: an array with the elements before it, or an object with the
  members before it and the key of the current one. The decoder refuses more than 10000 levels.
\<close>

datatype frame = InArr "jtext list" | InObj "(string \<times> jtext) list" string

datatype mode =
    WantValue
  | WantFirst
  | WantKey "(string \<times> jtext) list"
  | WantFirstKey
  | WantColon "(string \<times> jtext) list" string
  | Have jtext

definition maxNestingDepth :: nat where
  "maxNestingDepth = 10000"

fun begin_value :: "frame list \<Rightarrow> token \<Rightarrow> (frame list \<times> mode) option" where
  "begin_value fs (Scalar v) = Some (fs, Have v)"
| "begin_value fs (Punct c) =
     (if c = CHR ''['' \<and> length fs < maxNestingDepth then Some (fs, WantFirst)
      else if c = CHR ''{'' \<and> length fs < maxNestingDepth then Some (fs, WantFirstKey)
      else None)"

fun want_key :: "frame list \<Rightarrow> (string \<times> jtext) list \<Rightarrow> token \<Rightarrow> (frame list \<times> mode) option" where
  "want_key fs kvs (Scalar (JtStr k)) = Some (fs, WantColon kvs k)"
| "want_key fs kvs _ = None"

fun json_step :: "frame list \<times> mode \<Rightarrow> token \<Rightarrow> (frame list \<times> mode) option" where
  "json_step (fs, WantValue) t = begin_value fs t"
| "json_step (fs, WantFirst) t =
     (if t = Punct (CHR '']'') then Some (fs, Have (JtArr [])) else begin_value (InArr [] # fs) t)"
| "json_step (fs, WantFirstKey) t =
     (if t = Punct (CHR ''}'') then Some (fs, Have (JtObj [])) else want_key fs [] t)"
| "json_step (fs, WantKey kvs) t = want_key fs kvs t"
| "json_step (fs, WantColon kvs k) t = (if t = Punct (CHR '':'') then Some (InObj kvs k # fs, WantValue) else None)"
| "json_step ([], Have v) t = None"
| "json_step (InArr vs # fs, Have v) t =
     (if t = Punct (CHR '','') then Some (InArr (vs @ [v]) # fs, WantValue)
      else if t = Punct (CHR '']'') then Some (fs, Have (JtArr (vs @ [v]))) else None)"
| "json_step (InObj kvs k # fs, Have v) t =
     (if t = Punct (CHR '','') then Some (fs, WantKey (kvs @ [(k, v)]))
      else if t = Punct (CHR ''}'') then Some (fs, Have (JtObj (kvs @ [(k, v)]))) else None)"

fun json_run :: "frame list \<times> mode \<Rightarrow> token list \<Rightarrow> (frame list \<times> mode) option" where
  "json_run st [] = Some st"
| "json_run st (t # ts) = (case json_step st t of None \<Rightarrow> None | Some st' \<Rightarrow> json_run st' ts)"

definition json_parse :: "string \<Rightarrow> jtext option" where
  "json_parse s =
     (case lex_json s of
        None \<Rightarrow> None
      | Some ts \<Rightarrow> (case json_run ([], WantValue) ts of Some ([], Have v) \<Rightarrow> Some v | _ \<Rightarrow> None))"

section \<open>The compact form\<close>

fun commas :: "'a list \<Rightarrow> 'a list list \<Rightarrow> 'a list" where
  "commas sep [] = []"
| "commas sep [w] = w"
| "commas sep (w # v # ws) = w @ sep @ commas sep (v # ws)"

fun json_toks :: "jtext \<Rightarrow> token list" where
  "json_toks (JtArr vs) = Punct (CHR ''['') # commas [Punct (CHR '','')] (map json_toks vs) @ [Punct (CHR '']'')]"
| "json_toks (JtObj kvs) =
     Punct (CHR ''{'')
     # commas [Punct (CHR '','')] (map (\<lambda>(k, v). Scalar (JtStr k) # Punct (CHR '':'') # json_toks v) kvs)
     @ [Punct (CHR ''}'')]"
| "json_toks v = [Scalar v]"

fun json_print :: "jtext \<Rightarrow> string" where
  "json_print JtNull = ''null''"
| "json_print (JtBool b) = (if b then ''true'' else ''false'')"
| "json_print (JtNum lit) = lit"
| "json_print (JtStr raw) = dquote # raw @ [dquote]"
| "json_print (JtArr vs) = CHR ''['' # commas '','' (map json_print vs) @ '']''"
| "json_print (JtObj kvs) =
     CHR ''{'' # commas '','' (map (\<lambda>(k, v). dquote # k @ [dquote, CHR '':''] @ json_print v) kvs) @ ''}''"

text \<open>Literals that the lexer reads as one token, and the nesting of a tree.\<close>

definition str_literal :: "string \<Rightarrow> bool" where
  "str_literal raw \<longleftrightarrow> (\<forall>r. scan_str (raw @ dquote # r) = Some (raw, r))"

definition num_literal :: "string \<Rightarrow> bool" where
  "num_literal lit \<longleftrightarrow> lit \<noteq> [] \<and> (\<forall>c \<in> set (take 1 lit). is_digit c \<or> c = CHR ''-'') \<and>
     (\<forall>r. (\<forall>c \<in> set (take 1 r). c \<in> set ''}],'') \<longrightarrow> scan_num (lit @ r) = Some (lit, r))"

fun json_wf :: "jtext \<Rightarrow> bool" where
  "json_wf (JtNum lit) = num_literal lit"
| "json_wf (JtStr raw) = str_literal raw"
| "json_wf (JtArr vs) = list_all json_wf vs"
| "json_wf (JtObj kvs) = list_all (\<lambda>(k, v). str_literal k \<and> json_wf v) kvs"
| "json_wf _ = True"

fun json_depth :: "jtext \<Rightarrow> nat" where
  "json_depth (JtArr vs) = Suc (foldr (\<lambda>v n. max (json_depth v) n) vs 0)"
| "json_depth (JtObj kvs) = Suc (foldr (\<lambda>kv n. max (json_depth (snd kv)) n) kvs 0)"
| "json_depth _ = 0"

section \<open>A printed tree is read back\<close>

lemma json_run_append:
  "json_run st (ts @ us) = (case json_run st ts of None \<Rightarrow> None | Some st' \<Rightarrow> json_run st' us)"
  by (induction ts arbitrary: st) (auto split: option.splits)

lemma foldr_max_bound: "foldr (\<lambda>v n. max (f v) n) vs (0 :: nat) \<le> n \<longleftrightarrow> (\<forall>v \<in> set vs. f v \<le> n)"
  by (induction vs) auto

lemma json_run_first:
  "json_run (fs, WantFirst) (json_toks v @ us) = json_run (InArr [] # fs, WantValue) (json_toks v @ us)"
  by (cases v) simp_all

lemma json_run_elems:
  assumes "\<And>v fs. v \<in> set vs \<Longrightarrow> length fs + json_depth v \<le> maxNestingDepth \<Longrightarrow>
      json_run (fs, WantValue) (json_toks v) = Some (fs, Have v)"
    and "\<forall>v \<in> set vs. Suc (length fs) + json_depth v \<le> maxNestingDepth" and "vs \<noteq> []"
  shows "json_run (InArr acc # fs, WantValue) (commas [Punct (CHR '','')] (map json_toks vs) @ [Punct (CHR '']'')]) =
    Some (fs, Have (JtArr (acc @ vs)))"
  using assms
proof (induction vs arbitrary: acc rule: induct_list012)
  case (2 v)
  then show ?case by (simp add: json_run_append)
next
  case (3 v w vs)
  have "json_run (InArr acc # fs, WantValue) (json_toks v) = Some (InArr acc # fs, Have v)"
    using "3.prems"(1) [of v "InArr acc # fs"] "3.prems"(2) by simp
  moreover have "json_run (InArr (acc @ [v]) # fs, WantValue)
      (commas [Punct (CHR '','')] (map json_toks (w # vs)) @ [Punct (CHR '']'')]) = Some (fs, Have (JtArr ((acc @ [v]) @ w # vs)))"
    by (rule "3.IH"(2)) (use "3.prems" in auto)
  ultimately show ?case by (simp add: json_run_append)
qed simp

lemma json_run_members:
  assumes "\<And>k v fs. (k, v) \<in> set kvs \<Longrightarrow> length fs + json_depth v \<le> maxNestingDepth \<Longrightarrow>
      json_run (fs, WantValue) (json_toks v) = Some (fs, Have v)"
    and "\<forall>kv \<in> set kvs. Suc (length fs) + json_depth (snd kv) \<le> maxNestingDepth" and "kvs \<noteq> []"
  shows "json_run (fs, WantKey acc)
    (commas [Punct (CHR '','')] (map (\<lambda>(k, v). Scalar (JtStr k) # Punct (CHR '':'') # json_toks v) kvs) @ [Punct (CHR ''}'')]) =
    Some (fs, Have (JtObj (acc @ kvs)))"
  using assms
proof (induction kvs arbitrary: acc rule: induct_list012)
  case (2 kv)
  obtain k v where kv: "kv = (k, v)" by (cases kv)
  have "json_run (InObj acc k # fs, WantValue) (json_toks v) = Some (InObj acc k # fs, Have v)"
    using 2 kv by simp
  then show ?case by (simp add: kv json_run_append)
next
  case (3 kv kv' kvs)
  obtain k v where kv: "kv = (k, v)" by (cases kv)
  have "json_run (InObj acc k # fs, WantValue) (json_toks v) = Some (InObj acc k # fs, Have v)"
    using "3.prems"(1) [of k v "InObj acc k # fs"] "3.prems"(2) kv by simp
  moreover have "json_run (fs, WantKey (acc @ [kv]))
      (commas [Punct (CHR '','')] (map (\<lambda>(k, v). Scalar (JtStr k) # Punct (CHR '':'') # json_toks v) (kv' # kvs)) @
        [Punct (CHR ''}'')]) = Some (fs, Have (JtObj ((acc @ [kv]) @ kv' # kvs)))"
    by (rule "3.IH"(2)) (use "3.prems" in auto)
  ultimately show ?case by (simp add: kv json_run_append)
qed simp

lemma json_run_value:
  "length fs + json_depth v \<le> maxNestingDepth \<Longrightarrow> json_run (fs, WantValue) (json_toks v) = Some (fs, Have v)"
proof (induction v arbitrary: fs rule: json_toks.induct)
  case (1 vs)
  then have d: "length fs < maxNestingDepth" "\<forall>v \<in> set vs. Suc (length fs) + json_depth v \<le> maxNestingDepth"
    using foldr_max_bound [of json_depth vs "maxNestingDepth - Suc (length fs)"] by fastforce+
  show ?case
  proof (cases vs)
    case (Cons w ws)
    have "commas [Punct (CHR '','')] (map json_toks vs) @ [Punct (CHR '']'')] =
        json_toks w @ (if ws = [] then [] else Punct (CHR '','') # commas [Punct (CHR '','')] (map json_toks ws)) @ [Punct (CHR '']'')]"
      using Cons by (cases ws) simp_all
    with json_run_elems [of vs fs "[]"] 1 d Cons show ?thesis by (simp add: json_run_first)
  qed (use d in simp)
next
  case (2 kvs)
  then have d: "length fs < maxNestingDepth" "\<forall>kv \<in> set kvs. Suc (length fs) + json_depth (snd kv) \<le> maxNestingDepth"
    using foldr_max_bound [of "\<lambda>kv. json_depth (snd kv)" kvs "maxNestingDepth - Suc (length fs)"] by fastforce+
  show ?case
  proof (cases kvs)
    case (Cons kv kvs')
    obtain k v where "kv = (k, v)" by (cases kv)
    then have "json_run (fs, WantFirstKey)
        (commas [Punct (CHR '','')] (map (\<lambda>(k, v). Scalar (JtStr k) # Punct (CHR '':'') # json_toks v) kvs) @ [Punct (CHR ''}'')]) =
      json_run (fs, WantKey [])
        (commas [Punct (CHR '','')] (map (\<lambda>(k, v). Scalar (JtStr k) # Punct (CHR '':'') # json_toks v) kvs) @ [Punct (CHR ''}'')])"
      using Cons by (cases kvs') simp_all
    with json_run_members [of kvs fs "[]"] 2 d Cons show ?thesis by simp
  qed (use d in simp)
qed simp_all

text \<open>The lexer on printed text: \<open>json_end r\<close> says that \<open>r\<close> cannot continue a number.\<close>

definition json_end :: "string \<Rightarrow> bool" where
  "json_end r \<longleftrightarrow> (\<forall>c \<in> set (take 1 r). c \<in> set ''}],'')"

lemma lex_punct: "c \<in> set ''{}[]:,'' \<Longrightarrow> lex_json (c # s) = map_option (Cons (Punct c)) (lex_json s)"
  by (auto simp: lex_json.simps(2) json_space_def)

lemma lex_str: "str_literal raw \<Longrightarrow> lex_json (dquote # raw @ dquote # s) = map_option (Cons (Scalar (JtStr raw))) (lex_json s)"
  by (simp add: lex_json.simps(2) json_space_def str_literal_def)

lemma lex_words:
  "lex_json (''null'' @ s) = map_option (Cons (Scalar JtNull)) (lex_json s)"
  "lex_json (''true'' @ s) = map_option (Cons (Scalar (JtBool True))) (lex_json s)"
  "lex_json (''false'' @ s) = map_option (Cons (Scalar (JtBool False))) (lex_json s)"
  by (simp_all add: lex_json.simps(2) json_space_def)

lemma lex_num:
  assumes "num_literal lit" and "json_end s"
  shows "lex_json (lit @ s) = map_option (Cons (Scalar (JtNum lit))) (lex_json s)"
proof -
  obtain c l where l: "lit = c # l" and c: "is_digit c \<or> c = CHR ''-''" using assms(1) by (cases lit) (auto simp: num_literal_def)
  have n: "\<not> json_space c" "c \<notin> set ''{}[]:,''" "c \<noteq> dquote" "c \<noteq> CHR ''n''" "c \<noteq> CHR ''t''" "c \<noteq> CHR ''f''"
    using c by (auto simp: is_digit_def digit_val_def json_space_def)
  have "scan_num (c # l @ s) = Some (lit, s)" using assms l by (simp add: num_literal_def json_end_def)
  with n l show ?thesis by (simp add: lex_json.simps(2))
qed

lemma json_end_simps [simp]: "json_end []" "json_end (CHR '','' # s)" "json_end (CHR '']'' # s)" "json_end (CHR ''}'' # s)"
  by (simp_all add: json_end_def)

lemma lex_commas:
  assumes "\<And>x s. x \<in> set xs \<Longrightarrow> json_end s \<Longrightarrow> lex_json (p x @ s) = map_option ((@) (t x)) (lex_json s)" and "json_end s"
  shows "lex_json (commas '','' (map p xs) @ s) = map_option ((@) (commas [Punct (CHR '','')] (map t xs))) (lex_json s)"
  using assms
proof (induction xs rule: induct_list012)
  case 1
  then show ?case by (simp add: option.map_ident_strong)
next
  case (3 x y xs)
  have "lex_json (commas '','' (map p (y # xs)) @ s) =
      map_option ((@) (commas [Punct (CHR '','')] (map t (y # xs)))) (lex_json s)"
    by (rule "3.IH"(2)) (use "3.prems" in auto)
  with "3.prems"(1) [of x] show ?case by (simp add: lex_punct option.map_comp comp_def)
qed simp

lemma append_singleton: "(@) [x] = (#) x"
  by (simp add: fun_eq_iff)

lemma lex_print: "json_wf v \<Longrightarrow> json_end s \<Longrightarrow> lex_json (json_print v @ s) = map_option ((@) (json_toks v)) (lex_json s)"
proof (induction v arbitrary: s rule: json_print.induct)
  case (5 vs)
  have "lex_json (commas '','' (map json_print vs) @ CHR '']'' # s) =
      map_option ((@) (commas [Punct (CHR '','')] (map json_toks vs))) (lex_json (CHR '']'' # s))"
    by (rule lex_commas) (use 5 in \<open>auto simp: list_all_iff\<close>)
  then show ?case by (simp add: lex_punct option.map_comp comp_def)
next
  case (6 kvs)
  have "lex_json (commas '','' (map (\<lambda>(k, v). dquote # k @ [dquote, CHR '':''] @ json_print v) kvs) @ CHR ''}'' # s) =
      map_option ((@) (commas [Punct (CHR '','')] (map (\<lambda>(k, v). Scalar (JtStr k) # Punct (CHR '':'') # json_toks v) kvs)))
        (lex_json (CHR ''}'' # s))"
  proof (rule lex_commas)
    fix kv r assume kv: "kv \<in> set kvs" and r: "json_end r"
    obtain k v where k: "kv = (k, v)" by (cases kv)
    have "str_literal k" "json_wf v" using 6(2) kv k by (auto simp: list_all_iff)
    with 6(1) [OF kv k [symmetric]] r k
    show "lex_json ((case kv of (k, v) \<Rightarrow> dquote # k @ [dquote, CHR '':''] @ json_print v) @ r) =
        map_option ((@) (case kv of (k, v) \<Rightarrow> Scalar (JtStr k) # Punct (CHR '':'') # json_toks v)) (lex_json r)"
      by (cases "lex_json r") (simp_all add: lex_str lex_punct)
  qed simp
  then show ?case by (simp add: lex_punct option.map_comp comp_def)
qed (simp_all add: lex_words [simplified] lex_num lex_str append_singleton)

lemma json_parse_print:
  assumes "json_wf v" and "json_depth v \<le> maxNestingDepth"
  shows "json_parse (json_print v) = Some v"
  using lex_print [OF assms(1), of "[]"] json_run_value [of "[]" v] assms(2) by (simp add: json_parse_def)

section \<open>Numbers\<close>

lemma nat_str_is_digit: "c \<in> set (nat_str n) \<Longrightarrow> is_digit c"
  using nat_str_ends by (auto simp: is_digit_def)

lemma nat_str_not_Nil [simp]: "nat_str n \<noteq> []"
  by (simp add: nat_str.simps [of n])

lemma nat_str_hd_0: "hd (nat_str n) = CHR ''0'' \<Longrightarrow> n = 0"
proof (induction n rule: nat_str.induct)
  case (1 n)
  have "\<forall>d \<in> set [0..<10]. digit_char d = CHR ''0'' \<longrightarrow> d = 0" by code_simp
  with 1 show ?case by (cases "n < 10") (auto simp: nat_str.simps [of n])
qed

lemma json_end_not_digit:
  assumes "json_end (c # r)"
  shows "\<not> is_digit c" and "c \<noteq> CHR ''.''" and "c \<noteq> CHR ''e''" and "c \<noteq> CHR ''E''"
  using assms by (auto simp: json_end_def is_digit_def digit_val_def)

lemma scan_int_nat_str: "json_end r \<Longrightarrow> scan_int (nat_str n @ r) = Some (nat_str n, r)"
proof (cases "nat_str n")
  case (Cons c ds)
  assume r: "json_end r"
  have d: "\<forall>x \<in> set (c # ds). is_digit x" using nat_str_is_digit Cons by metis
  have r': "takeWhile is_digit r = []" "dropWhile is_digit r = r"
    using r json_end_not_digit by (cases r; auto)+
  show ?thesis
  proof (cases "c = CHR ''0''")
    case True
    then have "n = 0" using nat_str_hd_0 [of n] Cons by simp
    then show ?thesis by (simp add: nat_str.simps digit_char_def scan_int_def)
  next
    case False
    then show ?thesis using Cons d r' by (simp add: scan_int_def takeWhile_append dropWhile_append)
  qed
qed simp

lemma num_literal_itoa: "num_literal (itoa i)"
proof -
  have n: "scan_num (sg @ nat_str k @ r) = Some (sg @ nat_str k, r)" if "sg \<in> {[], ''-''}" "json_end r" for sg k r
  proof -
    obtain c ds where c: "nat_str k = c # ds" by (cases "nat_str k") auto
    then have "c \<noteq> CHR ''-''" using nat_str_is_digit [of c k] by (auto simp: is_digit_def digit_val_def)
    then have "scan_sign ''-'' (sg @ nat_str k @ r) = (sg, nat_str k @ r)" using that(1) c by (auto simp: scan_sign_def)
    moreover have "scan_frac r = Some ([], r)" "scan_exp r = Some ([], r)"
      using that(2) json_end_not_digit [of "hd r" "tl r"] by (cases r; simp add: scan_frac_def scan_exp_def)+
    ultimately show ?thesis using scan_int_nat_str [OF that(2)] by (simp add: scan_num_def)
  qed
  have d: "\<forall>c \<in> set (take 1 (nat_str k)). is_digit c" for k by (metis in_set_takeD nat_str_is_digit)
  show ?thesis unfolding num_literal_def json_end_def [symmetric]
  proof (intro conjI allI impI)
    show "\<forall>c \<in> set (take 1 (itoa i)). is_digit c \<or> c = CHR ''-''" using d by (simp add: itoa_def)
    show "scan_num (itoa i @ r) = Some (itoa i, r)" if "json_end r" for r
      using n [of "[]" r] n [of "''-''" r] that by (simp add: itoa_def)
  qed (simp add: itoa_def)
qed

end
