(* ===== verification/Json_String.thy ===== *)
theory Json_String
  imports Json_Text
begin

text \<open>
  String literals of \<^verbatim>\<open>encoding/json\<close>: \<open>quote\<close> is what the encoder writes between the quotes (with HTML escaping, the
  default of \<^verbatim>\<open>json.Marshal\<close>), \<open>unquote\<close> what the decoder makes of a literal. Go strings are byte strings, both
  functions replace bytes that are not UTF-8 by U+FFFD.

  Lemmas: \<open>quote\<close> always yields a literal, and \<open>unquote\<close> undoes it on valid UTF-8.
\<close>

section \<open>UTF-8\<close>

abbreviation nat_of :: "char \<Rightarrow> nat" where "nat_of c \<equiv> of_char c"

definition cont :: "nat \<Rightarrow> bool" where
  "cont b \<longleftrightarrow> 0x80 \<le> b \<and> b \<le> 0xBF"

text \<open>The well-formed encodings of one rune: no overlong form, no surrogate, nothing above U+10FFFF.\<close>

fun rune_ok :: "nat list \<Rightarrow> bool" where
  "rune_ok [a] = (a < 0x80)"
| "rune_ok [a, b] = (0xC2 \<le> a \<and> a \<le> 0xDF \<and> cont b)"
| "rune_ok [a, b, c] =
     (0xE0 \<le> a \<and> a \<le> 0xEF \<and> (a = 0xE0 \<longrightarrow> 0xA0 \<le> b) \<and> (a = 0xED \<longrightarrow> b \<le> 0x9F) \<and> cont b \<and> cont c)"
| "rune_ok [a, b, c, d] =
     (0xF0 \<le> a \<and> a \<le> 0xF4 \<and> (a = 0xF0 \<longrightarrow> 0x90 \<le> b) \<and> (a = 0xF4 \<longrightarrow> b \<le> 0x8F) \<and> cont b \<and> cont c \<and> cont d)"
| "rune_ok _ = False"

abbreviation rune_str :: "string \<Rightarrow> bool" where "rune_str r \<equiv> rune_ok (map nat_of r)"

text \<open>The number of bytes of the rune at the head of a string, 0 when there is none (\<^verbatim>\<open>utf8.DecodeRune\<close>); the bytes of a rune.\<close>

definition rune_len :: "string \<Rightarrow> nat" where
  "rune_len s =
     (if rune_str (take 1 s) then 1 else if rune_str (take 2 s) then 2
      else if rune_str (take 3 s) then 3 else if rune_str (take 4 s) then 4 else 0)"

definition EncodeRune :: "nat \<Rightarrow> string" where
  "EncodeRune r =
     map char_of
       (if r < 0x80 then [r]
        else if r < 0x800 then [0xC0 + r div 64, 0x80 + r mod 64]
        else if r < 0x10000 then [0xE0 + r div 4096, 0x80 + r div 64 mod 64, 0x80 + r mod 64]
        else [0xF0 + r div 262144, 0x80 + r div 4096 mod 64, 0x80 + r div 64 mod 64, 0x80 + r mod 64])"

definition RuneError :: nat where
  "RuneError = 0xFFFD"

section \<open>The encoder\<close>

definition json_u :: "nat \<Rightarrow> string" where
  "json_u n = [bslash, CHR ''u'', hextable ! (n div 4096), hextable ! (n div 256 mod 16), hextable ! (n div 16 mod 16), hextable ! (n mod 16)]"

definition quote_char :: "char \<Rightarrow> string" where
  "quote_char c =
     (if c = bslash \<or> c = dquote then [bslash, c]
      else if c = CHR 0x08 then [bslash, CHR ''b'']
      else if c = CHR 0x0C then [bslash, CHR ''f'']
      else if c = CHR 0x0A then [bslash, CHR ''n'']
      else if c = CHR 0x0D then [bslash, CHR ''r'']
      else if c = CHR 0x09 then [bslash, CHR ''t'']
      else if nat_of c < 32 \<or> c \<in> set ''<>&'' then json_u (nat_of c)
      else [c])"

definition line_sep :: "string \<Rightarrow> nat option" where
  "line_sep r = (if r = EncodeRune 0x2028 then Some 0x2028 else if r = EncodeRune 0x2029 then Some 0x2029 else None)"

function quote :: "string \<Rightarrow> string" where
  "quote [] = []"
| "quote (c # s) =
     (if nat_of c < 0x80 then quote_char c @ quote s
      else if rune_len (c # s) = 0 then json_u RuneError @ quote s
      else let r = take (rune_len (c # s)) (c # s)
           in (case line_sep r of Some n \<Rightarrow> json_u n | None \<Rightarrow> r) @ quote (drop (rune_len (c # s)) (c # s)))"
  by pat_completeness auto
termination by (relation "measure length") auto

section \<open>The decoder\<close>

definition getu4 :: "string \<Rightarrow> nat" where
  "getu4 s = foldl (\<lambda>n c. 16 * n + (case unhex c of None \<Rightarrow> 0 | Some b \<Rightarrow> unat b)) 0 (take 4 s)"

definition unescape :: "char \<Rightarrow> char" where
  "unescape e =
     (if e = CHR ''b'' then CHR 0x08 else if e = CHR ''f'' then CHR 0x0C else if e = CHR ''n'' then CHR 0x0A
      else if e = CHR ''r'' then CHR 0x0D else if e = CHR ''t'' then CHR 0x09 else e)"

text \<open>The low half of a surrogate pair that follows as an escape.\<close>

definition low_surrogate :: "string \<Rightarrow> nat option" where
  "low_surrogate s =
     (if take 2 s = [bslash, CHR ''u''] \<and> 0xDC00 \<le> getu4 (drop 2 s) \<and> getu4 (drop 2 s) < 0xE000
      then Some (getu4 (drop 2 s)) else None)"

function unquote :: "string \<Rightarrow> string" where
  "unquote [] = []"
| "unquote (c # s) =
     (if c = bslash then
        (case s of
           [] \<Rightarrow> []
         | e # s' \<Rightarrow>
             if e = CHR ''u'' then
               (let n = getu4 s'; r = drop 4 s'
                in if n < 0xD800 \<or> 0xE000 \<le> n then EncodeRune n @ unquote r
                   else case low_surrogate r of
                          Some l \<Rightarrow>
                            if n < 0xDC00 then EncodeRune (0x10000 + (n - 0xD800) * 1024 + (l - 0xDC00)) @ unquote (drop 6 r)
                            else EncodeRune RuneError @ unquote r
                        | None \<Rightarrow> EncodeRune RuneError @ unquote r)
             else unescape e # unquote s')
      else if nat_of c < 0x80 then c # unquote s
      else if rune_len (c # s) = 0 then EncodeRune RuneError @ unquote s
      else take (rune_len (c # s)) (c # s) @ unquote (drop (rune_len (c # s)) (c # s)))"
  by pat_completeness auto
termination by (relation "measure length") auto

declare quote.simps(2) [simp del] unquote.simps(2) [simp del]

function utf8_valid :: "string \<Rightarrow> bool" where
  "utf8_valid [] = True"
| "utf8_valid (c # s) = (if rune_len (c # s) = 0 then False else utf8_valid (drop (rune_len (c # s)) (c # s)))"
  by pat_completeness auto
termination by (relation "measure length") auto

declare utf8_valid.simps(2) [simp del]

section \<open>Lemmas on runes\<close>

lemma rune_ok_length: "rune_ok bs \<Longrightarrow> 1 \<le> length bs \<and> length bs \<le> 4"
  by (induction bs rule: rune_ok.induct) auto

lemma rune_ok_high: "rune_ok bs \<Longrightarrow> 128 \<le> hd bs \<Longrightarrow> b \<in> set bs \<Longrightarrow> 128 \<le> b"
  by (induction bs rule: rune_ok.induct) (auto simp: cont_def)

lemma rune_len_rune: "rune_str r \<Longrightarrow> rune_len (r @ s) = length r"
proof -
  assume r: "rune_str r"
  then consider c1 where "r = [c1]" | c1 c2 where "r = [c1, c2]" | c1 c2 c3 where "r = [c1, c2, c3]"
    | c1 c2 c3 c4 where "r = [c1, c2, c3, c4]"
    by (cases "map nat_of r" rule: rune_ok.cases) auto
  then show ?thesis using r by cases (auto simp: rune_len_def)
qed

lemma rune_len_split:
  assumes "rune_len s \<noteq> 0"
  shows "rune_str (take (rune_len s) s) \<and> rune_len s \<le> length s"
proof -
  have "rune_str (take (rune_len s) s)" using assms by (auto simp: rune_len_def split: if_splits)
  moreover have "rune_len s \<le> length s"
  proof (rule ccontr)
    assume "\<not> rune_len s \<le> length s"
    then have "take (rune_len s) s = s" by simp
    then show False using calculation rune_len_rune [of s "[]"] \<open>\<not> rune_len s \<le> length s\<close> by simp
  qed
  ultimately show ?thesis ..
qed

lemma rune_cases:
  assumes "rune_len s \<noteq> 0"
  obtains r t where "s = r @ t" and "rune_str r" and "length r = rune_len s"
  using rune_len_split [OF assms] by (metis append_take_drop_id length_take min.absorb2)

section \<open>Quoting yields one literal\<close>

text \<open>Text that the lexer copies into the literal whatever follows.\<close>

definition literal_part :: "string \<Rightarrow> bool" where
  "literal_part p \<longleftrightarrow> (\<forall>s. scan_str (p @ s) = (case scan_str s of None \<Rightarrow> None | Some (b, r) \<Rightarrow> Some (p @ b, r)))"

lemma literal_part_Nil [simp]: "literal_part []"
  by (simp add: literal_part_def split: option.split)

lemma literal_part_append: "literal_part p \<Longrightarrow> literal_part q \<Longrightarrow> literal_part (p @ q)"
  by (simp add: literal_part_def split: option.split)

lemma literal_part_literal: "literal_part p \<Longrightarrow> str_literal p"
  by (simp add: literal_part_def str_literal_def)

lemma literal_part_plain: "c \<noteq> dquote \<Longrightarrow> c \<noteq> bslash \<Longrightarrow> 32 \<le> nat_of c \<Longrightarrow> literal_part [c]"
  by (simp add: literal_part_def split: option.split)

lemma literal_part_escape: "simple_escape e \<Longrightarrow> literal_part [bslash, e]"
  by (simp add: literal_part_def split: option.split)

lemma is_hex_hextable: "n < 16 \<Longrightarrow> is_hex (hextable ! n)"
  by (simp add: is_hex_def unhex_hextable)

lemma literal_part_u: "n < 65536 \<Longrightarrow> literal_part (json_u n)"
  by (simp add: literal_part_def json_u_def is_hex_hextable simple_escape_def less_mult_imp_div_less split: option.split)

lemma literal_part_high: "\<forall>c \<in> set r. 128 \<le> nat_of c \<Longrightarrow> literal_part r"
proof (induction r)
  case (Cons c r)
  then have "literal_part [c]" by (intro literal_part_plain) auto
  then show ?case using Cons literal_part_append [of "[c]" r] by simp
qed simp

lemma literal_part_quote_char: "nat_of c < 128 \<Longrightarrow> literal_part (quote_char c)"
  by (simp add: quote_char_def simple_escape_def literal_part_escape literal_part_u literal_part_plain)

lemma rune_str_high: "rune_str (c # r) \<Longrightarrow> 128 \<le> nat_of c \<Longrightarrow> \<forall>x \<in> set (c # r). 128 \<le> nat_of x"
  using rune_ok_high [of "map nat_of (c # r)"] by auto

lemma literal_part_quote: "literal_part (quote s)"
proof (induction s rule: quote.induct)
  case (2 c s)
  consider "nat_of c < 128" | "128 \<le> nat_of c" "rune_len (c # s) = 0" | "128 \<le> nat_of c" "rune_len (c # s) \<noteq> 0" by linarith
  then show ?case
  proof cases
    case 3
    let ?r = "take (rune_len (c # s)) (c # s)"
    obtain k where k: "rune_len (c # s) = Suc k" using 3(2) not0_implies_Suc by blast
    have "literal_part ?r"
      using rune_len_split [OF 3(2)] rune_str_high [of c "take k s"] 3(1) k by (intro literal_part_high) simp
    then have "literal_part (case line_sep ?r of Some n \<Rightarrow> json_u n | None \<Rightarrow> ?r)"
      by (auto simp: line_sep_def intro: literal_part_u)
    moreover have "literal_part (quote (drop (rune_len (c # s)) (c # s)))" using "2.IH"(3) 3 by simp
    ultimately show ?thesis using 3 by (simp add: quote.simps(2) [of c s] Let_def literal_part_append del: take_Suc_Cons drop_Suc_Cons)
  qed (use 2 in \<open>simp_all add: quote.simps(2) literal_part_append literal_part_quote_char literal_part_u RuneError_def\<close>)
qed simp

lemma str_literal_quote [simp]: "str_literal (quote s)"
  by (rule literal_part_literal [OF literal_part_quote])

section \<open>Unquoting undoes quoting\<close>

lemma unhex_hextable_unat: "n < 16 \<Longrightarrow> unhex (hextable ! n) = Some (of_nat n) \<and> unat (of_nat n :: byte) = n"
  by (simp add: unhex_hextable unat_of_nat)

lemma getu4_json_u:
  assumes "n < 65536"
  shows "getu4 (hextable ! (n div 4096) # hextable ! (n div 256 mod 16) # hextable ! (n div 16 mod 16) # hextable ! (n mod 16) # s) = n"
proof -
  have q: "n div 256 = n div 16 div 16" "n div 4096 = n div 16 div 16 div 16" by (simp_all flip: div_mult2_eq)
  have "16 * (n div 16 div 16 div 16) + n div 16 div 16 mod 16 = n div 16 div 16" "16 * (n div 16 div 16) + n div 16 mod 16 = n div 16"
    by (rule mult_div_mod_eq)+
  moreover have "n div 4096 < 16" using assms by (simp add: less_mult_imp_div_less)
  ultimately show ?thesis unfolding q by (simp add: getu4_def unhex_hextable_unat)
qed

lemma unquote_json_u: "n < 0xD800 \<Longrightarrow> unquote (json_u n @ s) = EncodeRune n @ unquote s"
  by (simp add: json_u_def unquote.simps(2) getu4_json_u)

lemma EncodeRune_ascii: "nat_of c < 128 \<Longrightarrow> EncodeRune (nat_of c) = [c]"
  by (simp add: EncodeRune_def)

lemma unquote_quote_char: "nat_of c < 128 \<Longrightarrow> unquote (quote_char c @ s) = c # unquote s"
  by (simp add: quote_char_def unquote_json_u EncodeRune_ascii) (simp add: unquote.simps(2) unescape_def)

lemma unquote_rune:
  assumes "rune_str r" and "128 \<le> nat_of (hd r)"
  shows "unquote (r @ s) = r @ unquote s"
proof -
  obtain c q where r: "r = c # q" using rune_ok_length [OF assms(1)] by (cases r) auto
  have "c \<noteq> bslash" using assms(2) r by auto
  with rune_len_rune [OF assms(1), of s] assms(2) r show ?thesis by (simp add: unquote.simps(2))
qed

lemma unquote_quote: "utf8_valid s \<Longrightarrow> unquote (quote s) = s"
proof (induction s rule: quote.induct)
  case (2 c s)
  then have v: "rune_len (c # s) \<noteq> 0" "utf8_valid (drop (rune_len (c # s)) (c # s))"
    by (auto simp: utf8_valid.simps(2) split: if_splits)
  show ?case
  proof (cases "nat_of c < 128")
    case True
    then have "rune_len (c # s) = 1" using rune_len_rune [of "[c]" s] by simp
    with v 2 True show ?thesis by (simp add: quote.simps(2) unquote_quote_char)
  next
    case False
    let ?n = "rune_len (c # s)"
    let ?r = "take ?n (c # s)" and ?t = "drop ?n (c # s)"
    have r: "rune_str ?r" "128 \<le> nat_of (hd ?r)" using rune_len_split [OF v(1)] False v(1) by auto
    have "unquote ((case line_sep ?r of Some n \<Rightarrow> json_u n | None \<Rightarrow> ?r) @ quote ?t) = ?r @ unquote (quote ?t)"
      using unquote_rune [OF r] by (auto simp: line_sep_def unquote_json_u)
    moreover have "unquote (quote ?t) = ?t" using "2.IH"(3) [OF False v(1) refl v(2)] .
    ultimately show ?thesis using v(1) False by (simp add: quote.simps(2) [of c s] Let_def)
  qed
qed simp

lemma utf8_valid_ascii: "\<forall>c \<in> set s. nat_of c < 128 \<Longrightarrow> utf8_valid s"
proof (induction s)
  case (Cons c s)
  then have "rune_len (c # s) = 1" using rune_len_rune [of "[c]" s] by simp
  with Cons show ?case by (simp add: utf8_valid.simps(2))
qed simp

text \<open>A string of plain characters is its own literal.\<close>

lemma quote_plain:
  assumes "\<forall>c \<in> set s. 32 \<le> nat_of c \<and> nat_of c < 128 \<and> c \<notin> set ''<>&'' \<and> c \<noteq> bslash \<and> c \<noteq> dquote"
  shows "quote s = s"
  using assms
proof (induction s)
  case (Cons c s)
  then have "32 \<le> nat_of c" "nat_of c < 128" "c \<notin> set ''<>&''" "c \<noteq> bslash" "c \<noteq> dquote" by simp_all
  moreover from this(1) have "c \<noteq> CHR 0x08" "c \<noteq> CHR 0x0C" "c \<noteq> CHR 0x0A" "c \<noteq> CHR 0x0D" "c \<noteq> CHR 0x09" by force+
  ultimately have "quote_char c = [c]" by (simp add: quote_char_def)
  with Cons \<open>nat_of c < 128\<close> show ?case by (simp add: quote.simps(2))
qed simp

end
