(* ===== verification/Base64.thy ===== *)
theory Base64
  imports Go_Prelude
begin

text \<open>
  \<^verbatim>\<open>base64.StdEncoding\<close>, the form in which \<^verbatim>\<open>encoding/json\<close> writes a \<^verbatim>\<open>[]byte\<close>: with padding, and a decoder that skips line breaks
  and does not check the unused bits of the last group. Lemmas: decoding undoes encoding, and
  the exact length of the encoding.
\<close>

definition b64_alphabet :: string where
  "b64_alphabet = ''ABCDEFGHIJKLMNOPQRSTUVWXYZabcdefghijklmnopqrstuvwxyz0123456789+/''"

definition b64_char :: "nat \<Rightarrow> char" where
  "b64_char n = b64_alphabet ! n"

definition b64_val :: "char \<Rightarrow> nat option" where
  "b64_val c =
     (let n = of_char c :: nat in
      if 65 \<le> n \<and> n \<le> 90 then Some (n - 65)
      else if 97 \<le> n \<and> n \<le> 122 then Some (n - 71)
      else if 48 \<le> n \<and> n \<le> 57 then Some (n + 4)
      else if n = 43 then Some 62 else if n = 47 then Some 63 else None)"

text \<open>Three bytes are a number of 24 bits, which is written as four digits.\<close>

definition b64_num :: "byte \<Rightarrow> byte \<Rightarrow> byte \<Rightarrow> nat" where
  "b64_num a b c = unat a * 65536 + unat b * 256 + unat c"

fun b64_encode :: "bytes \<Rightarrow> string" where
  "b64_encode (a # b # c # r) =
     (let v = b64_num a b c
      in [b64_char (v div 262144), b64_char (v div 4096 mod 64), b64_char (v div 64 mod 64), b64_char (v mod 64)] @ b64_encode r)"
| "b64_encode [a, b] =
     (let v = b64_num a b 0 in [b64_char (v div 262144), b64_char (v div 4096 mod 64), b64_char (v div 64 mod 64), CHR ''=''])"
| "b64_encode [a] =
     (let v = b64_num a 0 0 in [b64_char (v div 262144), b64_char (v div 4096 mod 64), CHR ''='', CHR ''=''])"
| "b64_encode [] = []"

definition b64_join :: "nat \<Rightarrow> nat \<Rightarrow> nat \<Rightarrow> nat \<Rightarrow> nat" where
  "b64_join p q r s = p * 262144 + q * 4096 + r * 64 + s"

definition b64_bytes :: "nat \<Rightarrow> bytes" where
  "b64_bytes v = [of_nat (v div 65536), of_nat (v div 256), of_nat v]"

fun b64_groups :: "string \<Rightarrow> bytes option" where
  "b64_groups [] = Some []"
| "b64_groups (p # q # r # s # rest) =
     (case (b64_val p, b64_val q) of
        (Some p', Some q') \<Rightarrow>
          if s = CHR ''='' \<and> rest = [] \<and> r = CHR ''='' then Some (take 1 (b64_bytes (b64_join p' q' 0 0)))
          else (case b64_val r of
                  None \<Rightarrow> None
                | Some r' \<Rightarrow>
                    if s = CHR ''='' \<and> rest = [] then Some (take 2 (b64_bytes (b64_join p' q' r' 0)))
                    else (case (b64_val s, b64_groups rest) of
                            (Some s', Some bs) \<Rightarrow> Some (b64_bytes (b64_join p' q' r' s') @ bs)
                          | _ \<Rightarrow> None))
      | _ \<Rightarrow> None)"
| "b64_groups _ = None"

definition b64_decode :: "string \<Rightarrow> bytes option" where
  "b64_decode s = b64_groups (filter (\<lambda>c. c \<noteq> CHR 0x0A \<and> c \<noteq> CHR 0x0D) s)"

section \<open>Decoding undoes encoding\<close>

lemma b64_val_char:
  assumes "n < 64"
  shows "b64_val (b64_char n) = Some n"
proof -
  have "map b64_val b64_alphabet = map Some [0..<64]"
    by (simp add: b64_alphabet_def b64_val_def upt_rec)
  then have "map b64_val b64_alphabet ! n = Some n" using assms by simp
  moreover have "length b64_alphabet = 64" by (simp add: b64_alphabet_def)
  ultimately show ?thesis using assms by (simp add: b64_char_def)
qed

lemma b64_val_eq [simp]: "b64_val (CHR ''='') = None"
  by (simp add: b64_val_def)

lemma b64_char_plain: "n < 64 \<Longrightarrow> b64_char n \<noteq> CHR ''=''"
  using b64_val_char by fastforce

lemma unat_byte: "unat (a :: byte) < 256"
  using unsigned_less [of a] by simp

lemma b64_num_bound: "b64_num a b c < 16777216"
  using unat_byte [of a] unat_byte [of b] unat_byte [of c] by (simp add: b64_num_def)

lemma b64_digits:
  assumes "v < 16777216"
  shows "v div 262144 < 64" and "b64_join (v div 262144) (v div 4096 mod 64) (v div 64 mod 64) (v mod 64) = v"
proof -
  show "v div 262144 < 64" using assms by (simp add: less_mult_imp_div_less)
  have q: "v div 4096 = v div 64 div 64" "v div 262144 = v div 64 div 64 div 64" by (simp_all flip: div_mult2_eq)
  have "v = 64 * (v div 64) + v mod 64" "v div 64 = 64 * (v div 64 div 64) + v div 64 mod 64"
    "v div 64 div 64 = 64 * (v div 64 div 64 div 64) + v div 64 div 64 mod 64" by (simp_all only: mult_div_mod_eq)
  then show "b64_join (v div 262144) (v div 4096 mod 64) (v div 64 mod 64) (v mod 64) = v"
    unfolding b64_join_def q by linarith
qed

lemma b64_bytes_num: "b64_bytes (b64_num a b c) = [a, b, c]"
proof -
  define x where "x = unat a * 256 + unat b"
  have n: "b64_num a b c = x * 256 + unat c" by (simp add: b64_num_def x_def)
  have m: "of_nat (y * 256 + unat z) = z" for y and z :: byte
  proof -
    have z: "(256 :: byte) = 0" by simp
    show ?thesis by (simp only: of_nat_add of_nat_mult of_nat_numeral z) simp
  qed
  have d: "(x * 256 + unat c) div 256 = x" using unat_byte [of c] by simp
  have "(x * 256 + unat c) div 65536 = (x * 256 + unat c) div 256 div 256" by (simp flip: div_mult2_eq)
  also have "\<dots> = unat a" using unat_byte [of b] by (simp only: d) (simp add: x_def)
  finally have "(x * 256 + unat c) div 65536 = unat a" .
  moreover have "of_nat x = b" unfolding x_def by (rule m)
  ultimately show ?thesis unfolding b64_bytes_def n d m by simp
qed

lemma b64_encode_chars: "c \<in> set (b64_encode bs) \<Longrightarrow> b64_val c \<noteq> None \<or> c = CHR ''=''"
  by (induction bs rule: b64_encode.induct)
    (auto simp: Let_def b64_val_char b64_digits(1) [OF b64_num_bound])

lemma b64_groups_encode: "b64_groups (b64_encode bs) = Some bs"
proof (induction bs rule: b64_encode.induct)
  case (1 a b c r)
  define v where "v = b64_num a b c"
  note d = b64_digits [OF b64_num_bound [of a b c], folded v_def]
  have "b64_groups (b64_encode (a # b # c # r)) = Some (b64_bytes (b64_join (v div 262144) (v div 4096 mod 64) (v div 64 mod 64) (v mod 64)) @ r)"
    using 1 d(1) by (simp add: b64_val_char b64_char_plain Let_def flip: v_def)
  also have "\<dots> = Some (a # b # c # r)" by (simp only: d(2)) (simp add: v_def b64_bytes_num)
  finally show ?case .
next
  case (2 a b)
  define v where "v = b64_num a b 0"
  note d = b64_digits [OF b64_num_bound [of a b 0], folded v_def]
  have "v = (unat a * 1024 + unat b * 4) * 64" by (simp add: v_def b64_num_def)
  then have z: "v mod 64 = 0" by simp
  have "b64_groups (b64_encode [a, b]) = Some (take 2 (b64_bytes (b64_join (v div 262144) (v div 4096 mod 64) (v div 64 mod 64) 0)))"
    using d(1) by (simp add: b64_val_char b64_char_plain Let_def flip: v_def)
  also have "\<dots> = Some [a, b]" using d(2) unfolding z by (simp add: v_def b64_bytes_num)
  finally show ?case .
next
  case (3 a)
  define v where "v = b64_num a 0 0"
  note d = b64_digits [OF b64_num_bound [of a 0 0], folded v_def]
  have v: "v = (unat a * 16) * 4096" by (simp add: v_def b64_num_def)
  then have "v = (unat a * 1024) * 64" by simp
  then have z: "v mod 64 = 0" "v div 64 mod 64 = 0" by simp_all
  have "b64_groups (b64_encode [a]) = Some (take 1 (b64_bytes (b64_join (v div 262144) (v div 4096 mod 64) 0 0)))"
    using d(1) by (simp add: b64_val_char Let_def flip: v_def)
  also have "\<dots> = Some [a]" using d(2) unfolding z by (simp add: v_def b64_bytes_num)
  finally show ?case .
qed simp

lemma b64_decode_encode [simp]: "b64_decode (b64_encode bs) = Some bs"
proof -
  have "c \<noteq> CHR 0x0A \<and> c \<noteq> CHR 0x0D" if "c \<in> set (b64_encode bs)" for c
    using b64_encode_chars [OF that] by (auto simp: b64_val_def)
  then have "filter (\<lambda>c. c \<noteq> CHR 0x0A \<and> c \<noteq> CHR 0x0D) (b64_encode bs) = b64_encode bs"
    by (simp add: filter_id_conv)
  then show ?thesis by (simp add: b64_decode_def b64_groups_encode)
qed

lemma length_b64_encode [simp]: "length (b64_encode bs) = 4 * ((length bs + 2) div 3)"
proof (induction bs rule: b64_encode.induct)
  case (1 a b c r)
  have "(5 + length r) div 3 = Suc (Suc (Suc (length r)) div 3)" by presburger
  with 1 show ?case by (simp add: Let_def)
qed (simp_all add: Let_def)

end
