(* ===== verification/Go_Time.thy ===== *)
theory Go_Time
  imports Routing_Table Go_Parse
begin

text \<open>
  The JSON form of \<^verbatim>\<open>time.Time\<close>: \<^verbatim>\<open>MarshalJSON\<close> writes RFC 3339 with up to nine fractional digits in the time's own zone,
  \<^verbatim>\<open>UnmarshalJSON\<close> reads it back. An instant is a number of nanoseconds, the zone an offset in
  minutes. Text that the strict parser \<^verbatim>\<open>parseRFC3339\<close> refuses goes to the general
  \<^verbatim>\<open>time.Parse\<close>, which is an argument here.

  Lemmas: the civil date of a day and the day of a date are inverse, and an instant in the years 0 to 9999 survives
  the round trip at any zone offset below a day.
\<close>

section \<open>Civil dates\<close>

text \<open>The position \<open>n\<close> in consecutive pieces of the given lengths: the index of the piece and the place in it.\<close>

fun locate :: "nat list \<Rightarrow> nat \<Rightarrow> nat \<times> nat" where
  "locate [] n = (0, n)"
| "locate (l # ls) n = (if n < l then (0, n) else case locate ls (n - l) of (i, r) \<Rightarrow> (Suc i, r))"

definition leap :: "nat \<Rightarrow> bool" where
  "leap y \<longleftrightarrow> y mod 4 = 0 \<and> (y mod 100 \<noteq> 0 \<or> y mod 400 = 0)"

definition month_days :: "nat \<Rightarrow> nat list" where
  "month_days y = [31, if leap y then 29 else 28, 31, 30, 31, 30, 31, 31, 30, 31, 30, 31]"

definition year_days :: "nat list" where
  "year_days = map (\<lambda>y. if leap y then 366 else 365) [0..<400]"

text \<open>Days count from January 1, 1970; the Gregorian calendar repeats after 146097 days, which are 400 years.\<close>

definition date_of_days :: "int \<Rightarrow> int \<times> nat \<times> nat" where
  "date_of_days n =
     (let n' = n + 719528;
          (yoe, doy) = locate year_days (nat (n' mod 146097));
          (mi, dd) = locate (month_days yoe) doy
      in (400 * (n' div 146097) + int yoe, Suc mi, Suc dd))"

definition days_of_date :: "nat \<Rightarrow> nat \<Rightarrow> nat \<Rightarrow> int" where
  "days_of_date y m d =
     146097 * int (y div 400) + int (sum_list (take (y mod 400) year_days))
     + int (sum_list (take (m - 1) (month_days y))) + int (d - 1) - 719528"

section \<open>Printing\<close>

primrec pad_dec :: "nat \<Rightarrow> nat \<Rightarrow> string" where
  "pad_dec 0 n = []"
| "pad_dec (Suc w) n = pad_dec w (n div 10) @ [digit_char (n mod 10)]"

definition trim_zeros :: "string \<Rightarrow> string" where
  "trim_zeros s = rev (dropWhile (\<lambda>c. c = CHR ''0'') (rev s))"

definition frac_text :: "nat \<Rightarrow> string" where
  "frac_text ns = (let f = trim_zeros (pad_dec 9 ns) in if f = [] then [] else CHR ''.'' # f)"

definition zone_text :: "int \<Rightarrow> string" where
  "zone_text off =
     (if off = 0 then ''Z''
      else (if off < 0 then CHR ''-'' else CHR ''+'')
           # pad_dec 2 (nat \<bar>off\<bar> div 60) @ CHR '':'' # pad_dec 2 (nat \<bar>off\<bar> mod 60))"

definition time_MarshalJSON :: "int \<Rightarrow> time \<Rightarrow> string result" where
  "time_MarshalJSON off t =
     (let secs = t div 10 ^ 9 + off * 60; sod = nat (secs mod 86400);
          (y, m, d) = date_of_days (secs div 86400)
      in if y < 0 \<or> 9999 < y then Inl (Errorf ''Time.MarshalJSON: year outside of range [0,9999]'')
         else if 1440 \<le> \<bar>off\<bar> then Inl (Errorf ''Time.MarshalJSON: timezone hour outside of range [0,23]'')
         else Inr (pad_dec 4 (nat y) @ CHR ''-'' # pad_dec 2 m @ CHR ''-'' # pad_dec 2 d @ CHR ''T''
                # pad_dec 2 (sod div 3600) @ CHR '':'' # pad_dec 2 (sod div 60 mod 60) @ CHR '':'' # pad_dec 2 (sod mod 60)
                @ frac_text (nat (t mod 10 ^ 9)) @ zone_text off))"

section \<open>Parsing\<close>

fun dec_val :: "nat \<Rightarrow> string \<Rightarrow> nat option" where
  "dec_val n [] = Some n"
| "dec_val n (c # cs) = (case digit_val c of None \<Rightarrow> None | Some d \<Rightarrow> dec_val (10 * n + d) cs)"

definition parse_range :: "string \<Rightarrow> nat \<Rightarrow> nat \<Rightarrow> nat option" where
  "parse_range s lo hi = (case dec_val 0 s of None \<Rightarrow> None | Some x \<Rightarrow> if lo \<le> x \<and> x \<le> hi then Some x else None)"

text \<open>The fractional second and the rest; only nine digits count.\<close>

definition parse_frac :: "string \<Rightarrow> nat \<times> string" where
  "parse_frac s =
     (case s of
        [] \<Rightarrow> (0, s)
      | c # r \<Rightarrow>
          let ds = takeWhile (\<lambda>c. digit_val c \<noteq> None) r
          in if c = CHR ''.'' \<and> ds \<noteq> []
             then ((case dec_val 0 (take 9 ds) of None \<Rightarrow> 0 | Some n \<Rightarrow> n) * 10 ^ (9 - length (take 9 ds)),
                   dropWhile (\<lambda>c. digit_val c \<noteq> None) r)
             else (0, s))"

text \<open>The offset of the zone in minutes.\<close>

definition parse_zone :: "string \<Rightarrow> int option" where
  "parse_zone s =
     (if s = ''Z'' then Some 0
      else if length s = 6 \<and> (s ! 0 = CHR ''-'' \<or> s ! 0 = CHR ''+'') \<and> s ! 3 = CHR '':'' then
        (case (parse_range (take 2 (drop 1 s)) 0 23, parse_range (take 2 (drop 4 s)) 0 59) of
           (Some hr, Some mm) \<Rightarrow> Some ((if s ! 0 = CHR ''-'' then -1 else 1) * int (hr * 60 + mm))
         | _ \<Rightarrow> None)
      else None)"

definition parseRFC3339 :: "string \<Rightarrow> time option" where
  "parseRFC3339 s =
     (if length s < 19 then None
      else case (parse_range (take 4 s) 0 9999, parse_range (take 2 (drop 5 s)) 1 12) of
        (Some y, Some m) \<Rightarrow>
          (case (parse_range (take 2 (drop 8 s)) 1 (month_days y ! (m - 1)), parse_range (take 2 (drop 11 s)) 0 23,
                 parse_range (take 2 (drop 14 s)) 0 59, parse_range (take 2 (drop 17 s)) 0 59) of
             (Some d, Some hh, Some mi, Some ss) \<Rightarrow>
               if s ! 4 = CHR ''-'' \<and> s ! 7 = CHR ''-'' \<and> s ! 10 = CHR ''T'' \<and> s ! 13 = CHR '':'' \<and> s ! 16 = CHR '':'' then
                 (case parse_frac (drop 19 s) of
                    (ns, z) \<Rightarrow>
                      (case parse_zone z of
                         None \<Rightarrow> None
                       | Some off \<Rightarrow>
                           Some ((days_of_date y m d * 86400 + int (hh * 3600 + mi * 60 + ss) - off * 60) * 10 ^ 9 + int ns)))
               else None
           | _ \<Rightarrow> None)
      | _ \<Rightarrow> None)"

text \<open>\<open>parse\<close> is \<^verbatim>\<open>time.Parse(time.RFC3339, s)\<close>, tried when the strict parser gives up.\<close>

definition time_UnmarshalJSON :: "(string \<Rightarrow> time option) \<Rightarrow> string \<Rightarrow> time option" where
  "time_UnmarshalJSON parse s = (case parseRFC3339 s of Some t \<Rightarrow> Some t | None \<Rightarrow> parse s)"

section \<open>Dates and days are inverse\<close>

lemma locate_spec:
  "n < sum_list ls \<Longrightarrow> locate ls n = (i, r) \<Longrightarrow> i < length ls \<and> r < ls ! i \<and> n = sum_list (take i ls) + r"
proof (induction ls arbitrary: n i)
  case (Cons l ls)
  show ?case
  proof (cases "n < l")
    case False
    then obtain j where j: "locate ls (n - l) = (j, r)" "i = Suc j" using Cons.prems(2) by (auto split: prod.splits)
    moreover have "n - l < sum_list ls" using Cons.prems(1) False by simp
    ultimately show ?thesis using Cons.IH [OF _ j(1)] False by auto
  qed (use Cons.prems in auto)
qed simp

lemma sum_month_days: "sum_list (month_days y) = (if leap y then 366 else 365)"
  by (simp add: month_days_def)

lemma div_step: "0 < k \<Longrightarrow> (n + k) div k = (n + (k - 1)) div k + (if n mod k = 0 then 1 else 0)" for k :: nat
proof (cases k)
  case (Suc j)
  have "(n + Suc j) mod Suc j = n mod Suc j" by (rule mod_add_self2)
  then show ?thesis using Suc div_Suc [of "n + j" "Suc j"] by simp
qed simp

lemma count_leap: "length (filter leap [0..<n]) + (n + 99) div 100 = (n + 3) div 4 + (n + 399) div 400"
proof (induction n)
  case (Suc n)
  have "n mod 400 mod 100 = n mod 100" "n mod 100 mod 4 = n mod 4" by (simp_all add: mod_mod_cancel)
  then have m: "n mod 400 = 0 \<Longrightarrow> n mod 100 = 0" "n mod 100 = 0 \<Longrightarrow> n mod 4 = 0" by auto
  have d: "(n + 4) div 4 = (n + 3) div 4 + (if n mod 4 = 0 then 1 else 0)" "(n + 100) div 100 = (n + 99) div 100 + (if n mod 100 = 0 then 1 else 0)"
    "(n + 400) div 400 = (n + 399) div 400 + (if n mod 400 = 0 then 1 else 0)"
    using div_step [of 4 n] div_step [of 100 n] div_step [of 400 n] by simp_all
  have l: "length (filter leap [0..<Suc n]) = length (filter leap [0..<n]) + (if leap n then 1 else 0)" by simp
  have "Suc n + 3 = n + 4" "Suc n + 99 = n + 100" "Suc n + 399 = n + 400" by simp_all
  then show ?case unfolding l by (simp only: d) (use Suc m in \<open>auto simp: leap_def [of n]\<close>)
qed simp

lemma sum_year_days: "sum_list year_days = 146097"
proof -
  have "sum_list (map (\<lambda>y. if leap y then 366 else 365) ys) = 365 * length ys + length (filter leap ys)" for ys
    by (induction ys) simp_all
  moreover have "length (filter leap [0..<400]) = 97" using count_leap [of 400] by simp
  ultimately show ?thesis by (simp add: year_days_def del: upt_rec_numeral)
qed

lemma length_year_days [simp]: "length year_days = 400"
  by (simp add: year_days_def)

lemma nth_year_days: "y < 400 \<Longrightarrow> year_days ! y = sum_list (month_days y)"
  by (simp add: year_days_def sum_month_days del: upt_rec_numeral)

lemma leap_mod [simp]: "leap (y mod 400) = leap y"
  by (simp add: leap_def mod_mod_cancel)

lemma month_days_mod [simp]: "month_days (y mod 400) = month_days y"
  by (simp add: month_days_def)

lemma length_month_days [simp]: "length (month_days y) = 12"
  by (simp add: month_days_def)

lemma date_of_days_inverse:
  assumes "date_of_days n = (y, m, d)" and "0 \<le> y"
  shows "1 \<le> m \<and> m \<le> 12 \<and> 1 \<le> d \<and> d \<le> month_days (nat y) ! (m - 1) \<and> days_of_date (nat y) m d = n"
proof -
  define n' where "n' = n + 719528"
  obtain yoe doy mi dd where l: "locate year_days (nat (n' mod 146097)) = (yoe, doy)" "locate (month_days yoe) doy = (mi, dd)"
    and r: "y = 400 * (n' div 146097) + int yoe" "m = Suc mi" "d = Suc dd"
    using assms(1) by (auto simp: date_of_days_def Let_def n'_def split: prod.splits)
  have y: "yoe < 400" "doy < year_days ! yoe" "nat (n' mod 146097) = sum_list (take yoe year_days) + doy"
    using locate_spec [OF _ l(1)] by (simp_all add: sum_year_days nat_less_iff)
  have "doy < sum_list (month_days yoe)" using y(1,2) nth_year_days by simp
  from locate_spec [OF this l(2)] have m: "mi < 12" "dd < month_days yoe ! mi" "doy = sum_list (take mi (month_days yoe)) + dd"
    by simp_all
  have "0 \<le> n' div 146097" using assms(2) r(1) y(1) by linarith
  then obtain e where e: "n' div 146097 = int e" using nonneg_int_cases by blast
  then have ny: "nat y = 400 * e + yoe" using r(1) by simp
  then have "nat y div 400 = e" "nat y mod 400 = yoe" using y(1) by simp_all
  moreover from this have "month_days (nat y) = month_days yoe" using month_days_mod by metis
  moreover have "n' = 146097 * int e + int (sum_list (take yoe year_days) + doy)"
    using y(3) e mult_div_mod_eq [of 146097 n'] by simp
  ultimately show ?thesis using m r(2,3) by (simp add: days_of_date_def n'_def)
qed

section \<open>The text is read back\<close>

lemma dec_val_append: "dec_val k (s @ t) = (case dec_val k s of None \<Rightarrow> None | Some x \<Rightarrow> dec_val x t)"
  by (induction s arbitrary: k) (auto split: option.splits)

lemma length_pad_dec [simp]: "length (pad_dec w n) = w"
  by (induction w arbitrary: n) simp_all

lemma digit_val_digit_char [simp]: "n < 10 \<Longrightarrow> digit_val (digit_char n) = Some n"
  using digit_char_val by blast

lemma dec_val_pad: "n < 10 ^ w \<Longrightarrow> dec_val k (pad_dec w n) = Some (k * 10 ^ w + n)"
proof (induction w arbitrary: n k)
  case (Suc w)
  have "n div 10 < 10 ^ w" using Suc.prems by (simp add: less_mult_imp_div_less mult.commute)
  from Suc.IH [OF this] show ?case by (simp add: dec_val_append algebra_simps)
qed simp

lemma parse_range_pad: "n < 10 ^ w \<Longrightarrow> lo \<le> n \<Longrightarrow> n \<le> hi \<Longrightarrow> parse_range (pad_dec w n) lo hi = Some n"
  by (simp add: parse_range_def dec_val_pad)

lemma pad_dec_digits: "c \<in> set (pad_dec w n) \<Longrightarrow> digit_val c \<noteq> None"
  by (induction w arbitrary: n) auto

lemma dec_val_zeros: "dec_val k (replicate j (CHR ''0'')) = Some (k * 10 ^ j)"
  by (induction j arbitrary: k) (simp_all add: digit_val_def)

lemma dropWhile_replicate: "\<exists>j. s = replicate j c @ dropWhile (\<lambda>x. x = c) s"
proof (induction s)
  case (Cons x s)
  then obtain j where "s = replicate j c @ dropWhile (\<lambda>x. x = c) s" by blast
  then have "x = c \<Longrightarrow> x # s = replicate (Suc j) c @ dropWhile (\<lambda>x. x = c) (x # s)" by simp
  moreover have "x \<noteq> c \<Longrightarrow> x # s = replicate 0 c @ dropWhile (\<lambda>x. x = c) (x # s)" by simp
  ultimately show ?case by blast
qed simp

lemma trim_zeros_replicate: "\<exists>j. s = trim_zeros s @ replicate j (CHR ''0'')"
proof -
  obtain j where "rev s = replicate j (CHR ''0'') @ dropWhile (\<lambda>c. c = CHR ''0'') (rev s)"
    using dropWhile_replicate [of "rev s" "CHR ''0''"] by blast
  then have "rev (rev s) = trim_zeros s @ rev (replicate j (CHR ''0''))"
    unfolding trim_zeros_def by (metis rev_append)
  then show ?thesis by auto
qed

lemma parse_frac_text:
  assumes "n < 10 ^ 9" and "z \<noteq> []" and "digit_val (hd z) = None" and "hd z \<noteq> CHR ''.''"
  shows "parse_frac (frac_text n @ z) = (n, z)"
proof -
  let ?f = "trim_zeros (pad_dec 9 n)"
  obtain j where j: "pad_dec 9 n = ?f @ replicate j (CHR ''0'')" using trim_zeros_replicate by blast
  have len: "length ?f + j = 9" using arg_cong [OF j, of length] by simp
  have d: "\<forall>c \<in> set ?f. digit_val c \<noteq> None" using j pad_dec_digits by (metis Un_iff set_append)
  have "dec_val 0 (pad_dec 9 n) = Some n" using dec_val_pad [OF assms(1), of 0] by simp
  then obtain x where x: "dec_val 0 ?f = Some x" "x * 10 ^ j = n"
    by (subst (asm) j) (auto simp: dec_val_append dec_val_zeros split: option.splits)
  have w: "takeWhile (\<lambda>c. digit_val c \<noteq> None) (?f @ z) = ?f" "dropWhile (\<lambda>c. digit_val c \<noteq> None) (?f @ z) = z"
    using d assms(2,3) by (cases z; simp add: takeWhile_append2 dropWhile_append2)+
  show ?thesis
  proof (cases "?f = []")
    case True
    then have "n = 0" using x by simp
    with True assms(2,4) show ?thesis by (cases z) (simp_all add: frac_text_def parse_frac_def Let_def)
  next
    case False
    moreover have "9 - length ?f = j" "length ?f \<le> 9" using len by simp_all
    ultimately show ?thesis using w x by (simp add: frac_text_def parse_frac_def Let_def)
  qed
qed

lemma parse_zone_text: "\<bar>off\<bar> < 1440 \<Longrightarrow> parse_zone (zone_text off) = Some off"
proof -
  assume b: "\<bar>off\<bar> < 1440"
  define a where "a = nat \<bar>off\<bar>"
  have "a div 60 < 24" using b by (simp add: a_def less_mult_imp_div_less)
  then have hm: "parse_range (pad_dec 2 (a div 60)) 0 23 = Some (a div 60)" "parse_range (pad_dec 2 (a mod 60)) 0 59 = Some (a mod 60)"
    by (auto intro!: parse_range_pad)
  obtain h1 h2 m1 m2 where p: "pad_dec 2 (a div 60) = [h1, h2]" "pad_dec 2 (a mod 60) = [m1, m2]" by (simp add: numeral_2_eq_2)
  have "a div 60 * 60 + a mod 60 = a" by simp
  then have "off < 0 \<Longrightarrow> - int (a div 60 * 60 + a mod 60) = off" "\<not> off < 0 \<Longrightarrow> int (a div 60 * 60 + a mod 60) = off"
    by (simp_all add: a_def)
  with hm show ?thesis by (simp add: zone_text_def parse_zone_def p flip: a_def)
qed

lemma zone_text_start: "zone_text off \<noteq> [] \<and> digit_val (hd (zone_text off)) = None \<and> hd (zone_text off) \<noteq> CHR ''.''"
  by (simp add: zone_text_def digit_val_def)

lemma pad_dec_2: "pad_dec 2 n = [digit_char (n div 10 mod 10), digit_char (n mod 10)]"
  unfolding numeral_2_eq_2 by simp

lemma pad_dec_4:
  "pad_dec 4 n = [digit_char (n div 10 div 10 div 10 mod 10), digit_char (n div 10 div 10 mod 10), digit_char (n div 10 mod 10), digit_char (n mod 10)]"
proof -
  have four: "4 = Suc (Suc (Suc (Suc 0)))" by simp
  show ?thesis unfolding four by simp
qed

lemma parse_layout:
  assumes "y \<le> 9999" and "1 \<le> m" "m \<le> 12" and "1 \<le> d" "d \<le> month_days y ! (m - 1)" and "hh < 24" "mi < 60" "ss < 60"
    and "n < 10 ^ 9" and "\<bar>off\<bar> < 1440"
  shows "parseRFC3339 (pad_dec 4 y @ CHR ''-'' # pad_dec 2 m @ CHR ''-'' # pad_dec 2 d @ CHR ''T'' # pad_dec 2 hh @ CHR '':'' # pad_dec 2 mi
      @ CHR '':'' # pad_dec 2 ss @ frac_text n @ zone_text off) =
    Some ((days_of_date y m d * 86400 + int (hh * 3600 + mi * 60 + ss) - off * 60) * 10 ^ 9 + int n)"
proof -
  have "\<forall>x \<in> set (month_days y). x \<le> 31" by (simp add: month_days_def)
  then have "month_days y ! (m - 1) \<le> 31" using assms(2,3) by (simp add: nth_mem)
  then have d: "d < 10 ^ 2" using assms(5) by simp
  have r: "parse_range (pad_dec 4 y) 0 9999 = Some y" "parse_range (pad_dec 2 m) 1 12 = Some m"
    "parse_range (pad_dec 2 d) 1 (month_days y ! (m - 1)) = Some d" "parse_range (pad_dec 2 hh) 0 23 = Some hh"
    "parse_range (pad_dec 2 mi) 0 59 = Some mi" "parse_range (pad_dec 2 ss) 0 59 = Some ss"
    using assms d by (simp_all add: parse_range_pad del: One_nat_def)
  have f: "parse_frac (frac_text n @ zone_text off) = (n, zone_text off)"
    using parse_frac_text [OF assms(9)] zone_text_start by blast
  show ?thesis unfolding parseRFC3339_def
    using r f parse_zone_text [OF assms(10)] by (simp add: pad_dec_2 pad_dec_4)
qed

lemma time_json_roundtrip:
  assumes "time_MarshalJSON off t = Inr s"
  shows "parseRFC3339 s = Some t"
proof -
  define secs sod where "secs = t div 10 ^ 9 + off * 60" and "sod = nat (secs mod 86400)"
  obtain y m d where ymd: "date_of_days (secs div 86400) = (y, m, d)" by (metis prod_cases3)
  have ok: "0 \<le> y" "y \<le> 9999" "\<bar>off\<bar> < 1440"
    and s: "s = pad_dec 4 (nat y) @ CHR ''-'' # pad_dec 2 m @ CHR ''-'' # pad_dec 2 d @ CHR ''T'' # pad_dec 2 (sod div 3600) @ CHR '':''
      # pad_dec 2 (sod div 60 mod 60) @ CHR '':'' # pad_dec 2 (sod mod 60) @ frac_text (nat (t mod 10 ^ 9)) @ zone_text off"
    using assms ymd by (auto simp: time_MarshalJSON_def Let_def secs_def sod_def split: if_splits)
  note dt = date_of_days_inverse [OF ymd ok(1)]
  have sod: "int sod = secs mod 86400" "sod < 86400" by (simp_all add: sod_def nat_less_iff)
  have "sod = sod div 60 * 60 + sod mod 60" "sod div 60 = sod div 60 div 60 * 60 + sod div 60 mod 60"
    by (rule div_mult_mod_eq [symmetric])+
  moreover have "sod div 3600 = sod div 60 div 60" by (simp flip: div_mult2_eq)
  ultimately have hms: "sod div 3600 * 3600 + sod div 60 mod 60 * 60 + sod mod 60 = sod" by linarith
  have "parseRFC3339 s = Some ((days_of_date (nat y) m d * 86400 + int sod - off * 60) * 10 ^ 9 + int (nat (t mod 10 ^ 9)))"
    unfolding s using parse_layout [of "nat y" m d "sod div 3600" "sod div 60 mod 60" "sod mod 60" "nat (t mod 10 ^ 9)" off] dt ok sod(2)
    by (simp add: hms nat_less_iff less_mult_imp_div_less)
  moreover have "days_of_date (nat y) m d * 86400 + int sod = secs" using dt sod(1) by (simp add: div_mult_mod_eq mult.commute)
  ultimately show ?thesis by (simp add: secs_def)
qed

end
