(* ===== verification/Json_Codec.thy ===== *)
theory Json_Codec
  imports Json_String Base64 Go_Time
begin

text \<open>
  How \<^verbatim>\<open>encoding/json\<close> maps Go values to JSON trees and back, for the kinds of type the wire messages
  are made of: integers, strings, booleans, byte slices, fixed arrays, slices, structs and times. A
  decoder takes the tree and the value that is already in place, as the library does: \<^verbatim>\<open>null\<close> leaves most values alone, a
  repeated key decodes into what the first one left, and a slice that
  is decoded twice shows the old elements of its backing array again, so the state of a slice is its elements
  and the stale ones behind them. Any error makes \<^verbatim>\<open>json.Unmarshal\<close> fail, here \<open>None\<close>; the text of
  the error only reaches the log and is not modelled.

  The locale \<open>json_type\<close> is the contract of one type: what encodes is decoded back to the same value, over
  whatever was there before. Inside it the contract is carried over to sequences of that type, and it is interpreted for every type a message contains.
\<close>

section \<open>Text and bytes\<close>

definition string_bytes :: "string \<Rightarrow> bytes" where
  "string_bytes s = map of_char s"

definition bytes_string :: "bytes \<Rightarrow> string" where
  "bytes_string b = map (\<lambda>x. char_of (unat x)) b"

text \<open>The error of a failed \<^verbatim>\<open>json.Unmarshal\<close>, whose text is not modelled.\<close>

definition json_error :: go_error where
  "json_error = Errorf ''json''"

section \<open>Scalars\<close>

definition enc_int :: "int \<Rightarrow> jtext result" where
  "enc_int i = Inr (JtNum (itoa i))"

fun dec_int :: "jtext \<Rightarrow> int \<Rightarrow> int option" where
  "dec_int JtNull i = Some i"
| "dec_int (JtNum lit) i = (case strconv_Atoi lit of Inl _ \<Rightarrow> None | Inr j \<Rightarrow> Some j)"
| "dec_int _ i = None"

definition enc_byte :: "byte \<Rightarrow> jtext result" where
  "enc_byte b = Inr (JtNum (itoa (uint b)))"

fun dec_byte :: "jtext \<Rightarrow> byte \<Rightarrow> byte option" where
  "dec_byte JtNull b = Some b"
| "dec_byte (JtNum lit) b = (case parse_uint 0 lit of Inl _ \<Rightarrow> None | Inr n \<Rightarrow> if n < 256 then Some (of_nat n) else None)"
| "dec_byte _ b = None"

definition enc_string :: "string \<Rightarrow> jtext" where
  "enc_string s = JtStr (quote s)"

fun dec_string :: "jtext \<Rightarrow> string \<Rightarrow> string option" where
  "dec_string JtNull s = Some s"
| "dec_string (JtStr raw) s = Some (unquote raw)"
| "dec_string _ s = None"

fun dec_bool :: "jtext \<Rightarrow> bool \<Rightarrow> bool option" where
  "dec_bool JtNull b = Some b"
| "dec_bool (JtBool c) b = Some c"
| "dec_bool _ b = None"

section \<open>Sequences\<close>

fun enc_list :: "('a \<Rightarrow> jtext result) \<Rightarrow> 'a list \<Rightarrow> jtext list result" where
  "enc_list enc [] = Inr []"
| "enc_list enc (x # xs) =
     (case enc x of
        Inl e \<Rightarrow> Inl e
      | Inr v \<Rightarrow> (case enc_list enc xs of Inl e \<Rightarrow> Inl e | Inr vs \<Rightarrow> Inr (v # vs)))"

text \<open>Elements decode into the backing array; what they do not reach stays behind them.\<close>

fun dec_elems :: "(jtext \<Rightarrow> 'a \<Rightarrow> 'a option) \<Rightarrow> 'a \<Rightarrow> jtext list \<Rightarrow> 'a list \<Rightarrow> ('a list \<times> 'a list) option" where
  "dec_elems dec z [] bk = Some ([], bk)"
| "dec_elems dec z (v # vs) bk =
     (case dec v (case bk of [] \<Rightarrow> z | b # _ \<Rightarrow> b) of
        None \<Rightarrow> None
      | Some x \<Rightarrow> map_option (apfst (Cons x)) (dec_elems dec z vs (tl bk)))"

type_synonym 'a slice = "'a list \<times> 'a list"

fun dec_slice :: "(jtext \<Rightarrow> 'a \<Rightarrow> 'a option) \<Rightarrow> 'a \<Rightarrow> jtext \<Rightarrow> 'a slice \<Rightarrow> 'a slice option" where
  "dec_slice dec z JtNull s = Some ([], [])"
| "dec_slice dec z (JtArr vs) s = (if vs = [] then Some ([], []) else dec_elems dec z vs (fst s @ snd s))"
| "dec_slice dec z _ s = None"

text \<open>A fixed array: elements beyond it are skipped, missing ones are zeroed.\<close>

fun dec_array :: "(jtext \<Rightarrow> 'a \<Rightarrow> 'a option) \<Rightarrow> 'a \<Rightarrow> jtext \<Rightarrow> 'a list \<Rightarrow> 'a list option" where
  "dec_array dec z JtNull a = Some a"
| "dec_array dec z (JtArr vs) a =
     map_option (\<lambda>r. fst r @ replicate (length a - length (fst r)) z) (dec_elems dec z (take (length a) vs) a)"
| "dec_array dec z _ a = None"

text \<open>A \<^verbatim>\<open>[]byte\<close>, \<^verbatim>\<open>nil\<close> or not, with its stale bytes: base64 in a string, or an array of numbers.\<close>

definition enc_bytes :: "bytes \<Rightarrow> jtext" where
  "enc_bytes bs = JtStr (quote (b64_encode bs))"

fun dec_bytes :: "jtext \<Rightarrow> bytes option \<times> bytes \<Rightarrow> (bytes option \<times> bytes) option" where
  "dec_bytes JtNull s = Some (None, [])"
| "dec_bytes (JtStr raw) s = map_option (\<lambda>b. (Some b, [])) (b64_decode (unquote raw))"
| "dec_bytes (JtArr vs) s =
     map_option (apfst Some) (dec_slice dec_byte 0 (JtArr vs) (case fst s of None \<Rightarrow> [] | Some b \<Rightarrow> b, snd s))"
| "dec_bytes _ s = None"

section \<open>Structs\<close>

text \<open>
  Keys match a field exactly or up to case. Among the runes beyond ASCII only U+017F and
  U+212A fold to a letter of a field name.
\<close>

fun fold_key :: "string \<Rightarrow> string" where
  "fold_key [] = []"
| "fold_key (c # s) =
     (if 97 \<le> nat_of c \<and> nat_of c \<le> 122 then char_of (nat_of c - 32) # fold_key s
      else if take 2 (c # s) = [CHR 0xC5, CHR 0xBF] then CHR ''S'' # fold_key (drop 1 s)
      else if take 3 (c # s) = [CHR 0xE2, CHR 0x84, CHR 0xAA] then CHR ''K'' # fold_key (drop 2 s)
      else c # fold_key s)"

definition field_of :: "string list \<Rightarrow> string \<Rightarrow> string option" where
  "field_of names k = (if k \<in> set names then Some k else find (\<lambda>n. fold_key n = fold_key k) names)"

fun dec_fields :: "string list \<Rightarrow> (string \<Rightarrow> jtext \<Rightarrow> 'd \<Rightarrow> 'd option) \<Rightarrow> (string \<times> jtext) list \<Rightarrow> 'd \<Rightarrow> 'd option" where
  "dec_fields names put [] d = Some d"
| "dec_fields names put ((k, v) # kvs) d =
     (case field_of names (unquote k) of
        None \<Rightarrow> dec_fields names put kvs d
      | Some f \<Rightarrow> (case put f v d of None \<Rightarrow> None | Some d' \<Rightarrow> dec_fields names put kvs d'))"

fun dec_struct :: "string list \<Rightarrow> (string \<Rightarrow> jtext \<Rightarrow> 'd \<Rightarrow> 'd option) \<Rightarrow> jtext \<Rightarrow> 'd \<Rightarrow> 'd option" where
  "dec_struct names put JtNull d = Some d"
| "dec_struct names put (JtObj kvs) d = dec_fields names put kvs d"
| "dec_struct names put _ d = None"

definition enc_struct :: "(string \<times> jtext) list \<Rightarrow> jtext" where
  "enc_struct fs = JtObj (map (apfst quote) fs)"

section \<open>Times\<close>

text \<open>
  What the machine and the rest of the library contribute: the local zone's offset in minutes at an instant,
  \<^verbatim>\<open>time.Parse\<close> with the layout RFC 3339, and the text that the encoder writes for the 64-bit float
  nearest to a number literal (\<open>None\<close> when it is out of range).
\<close>

record json_env =
  je_zone :: "time \<Rightarrow> int"
  je_Parse :: "string \<Rightarrow> time option"
  je_Float :: "string \<Rightarrow> string option"

definition enc_time :: "json_env \<Rightarrow> time \<Rightarrow> jtext result" where
  "enc_time env t = (case time_MarshalJSON (je_zone env t) t of Inl e \<Rightarrow> Inl e | Inr s \<Rightarrow> Inr (JtStr s))"

text \<open>\<^verbatim>\<open>UnmarshalJSON\<close> sees the literal as it is in the text.\<close>

fun dec_time :: "json_env \<Rightarrow> jtext \<Rightarrow> time \<Rightarrow> time option" where
  "dec_time env JtNull t = Some t"
| "dec_time env (JtStr raw) t = time_UnmarshalJSON (je_Parse env) raw"
| "dec_time env _ t = None"

section \<open>The contract of a type\<close>

locale json_type =
  fixes enc :: "'a \<Rightarrow> jtext result" and dec :: "jtext \<Rightarrow> 'a \<Rightarrow> 'a option" and ok :: "'a \<Rightarrow> bool" and D :: nat
  assumes enc_ok: "ok x \<Longrightarrow> \<exists>v. enc x = Inr v \<and> json_wf v \<and> json_depth v \<le> D \<and> (\<forall>y. dec v y = Some x)"
begin

lemma enc_list_ok:
  assumes "list_all ok xs"
  shows "\<exists>vs. enc_list enc xs = Inr vs \<and> length vs = length xs \<and> json_wf (JtArr vs) \<and> json_depth (JtArr vs) \<le> Suc D \<and>
    (\<forall>z bk. dec_elems dec z vs bk = Some (xs, drop (length xs) bk))"
  using assms
proof (induction xs)
  case (Cons x xs)
  then obtain vs where vs: "enc_list enc xs = Inr vs" "length vs = length xs" "json_wf (JtArr vs)" "json_depth (JtArr vs) \<le> Suc D"
    "\<And>z bk. dec_elems dec z vs bk = Some (xs, drop (length xs) bk)" by auto
  obtain v where v: "enc x = Inr v" "json_wf v" "json_depth v \<le> D" "\<And>y. dec v y = Some x" using enc_ok Cons.prems by auto
  have "dec_elems dec z (v # vs) bk = Some (x # xs, drop (length (x # xs)) bk)" for z bk
    using v(4) vs(5) by (simp add: drop_Suc)
  with v vs show ?case by (intro exI [of _ "v # vs"]) simp
qed simp

lemma enc_slice_ok:
  assumes "list_all ok xs"
  shows "\<exists>vs. enc_list enc xs = Inr vs \<and> json_wf (JtArr vs) \<and> json_depth (JtArr vs) \<le> Suc D \<and>
    (\<forall>z s. \<exists>t. dec_slice dec z (JtArr vs) s = Some (xs, t))"
  using enc_list_ok [OF assms] by (auto simp: Let_def)

lemma enc_array_ok:
  assumes "list_all ok xs"
  shows "\<exists>vs. enc_list enc xs = Inr vs \<and> json_wf (JtArr vs) \<and> json_depth (JtArr vs) \<le> Suc D \<and>
    (\<forall>z a. length a = length xs \<longrightarrow> dec_array dec z (JtArr vs) a = Some xs)"
  using enc_list_ok [OF assms] by auto

end

section \<open>The types of the messages\<close>

definition any_value :: "'a \<Rightarrow> bool" where
  "any_value x \<longleftrightarrow> True"

lemma Atoi_itoa_range: "int64_range i \<Longrightarrow> strconv_Atoi (itoa i) = Inr i"
  by (rule Atoi_itoa) (simp_all add: int64_range_def)

lemma itoa_uint: "itoa (uint (b :: byte)) = nat_str (unat b)"
  by (simp add: itoa_def not_less)

lemma dec_byte_enc: "dec_byte (JtNum (itoa (uint b))) c = Some b"
  using unat_byte [of b] by (simp add: itoa_uint parse_uint_nat_str)

interpretation j_int: json_type enc_int dec_int int64_range 0
  by unfold_locales (simp add: enc_int_def num_literal_itoa Atoi_itoa_range)

interpretation j_byte: json_type enc_byte dec_byte any_value 0
  by unfold_locales (simp add: enc_byte_def num_literal_itoa dec_byte_enc del: dec_byte.simps)

interpretation j_string: json_type "\<lambda>s. Inr (enc_string s)" dec_string utf8_valid 0
  by unfold_locales (simp add: enc_string_def unquote_quote)

text \<open>Plain characters of a time's text make it a literal.\<close>

definition plain_json :: "char \<Rightarrow> bool" where
  "plain_json c \<longleftrightarrow> 32 \<le> nat_of c \<and> nat_of c < 128 \<and> c \<notin> set ''<>&'' \<and> c \<noteq> bslash \<and> c \<noteq> dquote"

lemma quote_plain_json: "list_all plain_json s \<Longrightarrow> quote s = s"
  by (rule quote_plain) (simp add: list_all_iff plain_json_def)

lemma utf8_plain_json: "list_all plain_json s \<Longrightarrow> utf8_valid s"
  by (rule utf8_valid_ascii) (simp add: list_all_iff plain_json_def)

lemma plain_literal: "list_all plain_json s \<Longrightarrow> str_literal s"
  using str_literal_quote [of s] by (simp only: quote_plain_json)

lemma digit_plain: "digit_val c \<noteq> None \<Longrightarrow> plain_json c"
  by (auto simp: digit_val_def plain_json_def Let_def split: if_splits)

lemma pad_dec_plain: "list_all plain_json (pad_dec w n)"
  using pad_dec_digits digit_plain by (auto simp: list_all_iff)

lemma frac_text_plain: "list_all plain_json (frac_text n)"
proof -
  obtain j where "pad_dec 9 n = trim_zeros (pad_dec 9 n) @ replicate j (CHR ''0'')" using trim_zeros_replicate by blast
  then have "list_all plain_json (trim_zeros (pad_dec 9 n))" using pad_dec_plain [of 9 n] by (metis list_all_append)
  then show ?thesis by (simp add: frac_text_def Let_def) (simp add: plain_json_def)
qed

lemma zone_text_plain: "list_all plain_json (zone_text off)"
  by (simp add: zone_text_def pad_dec_plain) (simp add: plain_json_def)

lemma time_text_plain: "time_MarshalJSON off t = Inr s \<Longrightarrow> list_all plain_json s"
  by (auto simp: time_MarshalJSON_def Let_def pad_dec_plain frac_text_plain zone_text_plain split: if_splits prod.splits)
    (simp_all add: plain_json_def)

definition time_ok :: "json_env \<Rightarrow> time \<Rightarrow> bool" where
  "time_ok env t \<longleftrightarrow> (\<exists>s. time_MarshalJSON (je_zone env t) t = Inr s)"

interpretation j_time: json_type "enc_time env" "dec_time env" "time_ok env" 0
  by unfold_locales
    (auto simp: time_ok_def enc_time_def time_UnmarshalJSON_def time_json_roundtrip plain_literal time_text_plain)

lemma b64_plain: "list_all plain_json (b64_encode bs)"
proof -
  have "plain_json c" if "c \<in> set (b64_encode bs)" for c
    using b64_encode_chars [OF that] by (auto simp: b64_val_def plain_json_def Let_def split: if_splits)
  then show ?thesis by (simp add: list_all_iff)
qed

lemma enc_bytes_ok: "json_wf (enc_bytes bs)" "json_depth (enc_bytes bs) = 0" "dec_bytes (enc_bytes bs) s = Some (Some bs, [])"
  by (simp_all add: enc_bytes_def unquote_quote utf8_plain_json b64_plain)

lemma string_bytes_inverse [simp]: "bytes_string (string_bytes s) = s"
proof -
  have "char_of (unat (of_char c :: byte)) = c" for c
  proof -
    have "(of_char c :: byte) = of_nat (of_char c)" by (simp add: of_char_def)
    moreover have "(of_char c :: nat) < 256" by (rule nat_of_char_less_256)
    ultimately show ?thesis by (simp add: unat_of_nat)
  qed
  then show ?thesis by (induction s) (simp_all add: bytes_string_def string_bytes_def)
qed

lemma unquote_name [simp]: "list_all plain_json k \<Longrightarrow> unquote (quote k) = k"
  by (simp add: unquote_quote utf8_plain_json)

lemma enc_struct_wf: "json_wf (enc_struct fs) \<longleftrightarrow> list_all (\<lambda>kv. json_wf (snd kv)) fs"
  by (auto simp: enc_struct_def list_all_iff)

lemma enc_struct_depth: "json_depth (enc_struct fs) \<le> Suc n \<longleftrightarrow> list_all (\<lambda>kv. json_depth (snd kv) \<le> n) fs"
  by (simp add: enc_struct_def foldr_max_bound list_all_iff)

lemma dec_fields_append:
  "dec_fields names put (kvs @ kvs') d = (case dec_fields names put kvs d of None \<Rightarrow> None | Some d' \<Rightarrow> dec_fields names put kvs' d')"
  by (induction kvs arbitrary: d) (auto split: option.splits)

lemma enc_list_map: "enc_list (\<lambda>x. Inr (f x)) xs = Inr (map f xs)"
  by (induction xs) simp_all

lemma enc_string_ok:
  "json_wf (enc_string s)" "json_depth (enc_string s) = 0" "utf8_valid s \<Longrightarrow> dec_string (enc_string s) t = Some s"
  by (simp_all add: enc_string_def unquote_quote)

lemma enc_num_ok:
  "json_wf (JtNum (itoa i))" "json_depth (JtNum (itoa i)) = 0" "int64_range i \<Longrightarrow> dec_int (JtNum (itoa i)) j = Some i"
  by (simp_all add: num_literal_itoa Atoi_itoa_range)

text \<open>For the witnesses: a machine whose local zone is UTC.\<close>

definition utc_env :: json_env where
  "utc_env = \<lparr>je_zone = (\<lambda>_. 0), je_Parse = (\<lambda>_. None), je_Float = (\<lambda>_. None)\<rparr>"

end
