(* ===== verification/Json_Message.thy ===== *)
theory Json_Message
  imports Json_Codec Dht_Service
begin

text \<open>
  The JSON form of a DHT message: \<^verbatim>\<open>Message.Encode\<close> and \<^verbatim>\<open>DecodeMessage\<close> of
  \<^verbatim>\<open>internal/dht/node.go\<close>, with the struct tags of \<^verbatim>\<open>Message\<close>, \<^verbatim>\<open>Contact\<close>, \<^verbatim>\<open>FileMeta\<close> and \<^verbatim>\<open>ChunkMeta\<close>. The state of a decoding
  is the message so far with the stale elements of its slices. \<open>json_codec\<close> is the
  codec over which the service is run.

  Lemmas: a message whose strings are UTF-8, whose integers have 64 bits and whose times are in the years 0 to 9999
  is decoded as it was encoded, and what is lost otherwise.
\<close>

section \<open>Identifiers\<close>

definition enc_ID :: "ID \<Rightarrow> jtext" where
  "enc_ID i = JtArr (map (\<lambda>b. JtNum (itoa (uint b))) (ID_arr i))"

definition dec_ID :: "jtext \<Rightarrow> ID \<Rightarrow> ID option" where
  "dec_ID v i = map_option ID_of_slice (dec_array dec_byte 0 v (ID_arr i))"

definition enc_ChunkID :: "ChunkID \<Rightarrow> jtext" where
  "enc_ChunkID i = JtArr (map (\<lambda>b. JtNum (itoa (uint b))) (ChunkID_arr i))"

definition dec_ChunkID :: "jtext \<Rightarrow> ChunkID \<Rightarrow> ChunkID option" where
  "dec_ChunkID v i = map_option ChunkID_of_slice (dec_array dec_byte 0 v (ChunkID_arr i))"

section \<open>Contacts and file metadata\<close>

definition enc_Contact :: "json_env \<Rightarrow> Contact \<Rightarrow> jtext result" where
  "enc_Contact env c =
     (case enc_time env (ct_LastSeen c) of
        Inl e \<Rightarrow> Inl e
      | Inr t \<Rightarrow> Inr (enc_struct [(''ID'', enc_ID (ct_ID c)), (''Address'', enc_string (ct_Address c)), (''LastSeen'', t)]))"

definition put_Contact :: "json_env \<Rightarrow> string \<Rightarrow> jtext \<Rightarrow> Contact \<Rightarrow> Contact option" where
  "put_Contact env f v c =
     (if f = ''ID'' then map_option (\<lambda>x. c\<lparr>ct_ID := x\<rparr>) (dec_ID v (ct_ID c))
      else if f = ''Address'' then map_option (\<lambda>x. c\<lparr>ct_Address := x\<rparr>) (dec_string v (ct_Address c))
      else map_option (\<lambda>x. c\<lparr>ct_LastSeen := x\<rparr>) (dec_time env v (ct_LastSeen c)))"

definition dec_Contact :: "json_env \<Rightarrow> jtext \<Rightarrow> Contact \<Rightarrow> Contact option" where
  "dec_Contact env = dec_struct [''ID'', ''Address'', ''LastSeen''] (put_Contact env)"

definition Contact_zero :: Contact where
  "Contact_zero = \<lparr>ct_ID = ID_zero, ct_Address = [], ct_LastSeen = time_zero\<rparr>"

definition enc_ChunkMeta :: "ChunkMeta \<Rightarrow> jtext" where
  "enc_ChunkMeta c =
     enc_struct [(''Index'', JtNum (itoa (cm_Index c))), (''ID'', enc_ChunkID (cm_ID c)), (''Size'', JtNum (itoa (cm_Size c)))]"

definition put_ChunkMeta :: "string \<Rightarrow> jtext \<Rightarrow> ChunkMeta \<Rightarrow> ChunkMeta option" where
  "put_ChunkMeta f v c =
     (if f = ''Index'' then map_option (\<lambda>x. c\<lparr>cm_Index := x\<rparr>) (dec_int v (cm_Index c))
      else if f = ''ID'' then map_option (\<lambda>x. c\<lparr>cm_ID := x\<rparr>) (dec_ChunkID v (cm_ID c))
      else map_option (\<lambda>x. c\<lparr>cm_Size := x\<rparr>) (dec_int v (cm_Size c)))"

definition dec_ChunkMeta :: "jtext \<Rightarrow> ChunkMeta \<Rightarrow> ChunkMeta option" where
  "dec_ChunkMeta = dec_struct [''Index'', ''ID'', ''Size''] put_ChunkMeta"

definition ChunkMeta_zero :: ChunkMeta where
  "ChunkMeta_zero = \<lparr>cm_Index = 0, cm_ID = ChunkID_zero, cm_Size = 0\<rparr>"

text \<open>An empty list of chunks is a nil slice: a stored file has at least one chunk.\<close>

definition enc_FileMeta :: "FileMeta \<Rightarrow> jtext" where
  "enc_FileMeta m =
     enc_struct
       [(''root'', enc_ChunkID (fm_Root m)),
        (''chunks'', if fm_Chunks m = [] then JtNull else JtArr (map enc_ChunkMeta (fm_Chunks m))),
        (''size'', JtNum (itoa (fm_Size m)))]"

definition put_FileMeta :: "string \<Rightarrow> jtext \<Rightarrow> FileMeta \<times> ChunkMeta list \<Rightarrow> (FileMeta \<times> ChunkMeta list) option" where
  "put_FileMeta f v m =
     (if f = ''root'' then map_option (\<lambda>x. apfst (fm_Root_update (\<lambda>_. x)) m) (dec_ChunkID v (fm_Root (fst m)))
      else if f = ''chunks'' then
        map_option (\<lambda>x. ((fst m)\<lparr>fm_Chunks := fst x\<rparr>, snd x)) (dec_slice dec_ChunkMeta ChunkMeta_zero v (fm_Chunks (fst m), snd m))
      else map_option (\<lambda>x. apfst (fm_Size_update (\<lambda>_. x)) m) (dec_int v (fm_Size (fst m))))"

definition dec_FileMeta :: "jtext \<Rightarrow> FileMeta \<times> ChunkMeta list \<Rightarrow> (FileMeta \<times> ChunkMeta list) option" where
  "dec_FileMeta = dec_struct [''root'', ''chunks'', ''size''] put_FileMeta"

definition FileMeta_zero :: FileMeta where
  "FileMeta_zero = \<lparr>fm_Root = ChunkID_zero, fm_Chunks = [], fm_Size = 0\<rparr>"

section \<open>Messages\<close>

text \<open>The fields in the order of the struct; \<open>ns\<close> and \<open>ps\<close> are the encoded nodes and providers.\<close>

definition opt_string :: "string \<Rightarrow> string \<Rightarrow> (string \<times> jtext) list" where
  "opt_string f s = (if s = [] then [] else [(f, enc_string s)])"

definition opt_list :: "string \<Rightarrow> jtext list \<Rightarrow> (string \<times> jtext) list" where
  "opt_list f vs = (if vs = [] then [] else [(f, JtArr vs)])"

definition message_fields :: "Message \<Rightarrow> jtext list \<Rightarrow> jtext list \<Rightarrow> (string \<times> jtext) list" where
  "message_fields m ns ps =
     [(''type'', enc_string (msg_Type m)), (''from'', enc_ID (msg_From m)), (''ts'', JtNum (itoa (msg_Timestamp m)))]
     @ (case msg_Target m of None \<Rightarrow> [] | Some i \<Rightarrow> [(''target'', enc_ID i)])
     @ opt_list ''nodes'' ns
     @ opt_string ''chunk_id'' (msg_ChunkID m)
     @ (case msg_ChunkData m of None \<Rightarrow> [] | Some d \<Rightarrow> if d = [] then [] else [(''chunk_data'', enc_bytes d)])
     @ opt_string ''file_root'' (msg_FileRoot m)
     @ opt_list ''providers'' ps
     @ (case msg_FileMeta m of None \<Rightarrow> [] | Some fm \<Rightarrow> [(''file_meta'', enc_FileMeta fm)])
     @ opt_string ''node_addr'' (msg_NodeAddr m)
     @ opt_string ''error'' (msg_Error m)
     @ opt_string ''req_id'' (msg_RequestID m)"

definition Message_Encode :: "json_env \<Rightarrow> Message \<Rightarrow> bytes result" where
  "Message_Encode env m =
     (case enc_list (enc_Contact env) (msg_Nodes m) of
        Inl e \<Rightarrow> Inl e
      | Inr ns \<Rightarrow>
          (case enc_list (enc_Contact env) (msg_Providers m) of
             Inl e \<Rightarrow> Inl e
           | Inr ps \<Rightarrow> Inr (string_bytes (json_print (enc_struct (message_fields m ns ps))))))"

record msg_state = Message +
  st_nodes :: "Contact list"
  st_data :: bytes
  st_providers :: "Contact list"
  st_chunks :: "ChunkMeta list"

definition message_names :: "string list" where
  "message_names =
     [''type'', ''from'', ''ts'', ''target'', ''nodes'', ''chunk_id'', ''chunk_data'', ''file_root'', ''providers'', ''file_meta'',
      ''node_addr'', ''error'', ''req_id'']"

definition put_Message :: "json_env \<Rightarrow> string \<Rightarrow> jtext \<Rightarrow> msg_state \<Rightarrow> msg_state option" where
  "put_Message env f v m =
     (if f = ''type'' then map_option (\<lambda>x. m\<lparr>msg_Type := x\<rparr>) (dec_string v (msg_Type m))
      else if f = ''from'' then map_option (\<lambda>x. m\<lparr>msg_From := x\<rparr>) (dec_ID v (msg_From m))
      else if f = ''ts'' then map_option (\<lambda>x. m\<lparr>msg_Timestamp := x\<rparr>) (dec_int v (msg_Timestamp m))
      else if f = ''target'' then
        if v = JtNull then Some (m\<lparr>msg_Target := None\<rparr>)
        else map_option (\<lambda>x. m\<lparr>msg_Target := Some x\<rparr>) (dec_ID v (case msg_Target m of None \<Rightarrow> ID_zero | Some i \<Rightarrow> i))
      else if f = ''nodes'' then
        map_option (\<lambda>x. m\<lparr>msg_Nodes := fst x, st_nodes := snd x\<rparr>) (dec_slice (dec_Contact env) Contact_zero v (msg_Nodes m, st_nodes m))
      else if f = ''chunk_id'' then map_option (\<lambda>x. m\<lparr>msg_ChunkID := x\<rparr>) (dec_string v (msg_ChunkID m))
      else if f = ''chunk_data'' then
        map_option (\<lambda>x. m\<lparr>msg_ChunkData := fst x, st_data := snd x\<rparr>) (dec_bytes v (msg_ChunkData m, st_data m))
      else if f = ''file_root'' then map_option (\<lambda>x. m\<lparr>msg_FileRoot := x\<rparr>) (dec_string v (msg_FileRoot m))
      else if f = ''providers'' then
        map_option (\<lambda>x. m\<lparr>msg_Providers := fst x, st_providers := snd x\<rparr>)
          (dec_slice (dec_Contact env) Contact_zero v (msg_Providers m, st_providers m))
      else if f = ''file_meta'' then
        if v = JtNull then Some (m\<lparr>msg_FileMeta := None, st_chunks := []\<rparr>)
        else map_option (\<lambda>x. m\<lparr>msg_FileMeta := Some (fst x), st_chunks := snd x\<rparr>)
          (dec_FileMeta v (case msg_FileMeta m of None \<Rightarrow> (FileMeta_zero, []) | Some fm \<Rightarrow> (fm, st_chunks m)))
      else if f = ''node_addr'' then map_option (\<lambda>x. m\<lparr>msg_NodeAddr := x\<rparr>) (dec_string v (msg_NodeAddr m))
      else if f = ''error'' then map_option (\<lambda>x. m\<lparr>msg_Error := x\<rparr>) (dec_string v (msg_Error m))
      else map_option (\<lambda>x. m\<lparr>msg_RequestID := x\<rparr>) (dec_string v (msg_RequestID m)))"

definition DecodeMessage :: "json_env \<Rightarrow> bytes \<Rightarrow> Message result" where
  "DecodeMessage env b =
     (case json_parse (bytes_string b) of
        None \<Rightarrow> Inl json_error
      | Some v \<Rightarrow>
          (case dec_struct message_names (put_Message env) v
                  (Message.extend Message_zero (msg_state.fields [] [] [] [])) of
             None \<Rightarrow> Inl json_error
           | Some m \<Rightarrow> Inr (Message.truncate m)))"

definition json_codec :: "json_env \<Rightarrow> codec" where
  "json_codec env = \<lparr>cd_Encode = Message_Encode env, cd_Decode = DecodeMessage env\<rparr>"

section \<open>Structs are read back\<close>

lemma ChunkID_String_not_empty [simp]: "ChunkID_String i \<noteq> []"
  by (metis length_ChunkID_String list.size(3) zero_neq_numeral)

lemma byte_array_ok:
  "json_wf (JtArr (map (\<lambda>b. JtNum (itoa (uint b))) bs))" "json_depth (JtArr (map (\<lambda>b. JtNum (itoa (uint b))) bs)) \<le> 1"
  "length a = length bs \<Longrightarrow> dec_array dec_byte 0 (JtArr (map (\<lambda>b. JtNum (itoa (uint b))) bs)) a = Some bs"
proof -
  have "list_all any_value bs" by (simp add: list_all_iff any_value_def)
  from j_byte.enc_array_ok [OF this] enc_list_map [of "\<lambda>b. JtNum (itoa (uint b))" bs]
  show "json_wf (JtArr (map (\<lambda>b. JtNum (itoa (uint b))) bs))" "json_depth (JtArr (map (\<lambda>b. JtNum (itoa (uint b))) bs)) \<le> 1"
    "length a = length bs \<Longrightarrow> dec_array dec_byte 0 (JtArr (map (\<lambda>b. JtNum (itoa (uint b))) bs)) a = Some bs"
    by (simp_all add: enc_byte_def [abs_def] del: dec_array.simps)
qed

lemma enc_ID_ok: "json_wf (enc_ID i)" "json_depth (enc_ID i) \<le> 1" "dec_ID (enc_ID i) j = Some i" "enc_ID i \<noteq> JtNull"
  using byte_array_ok(1,2) [of "ID_arr i"] byte_array_ok(3) [of "ID_arr j" "ID_arr i"]
  by (simp_all add: enc_ID_def dec_ID_def ID_eq_iff ID_of_slice_arr del: dec_array.simps json_depth.simps json_wf.simps)

lemma enc_ChunkID_ok: "json_wf (enc_ChunkID i)" "json_depth (enc_ChunkID i) \<le> 1" "dec_ChunkID (enc_ChunkID i) j = Some i"
  using byte_array_ok(1,2) [of "ChunkID_arr i"] byte_array_ok(3) [of "ChunkID_arr j" "ChunkID_arr i"]
  by (simp_all add: enc_ChunkID_def dec_ChunkID_def ChunkID_eq_iff ChunkID_of_slice_arr del: dec_array.simps json_depth.simps json_wf.simps)

definition contact_ok :: "json_env \<Rightarrow> Contact \<Rightarrow> bool" where
  "contact_ok env c \<longleftrightarrow> utf8_valid (ct_Address c) \<and> time_ok env (ct_LastSeen c)"

interpretation j_contact: json_type "enc_Contact env" "dec_Contact env" "contact_ok env" 2
proof
  fix c assume "contact_ok env c"
  then have a: "utf8_valid (ct_Address c)" and "time_ok env (ct_LastSeen c)" by (simp_all add: contact_ok_def)
  from j_time.enc_ok [OF this(2)] obtain t where t: "enc_time env (ct_LastSeen c) = Inr t" "json_wf t" "json_depth t = 0"
    "\<And>u. dec_time env t u = Some (ct_LastSeen c)" by auto
  let ?v = "enc_struct [(''ID'', enc_ID (ct_ID c)), (''Address'', enc_string (ct_Address c)), (''LastSeen'', t)]"
  have "json_wf ?v" using t by (simp add: enc_struct_wf enc_ID_ok enc_string_ok)
  moreover have "json_depth ?v \<le> Suc 1" unfolding enc_struct_depth using t by (simp add: enc_ID_ok [simplified] enc_string_ok)
  moreover have "dec_Contact env ?v y = Some c" for y
    using a t(4) by (simp add: dec_Contact_def enc_struct_def field_of_def put_Contact_def plain_json_def enc_ID_ok enc_string_ok)
  ultimately show "\<exists>v. enc_Contact env c = Inr v \<and> json_wf v \<and> json_depth v \<le> 2 \<and> (\<forall>y. dec_Contact env v y = Some c)"
    using t(1) by (intro exI [of _ ?v]) (simp add: enc_Contact_def numeral_2_eq_2)
qed

definition chunk_meta_ok :: "ChunkMeta \<Rightarrow> bool" where
  "chunk_meta_ok c \<longleftrightarrow> int64_range (cm_Index c) \<and> int64_range (cm_Size c)"

interpretation j_chunk_meta: json_type "\<lambda>c. Inr (enc_ChunkMeta c)" dec_ChunkMeta chunk_meta_ok 2
proof
  fix c assume c: "chunk_meta_ok c"
  have "json_wf (enc_ChunkMeta c)" unfolding enc_ChunkMeta_def enc_struct_wf by (simp add: enc_ChunkID_ok enc_num_ok num_literal_itoa)
  moreover have "json_depth (enc_ChunkMeta c) \<le> Suc 1"
    unfolding enc_ChunkMeta_def enc_struct_depth by (simp add: enc_ChunkID_ok [simplified])
  moreover have "dec_ChunkMeta (enc_ChunkMeta c) y = Some c" for y
    using c by (simp add: dec_ChunkMeta_def enc_ChunkMeta_def enc_struct_def field_of_def put_ChunkMeta_def plain_json_def enc_ChunkID_ok
        chunk_meta_ok_def Atoi_itoa_range)
  ultimately show "\<exists>v. Inr (enc_ChunkMeta c) = Inr v \<and> json_wf v \<and> json_depth v \<le> 2 \<and> (\<forall>y. dec_ChunkMeta v y = Some c)"
    by (simp add: numeral_2_eq_2)
qed

definition file_meta_ok :: "FileMeta \<Rightarrow> bool" where
  "file_meta_ok m \<longleftrightarrow> list_all chunk_meta_ok (fm_Chunks m) \<and> int64_range (fm_Size m)"

lemma enc_FileMeta_wf: "file_meta_ok m \<Longrightarrow> json_wf (enc_FileMeta m)"
proof -
  assume "file_meta_ok m"
  then have "list_all chunk_meta_ok (fm_Chunks m)" by (simp add: file_meta_ok_def)
  from j_chunk_meta.enc_list_ok [OF this] have "json_wf (JtArr (map enc_ChunkMeta (fm_Chunks m)))" by (simp add: enc_list_map)
  then show ?thesis unfolding enc_FileMeta_def enc_struct_wf by (simp add: enc_ChunkID_ok num_literal_itoa)
qed

lemma enc_FileMeta_depth: "file_meta_ok m \<Longrightarrow> json_depth (enc_FileMeta m) \<le> 4"
proof -
  assume "file_meta_ok m"
  then have "list_all chunk_meta_ok (fm_Chunks m)" by (simp add: file_meta_ok_def)
  from j_chunk_meta.enc_list_ok [OF this] have "json_depth (JtArr (map enc_ChunkMeta (fm_Chunks m))) \<le> 3" by (simp add: enc_list_map)
  moreover have "json_depth (enc_ChunkID (fm_Root m)) \<le> 3" using enc_ChunkID_ok(2) [of "fm_Root m"] by linarith
  ultimately have "json_depth (enc_FileMeta m) \<le> Suc 3" unfolding enc_FileMeta_def enc_struct_depth by simp
  then show ?thesis by simp
qed

lemma dec_FileMeta_enc: "file_meta_ok m \<Longrightarrow> \<exists>t. dec_FileMeta (enc_FileMeta m) (FileMeta_zero, []) = Some (m, t)"
proof -
  assume m: "file_meta_ok m"
  then have "list_all chunk_meta_ok (fm_Chunks m)" by (simp add: file_meta_ok_def)
  from j_chunk_meta.enc_slice_ok [OF this]
  have "\<exists>t. dec_slice dec_ChunkMeta ChunkMeta_zero (JtArr (map enc_ChunkMeta (fm_Chunks m))) ([], []) = Some (fm_Chunks m, t)"
    by (simp add: enc_list_map del: dec_slice.simps)
  then obtain t where
    t: "dec_slice dec_ChunkMeta ChunkMeta_zero (JtArr (map enc_ChunkMeta (fm_Chunks m))) ([], []) = Some (fm_Chunks m, t)" by blast
  have "dec_slice dec_ChunkMeta ChunkMeta_zero (if fm_Chunks m = [] then JtNull else JtArr (map enc_ChunkMeta (fm_Chunks m))) ([], []) =
      Some (fm_Chunks m, if fm_Chunks m = [] then [] else t)"
    using t by (cases "fm_Chunks m = []") (simp_all del: dec_slice.simps(2))
  with m show ?thesis
    by (simp add: dec_FileMeta_def enc_FileMeta_def enc_struct_def field_of_def put_FileMeta_def plain_json_def enc_ChunkID_ok
        file_meta_ok_def Atoi_itoa_range FileMeta_zero_def del: dec_slice.simps)
qed

section \<open>A message is read back\<close>

definition dec_part :: "json_env \<Rightarrow> (string \<times> jtext) list \<Rightarrow> msg_state \<Rightarrow> msg_state option" where
  "dec_part env fs st = dec_fields message_names (put_Message env) (map (apfst quote) fs) st"

lemma dec_part_append: "dec_part env fs st = Some st' \<Longrightarrow> dec_part env (fs @ gs) st = dec_part env gs st'"
  by (simp add: dec_part_def dec_fields_append)

lemma dec_part_Nil: "dec_part env [] st = Some st"
  by (simp add: dec_part_def)

lemma dec_part_field:
  assumes "f \<in> set message_names" and "put_Message env f v st = Some st'"
  shows "dec_part env ((f, v) # fs) st = dec_part env fs st'"
proof -
  have "list_all (list_all plain_json) message_names" by (simp add: message_names_def plain_json_def)
  then have "list_all plain_json f" using assms(1) by (simp add: list_all_iff)
  then show ?thesis using assms by (simp add: dec_part_def field_of_def)
qed

lemma dec_part_strings:
  assumes "utf8_valid s"
  shows "msg_ChunkID st = [] \<Longrightarrow> dec_part env (opt_string ''chunk_id'' s) st = Some (st\<lparr>msg_ChunkID := s\<rparr>)"
    and "msg_FileRoot st = [] \<Longrightarrow> dec_part env (opt_string ''file_root'' s) st = Some (st\<lparr>msg_FileRoot := s\<rparr>)"
    and "msg_NodeAddr st = [] \<Longrightarrow> dec_part env (opt_string ''node_addr'' s) st = Some (st\<lparr>msg_NodeAddr := s\<rparr>)"
    and "msg_Error st = [] \<Longrightarrow> dec_part env (opt_string ''error'' s) st = Some (st\<lparr>msg_Error := s\<rparr>)"
    and "msg_RequestID st = [] \<Longrightarrow> dec_part env (opt_string ''req_id'' s) st = Some (st\<lparr>msg_RequestID := s\<rparr>)"
  using enc_string_ok(3) [OF assms]
  by (cases st; simp add: opt_string_def dec_part_Nil dec_part_field put_Message_def message_names_def)+

lemma dec_part_lists:
  assumes "list_all (contact_ok env) cs" and "enc_list (enc_Contact env) cs = Inr vs"
  shows "msg_Nodes st = [] \<Longrightarrow> \<exists>t. dec_part env (opt_list ''nodes'' vs) st = Some (st\<lparr>msg_Nodes := cs, st_nodes := t\<rparr>)"
    and "msg_Providers st = [] \<Longrightarrow> \<exists>t. dec_part env (opt_list ''providers'' vs) st = Some (st\<lparr>msg_Providers := cs, st_providers := t\<rparr>)"
proof -
  from j_contact.enc_list_ok [OF assms(1)] assms(2) have len: "length vs = length cs" by auto
  have d: "\<exists>t. dec_slice (dec_Contact env) Contact_zero (JtArr vs) s = Some (cs, t)" for s
    using j_contact.enc_slice_ok [OF assms(1)] assms(2) by (cases s) (auto simp del: dec_slice.simps)
  show "\<exists>t. dec_part env (opt_list ''nodes'' vs) st = Some (st\<lparr>msg_Nodes := cs, st_nodes := t\<rparr>)" if "msg_Nodes st = []"
  proof (cases "vs = []")
    case True
    then show ?thesis using len that by (intro exI [of _ "st_nodes st"]) (cases st, simp add: opt_list_def dec_part_Nil)
  next
    case False
    obtain t where "dec_slice (dec_Contact env) Contact_zero (JtArr vs) (msg_Nodes st, st_nodes st) = Some (cs, t)" using d by blast
    then have "put_Message env ''nodes'' (JtArr vs) st = Some (st\<lparr>msg_Nodes := cs, st_nodes := t\<rparr>)"
      by (simp add: put_Message_def del: dec_slice.simps)
    with False show ?thesis by (auto simp: opt_list_def dec_part_field dec_part_Nil message_names_def)
  qed
  show "\<exists>t. dec_part env (opt_list ''providers'' vs) st = Some (st\<lparr>msg_Providers := cs, st_providers := t\<rparr>)" if "msg_Providers st = []"
  proof (cases "vs = []")
    case True
    then show ?thesis using len that by (intro exI [of _ "st_providers st"]) (cases st, simp add: opt_list_def dec_part_Nil)
  next
    case False
    obtain t where "dec_slice (dec_Contact env) Contact_zero (JtArr vs) (msg_Providers st, st_providers st) = Some (cs, t)" using d by blast
    then have "put_Message env ''providers'' (JtArr vs) st = Some (st\<lparr>msg_Providers := cs, st_providers := t\<rparr>)"
      by (simp add: put_Message_def del: dec_slice.simps)
    with False show ?thesis by (auto simp: opt_list_def dec_part_field dec_part_Nil message_names_def)
  qed
qed

definition message_ok :: "json_env \<Rightarrow> Message \<Rightarrow> bool" where
  "message_ok env m \<longleftrightarrow>
     list_all utf8_valid [msg_Type m, msg_ChunkID m, msg_FileRoot m, msg_NodeAddr m, msg_Error m, msg_RequestID m] \<and>
     int64_range (msg_Timestamp m) \<and> list_all (contact_ok env) (msg_Nodes m) \<and> list_all (contact_ok env) (msg_Providers m) \<and>
     (case msg_FileMeta m of None \<Rightarrow> True | Some fm \<Rightarrow> file_meta_ok fm)"

text \<open>What comes out: an empty chunk is omitted, so it comes out as \<^verbatim>\<open>nil\<close>.\<close>

definition wire_image :: "Message \<Rightarrow> Message" where
  "wire_image m = (if msg_ChunkData m = Some [] then m\<lparr>msg_ChunkData := None\<rparr> else m)"

lemma dec_part_head:
  assumes "message_ok env m"
  shows "dec_part env ([(''type'', enc_string (msg_Type m)), (''from'', enc_ID (msg_From m)), (''ts'', JtNum (itoa (msg_Timestamp m)))] @ fs) st =
    dec_part env fs (st\<lparr>msg_Type := msg_Type m, msg_From := msg_From m, msg_Timestamp := msg_Timestamp m\<rparr>)"
  using assms
  by (simp add: message_ok_def dec_part_field put_Message_def message_names_def enc_string_ok enc_ID_ok Atoi_itoa_range)

lemma dec_part_target:
  assumes "msg_Target st = None"
  shows "dec_part env (case msg_Target m of None \<Rightarrow> [] | Some i \<Rightarrow> [(''target'', enc_ID i)]) st = Some (st\<lparr>msg_Target := msg_Target m\<rparr>)"
  using assms
  by (cases st) (simp add: dec_part_field dec_part_Nil put_Message_def message_names_def enc_ID_ok split: option.split)

lemma dec_part_data:
  assumes "msg_ChunkData st = None" and "st_data st = []"
  shows "dec_part env (case msg_ChunkData m of None \<Rightarrow> [] | Some d \<Rightarrow> if d = [] then [] else [(''chunk_data'', enc_bytes d)]) st =
    Some (st\<lparr>msg_ChunkData := msg_ChunkData (wire_image m)\<rparr>)"
  using assms
  by (cases st) (simp add: wire_image_def dec_part_field dec_part_Nil put_Message_def message_names_def enc_bytes_ok split: option.split)

lemma dec_part_file_meta:
  assumes "message_ok env m" and "msg_FileMeta st = None"
  shows "\<exists>t. dec_part env (case msg_FileMeta m of None \<Rightarrow> [] | Some fm \<Rightarrow> [(''file_meta'', enc_FileMeta fm)]) st =
    Some (st\<lparr>msg_FileMeta := msg_FileMeta m, st_chunks := t\<rparr>)"
proof (cases "msg_FileMeta m")
  case None
  then show ?thesis using assms(2) by (intro exI [of _ "st_chunks st"]) (cases st, simp add: dec_part_Nil)
next
  case (Some fm)
  then obtain t where t: "dec_FileMeta (enc_FileMeta fm) (FileMeta_zero, []) = Some (fm, t)"
    using assms(1) dec_FileMeta_enc by (auto simp: message_ok_def)
  have "enc_FileMeta fm \<noteq> JtNull" by (simp add: enc_FileMeta_def enc_struct_def)
  then have "put_Message env ''file_meta'' (enc_FileMeta fm) st = Some (st\<lparr>msg_FileMeta := Some fm, st_chunks := t\<rparr>)"
    using t assms(2) by (simp add: put_Message_def)
  then show ?thesis using Some by (auto simp: dec_part_field dec_part_Nil message_names_def)
qed

lemma message_fields_dec:
  assumes ok: "message_ok env m"
    and enc: "enc_list (enc_Contact env) (msg_Nodes m) = Inr ns" "enc_list (enc_Contact env) (msg_Providers m) = Inr ps"
  shows "\<exists>st. dec_part env (message_fields m ns ps) (Message.extend Message_zero (msg_state.fields [] [] [] [])) = Some st \<and>
    Message.truncate st = wire_image m"
proof -
  define s0 where "s0 = Message.extend Message_zero (msg_state.fields [] [] [] [])"
  define s1 where "s1 = s0\<lparr>msg_Type := msg_Type m, msg_From := msg_From m, msg_Timestamp := msg_Timestamp m\<rparr>"
  define s2 where "s2 = s1\<lparr>msg_Target := msg_Target m\<rparr>"
  note d2 = s2_def s1_def s0_def Message.defs msg_state.defs Message_zero_def
  have u: "utf8_valid (msg_ChunkID m)" "utf8_valid (msg_FileRoot m)" "utf8_valid (msg_NodeAddr m)" "utf8_valid (msg_Error m)"
    "utf8_valid (msg_RequestID m)" and c: "list_all (contact_ok env) (msg_Nodes m)" "list_all (contact_ok env) (msg_Providers m)"
    using ok by (simp_all add: message_ok_def)
  have p1: "dec_part env (case msg_Target m of None \<Rightarrow> [] | Some i \<Rightarrow> [(''target'', enc_ID i)]) s1 = Some s2"
    unfolding s2_def by (rule dec_part_target) (simp add: d2)
  have "msg_Nodes s2 = []" by (simp add: d2)
  from dec_part_lists(1) [OF c(1) enc(1) this] obtain t3 where
    p2: "dec_part env (opt_list ''nodes'' ns) s2 = Some (s2\<lparr>msg_Nodes := msg_Nodes m, st_nodes := t3\<rparr>)" by blast
  define s3 where "s3 = s2\<lparr>msg_Nodes := msg_Nodes m, st_nodes := t3\<rparr>"
  define s4 where "s4 = s3\<lparr>msg_ChunkID := msg_ChunkID m\<rparr>"
  define s5 where "s5 = s4\<lparr>msg_ChunkData := msg_ChunkData (wire_image m)\<rparr>"
  define s6 where "s6 = s5\<lparr>msg_FileRoot := msg_FileRoot m\<rparr>"
  note d6 = s6_def s5_def s4_def s3_def d2
  have p3: "dec_part env (opt_string ''chunk_id'' (msg_ChunkID m)) s3 = Some s4"
    unfolding s4_def by (rule dec_part_strings [OF u(1)]) (simp add: d6)
  have p4: "dec_part env (case msg_ChunkData m of None \<Rightarrow> [] | Some d \<Rightarrow> if d = [] then [] else [(''chunk_data'', enc_bytes d)]) s4 = Some s5"
    unfolding s5_def by (rule dec_part_data) (simp_all add: d6)
  have p5: "dec_part env (opt_string ''file_root'' (msg_FileRoot m)) s5 = Some s6"
    unfolding s6_def by (rule dec_part_strings [OF u(2)]) (simp add: d6)
  have "msg_Providers s6 = []" by (simp add: d6)
  from dec_part_lists(2) [OF c(2) enc(2) this] obtain t7 where
    p6: "dec_part env (opt_list ''providers'' ps) s6 = Some (s6\<lparr>msg_Providers := msg_Providers m, st_providers := t7\<rparr>)" by blast
  define s7 where "s7 = s6\<lparr>msg_Providers := msg_Providers m, st_providers := t7\<rparr>"
  have "msg_FileMeta s7 = None" by (simp add: s7_def d6)
  from dec_part_file_meta [OF ok this] obtain t8 where
    p7: "dec_part env (case msg_FileMeta m of None \<Rightarrow> [] | Some fm \<Rightarrow> [(''file_meta'', enc_FileMeta fm)]) s7 =
      Some (s7\<lparr>msg_FileMeta := msg_FileMeta m, st_chunks := t8\<rparr>)" by blast
  define s8 where "s8 = s7\<lparr>msg_FileMeta := msg_FileMeta m, st_chunks := t8\<rparr>"
  define s9 where "s9 = s8\<lparr>msg_NodeAddr := msg_NodeAddr m\<rparr>"
  define s10 where "s10 = s9\<lparr>msg_Error := msg_Error m\<rparr>"
  define s11 where "s11 = s10\<lparr>msg_RequestID := msg_RequestID m\<rparr>"
  note d11 = s11_def s10_def s9_def s8_def s7_def d6
  have p8: "dec_part env (opt_string ''node_addr'' (msg_NodeAddr m)) s8 = Some s9"
    unfolding s9_def by (rule dec_part_strings [OF u(3)]) (simp add: d11)
  have p9: "dec_part env (opt_string ''error'' (msg_Error m)) s9 = Some s10"
    unfolding s10_def by (rule dec_part_strings [OF u(4)]) (simp add: d11)
  have p10: "dec_part env (opt_string ''req_id'' (msg_RequestID m)) s10 = Some s11"
    unfolding s11_def by (rule dec_part_strings [OF u(5)]) (simp add: d11)
  note ps = p1 p2 [folded s3_def] p3 p4 p5 p6 [folded s7_def] p7 [folded s8_def] p8 p9
  have "dec_part env (message_fields m ns ps) s0 = Some s11"
    unfolding message_fields_def dec_part_head [OF ok] s1_def [symmetric]
    by (simp only: ps [THEN dec_part_append] p10)
  moreover have "Message.truncate s11 = wire_image m" by (cases m) (simp add: d11 wire_image_def)
  ultimately show ?thesis unfolding s0_def by blast
qed

lemma message_struct_ok:
  assumes ok: "message_ok env m"
    and enc: "enc_list (enc_Contact env) (msg_Nodes m) = Inr ns" "enc_list (enc_Contact env) (msg_Providers m) = Inr ps"
  shows "json_wf (enc_struct (message_fields m ns ps)) \<and> json_depth (enc_struct (message_fields m ns ps)) \<le> 5"
proof -
  have "list_all (contact_ok env) (msg_Nodes m)" "list_all (contact_ok env) (msg_Providers m)" using ok by (simp_all add: message_ok_def)
  from this [THEN j_contact.enc_list_ok] enc
  have l: "json_wf (JtArr ns)" "json_depth (JtArr ns) \<le> 3" "json_wf (JtArr ps)" "json_depth (JtArr ps) \<le> 3" by auto
  have fm: "json_wf (enc_FileMeta fm) \<and> json_depth (enc_FileMeta fm) \<le> 4" if "msg_FileMeta m = Some fm" for fm
    using ok that enc_FileMeta_wf enc_FileMeta_depth by (simp add: message_ok_def)
  have i: "json_depth (enc_ID j) \<le> 4" for j using enc_ID_ok(2) [of j] by linarith
  have "list_all (\<lambda>kv. json_wf (snd kv) \<and> json_depth (snd kv) \<le> 4) (message_fields m ns ps)"
    using l fm i
    by (auto simp: message_fields_def opt_string_def opt_list_def enc_ID_ok(1) enc_string_ok enc_bytes_ok num_literal_itoa
        simp del: json_depth.simps(1) json_wf.simps(3) split: option.splits)
  then show ?thesis using enc_struct_depth [of _ 4] by (simp add: enc_struct_wf list_all_iff)
qed

lemma Message_Encode_ok:
  assumes "message_ok env m"
  obtains ns ps where "enc_list (enc_Contact env) (msg_Nodes m) = Inr ns" and "enc_list (enc_Contact env) (msg_Providers m) = Inr ps"
    and "Message_Encode env m = Inr (string_bytes (json_print (enc_struct (message_fields m ns ps))))"
proof -
  have "list_all (contact_ok env) (msg_Nodes m)" "list_all (contact_ok env) (msg_Providers m)"
    using assms by (simp_all add: message_ok_def)
  from this [THEN j_contact.enc_list_ok] that show ?thesis by (auto simp: Message_Encode_def)
qed

lemma message_roundtrip:
  assumes "message_ok env m"
  shows "\<exists>b. Message_Encode env m = Inr b \<and> DecodeMessage env b = Inr (wire_image m)"
proof -
  obtain ns ps where e: "enc_list (enc_Contact env) (msg_Nodes m) = Inr ns" "enc_list (enc_Contact env) (msg_Providers m) = Inr ps"
    and b: "Message_Encode env m = Inr (string_bytes (json_print (enc_struct (message_fields m ns ps))))"
    by (rule Message_Encode_ok [OF assms])
  from message_struct_ok [OF assms e] have "json_parse (json_print (enc_struct (message_fields m ns ps))) = Some (enc_struct (message_fields m ns ps))"
    by (intro json_parse_print) (simp_all add: maxNestingDepth_def)
  moreover obtain st where "dec_part env (message_fields m ns ps) (Message.extend Message_zero (msg_state.fields [] [] [] [])) = Some st"
    "Message.truncate st = wire_image m" using message_fields_dec [OF assms e] by blast
  ultimately show ?thesis using b by (simp add: DecodeMessage_def enc_struct_def dec_part_def)
qed

section \<open>Properties\<close>

text \<open>
  C6: \<^verbatim>\<open>DecodeMessage\<close> undoes \<^verbatim>\<open>Encode\<close>. Every message whose strings are UTF-8, whose integers have 64 bits and whose times
  \<^verbatim>\<open>time.MarshalJSON\<close> accepts is encoded, and the bytes are decoded to the same message, in whatever time zone
  the sender runs; the only loss is a chunk of no bytes, which \<^verbatim>\<open>omitempty\<close> drops.
\<close>

theorem message_json_roundtrip:
  assumes "message_ok env m"
  shows "\<exists>b. Message_Encode env m = Inr b \<and>
    DecodeMessage env b = Inr (if msg_ChunkData m = Some [] then m\<lparr>msg_ChunkData := None\<rparr> else m)"
  using message_roundtrip [OF assms] by (simp add: wire_image_def)

theorem message_json_roundtrip_witness:
  "\<exists>b. Message_Encode utc_env (Message_zero\<lparr>msg_Type := ''a<b'', msg_Timestamp := -5, msg_Target := Some ID_zero, msg_ChunkData := Some [255, 0]\<rparr>) = Inr b \<and>
     DecodeMessage utc_env b = Inr (Message_zero\<lparr>msg_Type := ''a<b'', msg_Timestamp := -5, msg_Target := Some ID_zero, msg_ChunkData := Some [255, 0]\<rparr>)"
proof -
  have "utf8_valid ''a<b''" by (rule utf8_valid_ascii) simp
  then have "message_ok utc_env (Message_zero\<lparr>msg_Type := ''a<b'', msg_Timestamp := -5, msg_Target := Some ID_zero, msg_ChunkData := Some [255, 0]\<rparr>)"
    by (simp add: message_ok_def Message_zero_def int64_range_def)
  from message_json_roundtrip [OF this] show ?thesis by simp
qed

end
