(* ===== verification/Json_Rpc.thy ===== *)
theory Json_Rpc
  imports Json_Codec Wire_Codec "HOL-Library.List_Lexorder"
begin

text \<open>
  The JSON form of an RPC, \<^verbatim>\<open>internal/p2p/types.go\<close> as \<^verbatim>\<open>internal/p2p/codec.go\<close> marshals it: the struct has no tags, so every field is
  written under its own name, the payload in base64. The dynamic values of \<^verbatim>\<open>Meta\<close> keep a
  number as the text the encoder writes for it. A nil payload is the empty one.

  Lemmas: an RPC that carries a payload only, which is all the program sends, is read back as it is; the
  exact length of its text, and so which payloads fit into a frame.
\<close>

section \<open>Dynamic values\<close>

fun enc_any :: "json \<Rightarrow> jtext" where
  "enc_any JNull = JtNull"
| "enc_any (JBool b) = JtBool b"
| "enc_any (JNumber n) = JtNum n"
| "enc_any (JString s) = enc_string s"
| "enc_any (JArray vs) = JtArr (map enc_any vs)"
| "enc_any (JObject kvs) = enc_struct (sort_key (map nat_of \<circ> fst) (map (\<lambda>(k, v). (k, enc_any v)) kvs))"

fun dec_any :: "json_env \<Rightarrow> jtext \<Rightarrow> json option"
  and dec_anys :: "json_env \<Rightarrow> jtext list \<Rightarrow> json list option"
  and dec_members :: "json_env \<Rightarrow> (string \<times> json) list \<Rightarrow> (string \<times> jtext) list \<Rightarrow> (string \<times> json) list option" where
  "dec_any env JtNull = Some JNull"
| "dec_any env (JtBool b) = Some (JBool b)"
| "dec_any env (JtNum lit) = map_option JNumber (je_Float env lit)"
| "dec_any env (JtStr raw) = Some (JString (unquote raw))"
| "dec_any env (JtArr vs) = map_option JArray (dec_anys env vs)"
| "dec_any env (JtObj kvs) = map_option JObject (dec_members env [] kvs)"
| "dec_anys env [] = Some []"
| "dec_anys env (v # vs) =
     (case dec_any env v of None \<Rightarrow> None | Some x \<Rightarrow> map_option (Cons x) (dec_anys env vs))"
| "dec_members env m [] = Some m"
| "dec_members env m ((k, v) # kvs) =
     (case dec_any env v of None \<Rightarrow> None | Some x \<Rightarrow> dec_members env (AList.update (unquote k) x m) kvs)"

fun dec_Meta :: "json_env \<Rightarrow> jtext \<Rightarrow> (string \<times> json) list option \<Rightarrow> (string \<times> json) list option option" where
  "dec_Meta env JtNull m = Some None"
| "dec_Meta env (JtObj kvs) m = map_option Some (dec_members env (case m of None \<Rightarrow> [] | Some a \<Rightarrow> a) kvs)"
| "dec_Meta env _ m = None"

section \<open>RPCs\<close>

definition rpc_fields :: "RPC \<Rightarrow> (string \<times> jtext) list" where
  "rpc_fields r =
     [(''From'', enc_string (rpc_From r)), (''Stream'', JtBool (rpc_Stream r)),
      (''Payload'', if rpc_Payload r = [] then JtNull else enc_bytes (rpc_Payload r)),
      (''Meta'', case rpc_Meta r of None \<Rightarrow> JtNull | Some m \<Rightarrow> enc_any (JObject m))]"

definition rpc_Marshal :: "RPC \<Rightarrow> bytes result" where
  "rpc_Marshal r = Inr (string_bytes (json_print (enc_struct (rpc_fields r))))"

definition put_RPC :: "json_env \<Rightarrow> string \<Rightarrow> jtext \<Rightarrow> RPC \<times> bytes \<Rightarrow> (RPC \<times> bytes) option" where
  "put_RPC env f v r =
     (if f = ''From'' then map_option (\<lambda>x. apfst (rpc_From_update (\<lambda>_. x)) r) (dec_string v (rpc_From (fst r)))
      else if f = ''Stream'' then map_option (\<lambda>x. apfst (rpc_Stream_update (\<lambda>_. x)) r) (dec_bool v (rpc_Stream (fst r)))
      else if f = ''Payload'' then
        map_option (\<lambda>x. ((fst r)\<lparr>rpc_Payload := case fst x of None \<Rightarrow> [] | Some b \<Rightarrow> b\<rparr>, snd x))
          (dec_bytes v (Some (rpc_Payload (fst r)), snd r))
      else map_option (\<lambda>x. apfst (rpc_Meta_update (\<lambda>_. x)) r) (dec_Meta env v (rpc_Meta (fst r))))"

definition rpc_Unmarshal :: "json_env \<Rightarrow> bytes \<Rightarrow> RPC result" where
  "rpc_Unmarshal env b =
     (case json_parse (bytes_string b) of
        None \<Rightarrow> Inl json_error
      | Some v \<Rightarrow>
          (case dec_struct [''From'', ''Stream'', ''Payload'', ''Meta''] (put_RPC env) v (payload_rpc [], []) of
             None \<Rightarrow> Inl json_error
           | Some r \<Rightarrow> Inr (fst r)))"

definition json_rpc :: "json_env \<Rightarrow> rpc_json" where
  "json_rpc env = \<lparr>rj_Marshal = rpc_Marshal, rj_Unmarshal = rpc_Unmarshal env\<rparr>"

section \<open>Payloads are read back\<close>

lemma rpc_roundtrip: "rpc_Unmarshal env (string_bytes (json_print (enc_struct (rpc_fields (payload_rpc p))))) = Inr (payload_rpc p)"
proof -
  let ?v = "enc_struct (rpc_fields (payload_rpc p))"
  have "json_wf ?v" unfolding enc_struct_wf by (simp add: rpc_fields_def payload_rpc_def enc_string_ok enc_bytes_ok)
  moreover have "json_depth ?v \<le> Suc 0" unfolding enc_struct_depth by (simp add: rpc_fields_def payload_rpc_def enc_string_ok enc_bytes_ok)
  ultimately have "json_parse (json_print ?v) = Some ?v" by (intro json_parse_print) (simp_all add: maxNestingDepth_def)
  then show ?thesis
    by (simp add: rpc_Unmarshal_def enc_struct_def rpc_fields_def field_of_def put_RPC_def plain_json_def payload_rpc_def enc_string_ok
        enc_bytes_ok)
qed

text \<open>The text is the payload in base64 and 51 characters around it.\<close>

lemma quote_b64: "quote (b64_encode bs) = b64_encode bs"
  by (rule quote_plain_json [OF b64_plain])

lemma rpc_length:
  assumes "p \<noteq> []"
  shows "length (string_bytes (json_print (enc_struct (rpc_fields (payload_rpc p))))) = 51 + 4 * ((length p + 2) div 3)"
  using assms
  by (simp add: string_bytes_def enc_struct_def rpc_fields_def payload_rpc_def enc_string_def enc_bytes_def quote_b64 quote_plain_json plain_json_def)

end
