(* ===== verification/Node_Flags.thy ===== *)
theory Node_Flags
  imports Node_Main Json_Message Json_Rpc
begin

text \<open>
  The command line of \<^verbatim>\<open>cmd/node/main.go\<close>: the twelve flags that \<^verbatim>\<open>main\<close> declares, \<^verbatim>\<open>flag.Parse\<close> with the syntax of the \<^verbatim>\<open>flag\<close>
  package (one or two dashes, the value behind \<^verbatim>\<open>=\<close> or in the next argument, \<^verbatim>\<open>--\<close> and the first non-flag
  end the flags, an error ends the process), integer values as \<^verbatim>\<open>strconv.ParseInt\<close> with base 0 reads them, and the whole
  program from its arguments on, over the JSON encodings.

  Lemmas: every setting of the flags can be written on the command line, in either form, and is
  read back.
\<close>

section \<open>Integer values\<close>

definition lower_char :: "char \<Rightarrow> char" where
  "lower_char c = (if 65 \<le> nat_of c \<and> nat_of c \<le> 90 then char_of (nat_of c + 32) else c)"

definition digit36 :: "char \<Rightarrow> nat option" where
  "digit36 c =
     (let n = nat_of (lower_char c) in
      if 48 \<le> n \<and> n \<le> 57 then Some (n - 48) else if 97 \<le> n \<and> n \<le> 122 then Some (n - 87) else None)"

fun base_val :: "nat \<Rightarrow> nat \<Rightarrow> string \<Rightarrow> nat option" where
  "base_val base n [] = Some n"
| "base_val base n (c # cs) =
     (if c = CHR ''_'' then base_val base n cs
      else case digit36 c of
             None \<Rightarrow> None
           | Some d \<Rightarrow> if base \<le> d \<or> 2 ^ 64 - 1 < n * base + d then None else base_val base (n * base + d) cs)"

text \<open>The base that a prefix announces, and the digits behind it.\<close>

definition base_prefix :: "string \<Rightarrow> nat \<times> string" where
  "base_prefix s =
     (if take 1 s \<noteq> ''0'' then (10, s)
      else if 3 \<le> length s \<and> lower_char (s ! 1) = CHR ''b'' then (2, drop 2 s)
      else if 3 \<le> length s \<and> lower_char (s ! 1) = CHR ''o'' then (8, drop 2 s)
      else if 3 \<le> length s \<and> lower_char (s ! 1) = CHR ''x'' then (16, drop 2 s)
      else (8, drop 1 s))"

text \<open>Underscores must separate digits; \<open>prev\<close> is the kind of the character before, as in \<^verbatim>\<open>underscoreOK\<close>.\<close>

fun underscore_loop :: "bool \<Rightarrow> char \<Rightarrow> string \<Rightarrow> bool" where
  "underscore_loop hex prev [] = (prev \<noteq> CHR ''_'')"
| "underscore_loop hex prev (c # cs) =
     (if digit_val c \<noteq> None \<or> hex \<and> 97 \<le> nat_of (lower_char c) \<and> nat_of (lower_char c) \<le> 102
      then underscore_loop hex (CHR ''0'') cs
      else if c = CHR ''_'' then (if prev \<noteq> CHR ''0'' then False else underscore_loop hex (CHR ''_'') cs)
      else if prev = CHR ''_'' then False
      else underscore_loop hex (CHR ''!'') cs)"

definition underscoreOK :: "string \<Rightarrow> bool" where
  "underscoreOK s =
     (if 2 \<le> length s \<and> s ! 0 = CHR ''0'' \<and> lower_char (s ! 1) \<in> set ''box''
      then underscore_loop (lower_char (s ! 1) = CHR ''x'') (CHR ''0'') (drop 2 s)
      else underscore_loop False (CHR ''^'') s)"

definition parse_uint0 :: "string \<Rightarrow> nat option" where
  "parse_uint0 s =
     (if s = [] then None
      else case base_prefix s of
             (base, ds) \<Rightarrow>
               (case base_val base 0 ds of
                  None \<Rightarrow> None
                | Some n \<Rightarrow> if CHR ''_'' \<in> set ds \<and> \<not> underscoreOK s then None else Some n))"

definition ParseInt0 :: "string \<Rightarrow> int option" where
  "ParseInt0 s =
     (let neg = (take 1 s = ''-''); ds = (if take 1 s = ''-'' \<or> take 1 s = ''+'' then drop 1 s else s)
      in case parse_uint0 ds of
           None \<Rightarrow> None
         | Some n \<Rightarrow>
             if \<not> neg \<and> 2 ^ 63 \<le> n \<or> neg \<and> 2 ^ 63 < n then None else Some (if neg then - int n else int n))"

section \<open>Flags\<close>

definition flag_names :: "string list" where
  "flag_names =
     [''listen'', ''bootstrap'', ''lookup'', ''store-to'', ''store-data'', ''fetch-from'', ''fetch-chunk'', ''store-file'',
      ''chunk-size'', ''download-root'', ''out'', ''ec'']"

definition set_flag :: "string \<Rightarrow> string \<Rightarrow> flags \<Rightarrow> flags option" where
  "set_flag name v fl =
     (if name = ''listen'' then Some (fl\<lparr>f_listen := v\<rparr>)
      else if name = ''bootstrap'' then Some (fl\<lparr>f_bootstrap := v\<rparr>)
      else if name = ''lookup'' then Some (fl\<lparr>f_lookup := v\<rparr>)
      else if name = ''store-to'' then Some (fl\<lparr>f_storeTo := v\<rparr>)
      else if name = ''store-data'' then Some (fl\<lparr>f_storeData := v\<rparr>)
      else if name = ''fetch-from'' then Some (fl\<lparr>f_fetchFrom := v\<rparr>)
      else if name = ''fetch-chunk'' then Some (fl\<lparr>f_fetchChunk := v\<rparr>)
      else if name = ''store-file'' then Some (fl\<lparr>f_storeFile := v\<rparr>)
      else if name = ''chunk-size'' then map_option (\<lambda>i. fl\<lparr>f_chunkSize := i\<rparr>) (ParseInt0 v)
      else if name = ''download-root'' then Some (fl\<lparr>f_downloadRoot := v\<rparr>)
      else if name = ''out'' then Some (fl\<lparr>f_out := v\<rparr>)
      else Some (fl\<lparr>f_ec := v\<rparr>))"

datatype flag_error =
    BadSyntax string
  | NotDefined string
  | ErrHelp
  | NeedsArgument string
  | InvalidValue string string

text \<open>The name up to an equals sign that is not its first character, and the value behind it.\<close>

definition flag_parts :: "string \<Rightarrow> string \<times> string option" where
  "flag_parts s =
     (case s of
        [] \<Rightarrow> ([], None)
      | c # r \<Rightarrow>
          (c # takeWhile (\<lambda>x. x \<noteq> CHR ''='') r,
           if CHR ''='' \<in> set r then Some (tl (dropWhile (\<lambda>x. x \<noteq> CHR ''='') r)) else None))"

fun flag_Parse :: "string list \<Rightarrow> flags \<Rightarrow> flag_error + flags \<times> string list" where
  "flag_Parse [] fl = Inr (fl, [])"
| "flag_Parse (s # args) fl =
     (if length s < 2 \<or> s ! 0 \<noteq> CHR ''-'' then Inr (fl, s # args)
      else if s = ''--'' then Inr (fl, args)
      else
        let rest = (if s ! 1 = CHR ''-'' then drop 2 s else drop 1 s)
        in if rest ! 0 = CHR ''-'' \<or> rest ! 0 = CHR ''='' then Inl (BadSyntax s)
           else
             (case flag_parts rest of
                (name, v) \<Rightarrow>
                  if name \<notin> set flag_names then Inl (if name = ''help'' \<or> name = ''h'' then ErrHelp else NotDefined name)
                  else
                    (case v of
                       Some value \<Rightarrow>
                         (case set_flag name value fl of
                            None \<Rightarrow> Inl (InvalidValue value name)
                          | Some fl' \<Rightarrow> flag_Parse args fl')
                     | None \<Rightarrow>
                         (case args of
                            [] \<Rightarrow> Inl (NeedsArgument name)
                          | value # args' \<Rightarrow>
                              (case set_flag name value fl of
                                 None \<Rightarrow> Inl (InvalidValue value name)
                               | Some fl' \<Rightarrow> flag_Parse args' fl')))))"

section \<open>The program\<close>

text \<open>An error of \<^verbatim>\<open>flag.Parse\<close> ends the process with status 2, a request for help with status 0.\<close>

datatype process = ExitStatus nat | Ran exit "node option"

definition node_main :: "json_env \<Rightarrow> rs_lib \<Rightarrow> main_env \<Rightarrow> string list \<Rightarrow> process option" where
  "node_main je rs en args =
     (case flag_Parse args default_flags of
        Inl e \<Rightarrow> Some (ExitStatus (if e = ErrHelp then 0 else 2))
      | Inr (fl, _) \<Rightarrow>
          (case main_run (json_codec je) (json_rpc je) rs en fl of
             None \<Rightarrow> None
           | Some (x, sv) \<Rightarrow> Some (Ran x sv)))"

section \<open>What is written is read back\<close>

lemma digit36_digit_char: "d < 10 \<Longrightarrow> digit36 (digit_char d) = Some d \<and> digit_char d \<noteq> CHR ''_''"
proof -
  have "\<forall>d \<in> set [0..<10]. digit36 (digit_char d) = Some d \<and> digit_char d \<noteq> CHR ''_''"
    by (simp add: upt_rec digit36_def digit_char_def lower_char_def)
  then show "d < 10 \<Longrightarrow> ?thesis" by simp
qed

lemma base_val_append: "base_val b n (s @ t) = (case base_val b n s of None \<Rightarrow> None | Some m \<Rightarrow> base_val b m t)"
  by (induction s arbitrary: n) (auto split: option.splits)

lemma base_val_nat_str: "n < 2 ^ 64 \<Longrightarrow> base_val 10 0 (nat_str n) = Some n"
proof (induction n rule: nat_str.induct)
  case (1 n)
  show ?case
  proof (cases "n < 10")
    case True
    then show ?thesis using digit36_digit_char [of n] by (simp add: nat_str.simps [of n])
  next
    case False
    then have "base_val 10 0 (nat_str (n div 10)) = Some (n div 10)" using 1 by simp
    moreover have "n div 10 * 10 + n mod 10 = n" by simp
    ultimately show ?thesis
      using 1(2) False digit36_digit_char [of "n mod 10"] by (simp add: nat_str.simps [of n] base_val_append del: div_mult_mod_eq)
  qed
qed

lemma nat_str_plain: "CHR ''_'' \<notin> set (nat_str n)" "take 1 (nat_str n) \<noteq> ''-''" "take 1 (nat_str n) \<noteq> ''+''"
  using nat_str_is_digit [of _ n] by (cases "nat_str n"; force simp: is_digit_def digit_val_def)+

lemma parse_uint0_nat_str: "n < 2 ^ 64 \<Longrightarrow> parse_uint0 (nat_str n) = Some n"
proof (cases "n = 0")
  case True
  then show ?thesis by (simp add: nat_str.simps digit_char_def parse_uint0_def base_prefix_def)
next
  case False
  assume n: "n < 2 ^ 64"
  have "take 1 (nat_str n) \<noteq> ''0''" using nat_str_hd_0 [of n] False by (cases "nat_str n") auto
  then show ?thesis using base_val_nat_str [OF n] nat_str_plain(1) by (simp add: parse_uint0_def base_prefix_def)
qed

lemma ParseInt0_itoa:
  assumes "int64_range i"
  shows "ParseInt0 (itoa i) = Some i"
proof (cases "i < 0")
  case True
  then have "nat (- i) < 2 ^ 64" "nat (- i) \<le> 2 ^ 63" using assms by (auto simp: int64_range_def nat_less_iff nat_le_iff)
  with True show ?thesis by (simp add: ParseInt0_def itoa_def parse_uint0_nat_str Let_def)
next
  case False
  then have "nat i < 2 ^ 64" "nat i < 2 ^ 63" using assms by (auto simp: int64_range_def nat_less_iff)
  with False nat_str_plain(2,3) [of "nat i"] show ?thesis by (simp add: ParseInt0_def itoa_def parse_uint0_nat_str Let_def)
qed

text \<open>The two forms in which a flag can be given.\<close>

definition render :: "bool \<Rightarrow> string \<times> string \<Rightarrow> string list" where
  "render eq kv = (if eq then [CHR ''-'' # fst kv @ CHR ''='' # snd kv] else [''--'' @ fst kv, snd kv])"

definition settings :: "flags \<Rightarrow> (string \<times> string) list" where
  "settings fl =
     [(''listen'', f_listen fl), (''bootstrap'', f_bootstrap fl), (''lookup'', f_lookup fl), (''store-to'', f_storeTo fl),
      (''store-data'', f_storeData fl), (''fetch-from'', f_fetchFrom fl), (''fetch-chunk'', f_fetchChunk fl),
      (''store-file'', f_storeFile fl), (''chunk-size'', itoa (f_chunkSize fl)), (''download-root'', f_downloadRoot fl),
      (''out'', f_out fl), (''ec'', f_ec fl)]"

lemma flag_names_plain:
  assumes "k \<in> set flag_names"
  obtains c r where "k = c # r" "c \<noteq> CHR ''-''" "c \<noteq> CHR ''=''" "CHR ''='' \<notin> set r"
proof -
  have "list_all (\<lambda>k. k \<noteq> [] \<and> hd k \<noteq> CHR ''-'' \<and> hd k \<noteq> CHR ''='' \<and> CHR ''='' \<notin> set (tl k)) flag_names" by (simp add: flag_names_def)
  with assms have "k \<noteq> []" "hd k \<noteq> CHR ''-''" "hd k \<noteq> CHR ''=''" "CHR ''='' \<notin> set (tl k)" by (simp_all add: list_all_iff)
  then show thesis using that [of "hd k" "tl k"] by simp
qed

lemma split_at_eq:
  assumes "c \<notin> set r"
  shows "takeWhile (\<lambda>x. x \<noteq> c) (r @ c # v) = r" "dropWhile (\<lambda>x. x \<noteq> c) (r @ c # v) = c # v" "takeWhile (\<lambda>x. x \<noteq> c) r = r" "dropWhile (\<lambda>x. x \<noteq> c) r = []"
  using assms by (induction r) auto

lemma flag_Parse_render:
  assumes "k \<in> set flag_names" and "set_flag k v fl = Some fl'"
  shows "flag_Parse (render eq (k, v) @ args) fl = flag_Parse args fl'"
proof -
  obtain c r where k: "k = c # r" "c \<noteq> CHR ''-''" "c \<noteq> CHR ''=''" "CHR ''='' \<notin> set r" using flag_names_plain [OF assms(1)] .
  then have "flag_parts (k @ CHR ''='' # v) = (k, Some v)" "flag_parts k = (k, None)" by (simp_all add: flag_parts_def split_at_eq)
  then show ?thesis using assms k(1-3) by (simp add: render_def)
qed

section \<open>Properties\<close>

text \<open>
  C39: every setting of the twelve flags can be given on the command line: whichever of the two forms each flag is written in (\<^verbatim>\<open>-name=value\<close>
  or \<^verbatim>\<open>--name value\<close>), whatever the values contain (dashes, equals signs, nothing at all) and whatever was set before, \<^verbatim>\<open>flag.Parse\<close>
  accepts the arguments, yields exactly these settings and leaves what follows a \<^verbatim>\<open>--\<close>.
\<close>

theorem flags_roundtrip:
  assumes "int64_range (f_chunkSize fl)" and "length eqs = 12"
  shows "flag_Parse (concat (map2 render eqs (settings fl)) @ ''--'' # args) fl0 = Inr (fl, args)"
proof -
  obtain b1 b2 b3 b4 b5 b6 b7 b8 b9 b10 b11 b12 where e: "eqs = [b1, b2, b3, b4, b5, b6, b7, b8, b9, b10, b11, b12]"
    using assms(2) by (auto simp: numeral_eq_Suc length_Suc_conv)
  have "ParseInt0 (itoa (f_chunkSize fl)) = Some (f_chunkSize fl)" by (rule ParseInt0_itoa [OF assms(1)])
  then show ?thesis
    by (simp add: e settings_def flag_Parse_render flag_names_def set_flag_def del: flag_Parse.simps(2)) simp
qed

theorem flags_roundtrip_witness:
  "\<exists>args. flag_Parse args default_flags = Inr (default_flags\<lparr>f_storeFile := ''-a=b'', f_chunkSize := 65536\<rparr>, [''x''])"
  using flags_roundtrip [of "default_flags\<lparr>f_storeFile := ''-a=b'', f_chunkSize := 65536\<rparr>" "replicate 12 True" "[''x'']" default_flags]
  by (auto simp: int64_range_def default_flags_def)

end
