(* ===== verification/Json_Typed.thy ===== *)
theory Json_Typed
  imports Json_Message
begin

text \<open>
  What a decoded message looks like, whatever bytes a peer sent: \<^verbatim>\<open>DecodeMessage\<close> of \<^verbatim>\<open>internal/dht/node.go\<close> only yields
  messages whose strings are UTF-8 and whose integers have 64 bits, so that a node can pass them on.

  Lemmas: \<open>unquote\<close> of a literal that the lexer accepted is UTF-8; the literals of a parsed tree are such literals; the locale
  \<open>json_keeps\<close> is the contract of a decoder that keeps a predicate, carried over to the
  sequences of its type and interpreted for the types of a message.
\<close>

section \<open>Literals become UTF-8\<close>

text \<open>A backslash is followed by an ASCII character, and by four more after a \<^verbatim>\<open>u\<close>.\<close>

fun escapes :: "string \<Rightarrow> bool" where
  "escapes [] = True"
| "escapes (c # s) =
     (if c = bslash then
        (case s of [] \<Rightarrow> True | e # s' \<Rightarrow> if e = CHR ''u'' then escapes (drop 4 s') else nat_of e < 128 \<and> escapes s')
      else escapes s)"

lemma simple_escape_ascii: "simple_escape e \<Longrightarrow> nat_of e < 128 \<and> e \<noteq> CHR ''u''"
  by (auto simp: simple_escape_def)

lemma scan_str_escapes: "scan_str s = Some (raw, r) \<Longrightarrow> escapes raw"
proof (induction s arbitrary: raw rule: scan_str.induct)
  case (2 c s)
  show ?case
  proof (cases "c = bslash")
    case True
    then obtain e s' where s: "s = e # s'" using "2.prems" by (cases s) auto
    show ?thesis
    proof (cases "simple_escape e")
      case True
      with \<open>c = bslash\<close> s "2.prems" obtain b where b: "scan_str s' = Some (b, r)" "raw = c # e # b" by auto
      from "2.IH"(1) [OF _ \<open>c = bslash\<close> s True b(1)] simple_escape_ascii [OF True] b(2) \<open>c = bslash\<close> show ?thesis by simp
    next
      case False
      with \<open>c = bslash\<close> s "2.prems" obtain b where u: "e = CHR ''u'' \<and> 4 \<le> length s' \<and> list_all is_hex (take 4 s')"
        "scan_str (drop 4 s') = Some (b, r)" "raw = c # e # take 4 s' @ b" by (auto split: if_splits)
      from "2.IH"(2) [OF _ \<open>c = bslash\<close> s False u(1,2)] u(1,3) \<open>c = bslash\<close> show ?thesis by simp
    qed
  next
    case False
    then show ?thesis using 2 by (force split: if_splits)
  qed
qed simp

lemma escapes_high: "\<forall>c \<in> set r. 128 \<le> nat_of c \<Longrightarrow> escapes (r @ t) = escapes t"
  by (induction r) auto

lemma utf8_valid_rune: "rune_str r \<Longrightarrow> utf8_valid (r @ t) = utf8_valid t"
proof -
  assume r: "rune_str r"
  then obtain c q where "r = c # q" using rune_ok_length [OF r] by (cases r) auto
  with rune_len_rune [OF r, of t] show ?thesis by (simp add: utf8_valid.simps(2))
qed

lemma EncodeRune_rune:
  assumes "n < 0x110000" and "n < 0xD800 \<or> 0xE000 \<le> n"
  shows "rune_str (EncodeRune n)"
proof -
  have c: "x < 256 \<Longrightarrow> of_char (char_of x :: char) = x" for x :: nat by simp
  have m: "cont (128 + x mod 64)" "128 + x mod 64 < 256" for x :: nat
    using mod_less_divisor [of 64 x] by (auto simp: cont_def less_imp_le_nat)
  have d: "64 * (x div 64) + x mod 64 = x" for x :: nat by (rule mult_div_mod_eq)
  have p: "n div 4096 = n div 64 div 64" "n div 262144 = n div 64 div 64 div 64" by (simp_all flip: div_mult2_eq)
  consider "n < 0x80" | "0x80 \<le> n" "n < 0x800" | "0x800 \<le> n" "n < 0x10000" | "0x10000 \<le> n" by linarith
  then show ?thesis
  proof cases
    case 2
    then have "2 \<le> n div 64" "n div 64 < 32" by (simp_all add: less_eq_div_iff_mult_less_eq less_mult_imp_div_less)
    then show ?thesis using 2 by (simp add: EncodeRune_def c m)
  next
    case 3
    define q where "q = n div 64"
    have "32 \<le> q" "q < 1024" "q < 864 \<or> 896 \<le> q"
      using 3 assms(2) by (auto simp: q_def less_eq_div_iff_mult_less_eq less_mult_imp_div_less)
    moreover have "q mod 64 < 64" by simp
    ultimately have "q div 64 < 16" "q div 64 = 0 \<longrightarrow> 32 \<le> q mod 64" "q div 64 = 13 \<longrightarrow> q mod 64 \<le> 31"
      using d [of q] by linarith+
    then show ?thesis using 3 m(1) [of n] m(1) [of q] by (simp add: EncodeRune_def p c m(2) flip: q_def)
  next
    case 4
    define q where "q = n div 64 div 64"
    have "16 \<le> q" "q < 272"
      using 4 assms(1) by (auto simp: q_def less_eq_div_iff_mult_less_eq less_mult_imp_div_less)
    moreover have "q mod 64 < 64" by simp
    ultimately have "q div 64 < 5" "q div 64 = 0 \<longrightarrow> 16 \<le> q mod 64" "q div 64 = 4 \<longrightarrow> q mod 64 \<le> 15"
      using d [of q] by linarith+
    then show ?thesis using 4 m(1) [of n] m(1) [of "n div 64"] m(1) [of q] by (simp add: EncodeRune_def p c m(2) flip: q_def)
  qed (simp add: EncodeRune_def)
qed

lemma getu4_bound: "getu4 s < 0x10000"
proof -
  have "foldl (\<lambda>n c. 16 * n + (case unhex c of None \<Rightarrow> 0 | Some b \<Rightarrow> unat b)) a ds < (a + 1) * 16 ^ length ds" for a and ds :: string
  proof (induction ds arbitrary: a)
    case (Cons c ds)
    let ?a = "16 * a + (case unhex c of None \<Rightarrow> 0 | Some b \<Rightarrow> unat b)"
    have "?a + 1 \<le> (a + 1) * 16" using unhex_bound [of c] by (auto split: option.split) 
    then have "(?a + 1) * 16 ^ length ds \<le> (a + 1) * 16 * 16 ^ length ds" by (rule mult_le_mono1)
    from less_le_trans [OF Cons [of ?a] this] show ?case by (simp add: algebra_simps)
  qed simp
  from this [of 0 "take 4 s"] have "getu4 s < 16 ^ length (take 4 s)" by (simp add: getu4_def)
  also have "(16 :: nat) ^ length (take 4 s) \<le> 16 ^ 4" by (rule power_increasing) simp_all
  finally show ?thesis by simp
qed

lemma unescape_ascii: "nat_of e < 128 \<Longrightarrow> nat_of (unescape e) < 128"
  by (simp add: unescape_def)

lemma low_surrogate_escapes:
  assumes "low_surrogate s = Some l" and "escapes s"
  shows "escapes (drop 6 s) \<and> 0xDC00 \<le> l \<and> l < 0xE000"
proof -
  from assms(1) obtain t where "s = bslash # CHR ''u'' # t" by (cases s; cases "tl s") (auto simp: low_surrogate_def split: if_splits)
  with assms show ?thesis by (auto simp: low_surrogate_def split: if_splits)
qed

text \<open>A step of \<open>unquote\<close> writes whole runes and leaves a shorter literal.\<close>

definition utf8_part :: "string \<Rightarrow> bool" where
  "utf8_part p \<longleftrightarrow> (\<forall>t. utf8_valid (p @ t) = utf8_valid t)"

lemma utf8_part_rune: "rune_str r \<Longrightarrow> utf8_part r"
  by (simp add: utf8_part_def utf8_valid_rune)

lemma utf8_part_ascii: "nat_of c < 128 \<Longrightarrow> utf8_part [c]"
  by (rule utf8_part_rune) simp

lemma utf8_part_EncodeRune: "n < 0x110000 \<Longrightarrow> n < 0xD800 \<or> 0xE000 \<le> n \<Longrightarrow> utf8_part (EncodeRune n)"
  by (rule utf8_part_rune [OF EncodeRune_rune])

lemma utf8_part_error: "utf8_part (EncodeRune RuneError)"
  by (rule utf8_part_EncodeRune) (simp_all add: RuneError_def)

definition unquotes_to :: "string \<Rightarrow> string \<Rightarrow> string \<Rightarrow> bool" where
  "unquotes_to raw p t \<longleftrightarrow> unquote raw = p @ unquote t \<and> utf8_part p \<and> escapes t \<and> length t < length raw"

lemma unquote_u:
  assumes "escapes (bslash # CHR ''u'' # s)"
  shows "\<exists>p t. unquotes_to (bslash # CHR ''u'' # s) p t"
proof -
  let ?n = "getu4 s" and ?r = "drop 4 s"
  have r: "escapes ?r" using assms by simp
  consider (rune) "?n < 0xD800 \<or> 0xE000 \<le> ?n"
    | (pair) l where "0xD800 \<le> ?n" "?n < 0xDC00" "low_surrogate ?r = Some l"
    | (lone) "0xD800 \<le> ?n" "?n < 0xE000" "?n < 0xDC00 \<longrightarrow> low_surrogate ?r = None" by (cases "low_surrogate ?r") force+
  then show ?thesis
  proof cases
    case rune
    then have "utf8_part (EncodeRune ?n)" using getu4_bound [of s] by (intro utf8_part_EncodeRune) auto
    with rune r show ?thesis by (intro exI [of _ "EncodeRune ?n"] exI [of _ ?r]) (simp add: unquotes_to_def unquote.simps(2))
  next
    case pair
    let ?m = "0x10000 + (?n - 0xD800) * 1024 + (l - 0xDC00)"
    note l = low_surrogate_escapes [OF pair(3) r]
    have "utf8_part (EncodeRune ?m)" using pair l by (intro utf8_part_EncodeRune) linarith+
    with pair l show ?thesis
      by (intro exI [of _ "EncodeRune ?m"] exI [of _ "drop 6 ?r"]) (simp add: unquotes_to_def unquote.simps(2) del: drop_drop)
  next
    case lone
    then have "unquote (bslash # CHR ''u'' # s) = EncodeRune RuneError @ unquote ?r"
      by (auto simp: unquote.simps(2) Let_def split: option.split)
    with r show ?thesis by (intro exI [of _ "EncodeRune RuneError"] exI [of _ ?r]) (simp add: unquotes_to_def utf8_part_error)
  qed
qed

lemma unquote_rune_step:
  assumes "rune_len (c # s) \<noteq> 0" and "128 \<le> nat_of c" and "escapes (c # s)"
  shows "\<exists>p t. unquotes_to (c # s) p t"
proof -
  obtain r t where rt: "c # s = r @ t" "rune_str r" "length r = rune_len (c # s)" using rune_cases [OF assms(1)] .
  then obtain q where q: "r = c # q" using rune_ok_length [OF rt(2)] by (cases r) auto
  have "\<forall>x \<in> set r. 128 \<le> nat_of x" using rune_str_high [of c q] rt(2) assms(2) q by blast
  from escapes_high [OF this, of t] have "escapes t" using assms(3) rt(1) by simp
  moreover have "unquote (r @ t) = r @ unquote t" using rt(2) assms(2) q by (intro unquote_rune) simp_all
  ultimately show ?thesis using rt(1,2) q by (intro exI [of _ r] exI [of _ t]) (simp add: unquotes_to_def utf8_part_rune)
qed

lemma unquote_step: "escapes (c # s) \<Longrightarrow> s \<noteq> [] \<or> c \<noteq> bslash \<Longrightarrow> \<exists>p t. unquotes_to (c # s) p t"
proof -
  assume e: "escapes (c # s)" "s \<noteq> [] \<or> c \<noteq> bslash"
  consider (u) s' where "c = bslash" "s = CHR ''u'' # s'" | (esc) x s' where "c = bslash" "s = x # s'" "x \<noteq> CHR ''u''"
    | (ascii) "c \<noteq> bslash" "nat_of c < 128" | (bad) "128 \<le> nat_of c" "rune_len (c # s) = 0"
    | (rune) "128 \<le> nat_of c" "rune_len (c # s) \<noteq> 0"
    using e(2) not_less by (cases s; cases "c = bslash") blast+
  then show ?thesis
  proof cases
    case u
    then show ?thesis using unquote_u e(1) by simp
  next
    case esc
    then show ?thesis using e
      by (intro exI [of _ "[unescape x]"] exI [of _ s']) (simp add: unquotes_to_def unquote.simps(2) utf8_part_ascii unescape_ascii)
  next
    case ascii
    then show ?thesis using e by (intro exI [of _ "[c]"] exI [of _ s]) (simp add: unquotes_to_def unquote.simps(2) utf8_part_ascii)
  next
    case bad
    then have "c \<noteq> bslash" by auto
    with bad show ?thesis using e
      by (intro exI [of _ "EncodeRune RuneError"] exI [of _ s]) (simp add: unquotes_to_def unquote.simps(2) utf8_part_error)
  qed (use unquote_rune_step e(1) in blast)
qed

lemma unquote_utf8: "escapes raw \<Longrightarrow> utf8_valid (unquote raw)"
proof (induction "length raw" arbitrary: raw rule: less_induct)
  case less
  show ?case
  proof (cases "raw = [] \<or> raw = [bslash]")
    case True
    then show ?thesis by (auto simp: unquote.simps(2))
  next
    case False
    then obtain c s where "raw = c # s" "s \<noteq> [] \<or> c \<noteq> bslash" by (cases raw) auto
    with unquote_step less(2) obtain p t where "unquotes_to raw p t" by blast
    then show ?thesis using less(1) [of t] by (simp add: unquotes_to_def utf8_part_def)
  qed
qed

section \<open>The literals of a parsed tree\<close>

fun scanned :: "jtext \<Rightarrow> bool" where
  "scanned (JtStr raw) = escapes raw"
| "scanned (JtArr vs) = list_all scanned vs"
| "scanned (JtObj kvs) = list_all (\<lambda>kv. scanned (snd kv)) kvs"
| "scanned _ = True"

fun token_scanned :: "token \<Rightarrow> bool" where
  "token_scanned (Scalar v) = scanned v"
| "token_scanned (Punct c) = True"

fun frame_scanned :: "frame \<Rightarrow> bool" where
  "frame_scanned (InArr vs) = list_all scanned vs"
| "frame_scanned (InObj kvs k) = list_all (\<lambda>kv. scanned (snd kv)) kvs"

fun mode_scanned :: "mode \<Rightarrow> bool" where
  "mode_scanned (WantKey kvs) = list_all (\<lambda>kv. scanned (snd kv)) kvs"
| "mode_scanned (WantColon kvs k) = list_all (\<lambda>kv. scanned (snd kv)) kvs"
| "mode_scanned (Have v) = scanned v"
| "mode_scanned _ = True"

abbreviation state_scanned :: "frame list \<times> mode \<Rightarrow> bool" where
  "state_scanned st \<equiv> list_all frame_scanned (fst st) \<and> mode_scanned (snd st)"

lemma lex_json_scanned: "lex_json s = Some ts \<Longrightarrow> list_all token_scanned ts"
proof (induction s arbitrary: ts rule: lex_json.induct)
  case (2 c s)
  show ?case
    using "2.prems" "2.IH"
    by (auto simp: lex_json.simps(2) [of c s] scan_str_escapes split: if_splits option.splits prod.splits)
qed simp

lemma begin_value_scanned:
  "begin_value fs t = Some st \<Longrightarrow> token_scanned t \<Longrightarrow> list_all frame_scanned fs \<Longrightarrow> state_scanned st"
  by (cases t) (auto split: if_splits)

lemma want_key_scanned:
  "want_key fs kvs t = Some st \<Longrightarrow> list_all frame_scanned fs \<Longrightarrow> list_all (\<lambda>kv. scanned (snd kv)) kvs \<Longrightarrow> state_scanned st"
  by (induction fs kvs t rule: want_key.induct) auto

lemma json_step_scanned: "json_step st t = Some st' \<Longrightarrow> token_scanned t \<Longrightarrow> state_scanned st \<Longrightarrow> state_scanned st'"
  by (induction st t rule: json_step.induct) (auto split: if_splits dest: begin_value_scanned want_key_scanned)

lemma json_run_scanned: "json_run st ts = Some st' \<Longrightarrow> list_all token_scanned ts \<Longrightarrow> state_scanned st \<Longrightarrow> state_scanned st'"
  by (induction ts arbitrary: st) (auto split: option.splits dest: json_step_scanned)

lemma json_parse_scanned: "json_parse s = Some v \<Longrightarrow> scanned v"
proof -
  assume "json_parse s = Some v"
  then obtain ts where "lex_json s = Some ts" "json_run ([], WantValue) ts = Some ([], Have v)"
    by (auto simp: json_parse_def split: option.splits list.splits mode.splits)
  with lex_json_scanned json_run_scanned show ?thesis by fastforce
qed

section \<open>Decoders that keep a predicate\<close>

locale json_keeps =
  fixes dec :: "jtext \<Rightarrow> 'a \<Rightarrow> 'a option" and P :: "'a \<Rightarrow> bool"
  assumes dec_keeps: "scanned v \<Longrightarrow> P x \<Longrightarrow> dec v x = Some y \<Longrightarrow> P y"
begin

lemma elems_keep:
  "list_all scanned vs \<Longrightarrow> P z \<Longrightarrow> list_all P bk \<Longrightarrow> dec_elems dec z vs bk = Some (xs, rest) \<Longrightarrow> list_all P xs \<and> list_all P rest"
proof (induction vs arbitrary: bk xs)
  case (Cons v vs)
  then obtain x ys where x: "dec v (case bk of [] \<Rightarrow> z | b # _ \<Rightarrow> b) = Some x" "dec_elems dec z vs (tl bk) = Some (ys, rest)" "xs = x # ys"
    by (auto split: option.splits)
  have "P (case bk of [] \<Rightarrow> z | b # _ \<Rightarrow> b)" "list_all P (tl bk)" using Cons.prems(2,3) by (cases bk; simp)+
  with dec_keeps x(1) Cons.prems(1) Cons.IH [OF _ Cons.prems(2) _ x(2)] x(3) show ?case by auto
qed simp

lemma slice_keeps:
  "scanned v \<Longrightarrow> P z \<Longrightarrow> list_all P (fst s) \<Longrightarrow> list_all P (snd s) \<Longrightarrow> dec_slice dec z v s = Some t \<Longrightarrow>
    list_all P (fst t) \<and> list_all P (snd t)"
proof (cases v)
  case (JtArr vs)
  assume "scanned v" "P z" "list_all P (fst s)" "list_all P (snd s)" "dec_slice dec z v s = Some t"
  with JtArr elems_keep [of vs z "fst s @ snd s" "fst t" "snd t"] show ?thesis by (auto split: if_splits)
qed auto

lemmas keeps_dest = dec_keeps [rotated 2] slice_keeps [rotated 4]

end

lemma struct_keeps:
  assumes "scanned v" and "Q d" and "dec_struct names put v d = Some d'"
    and put: "\<And>f v d d'. scanned v \<Longrightarrow> Q d \<Longrightarrow> put f v d = Some d' \<Longrightarrow> Q d'"
  shows "Q d'"
proof -
  have "list_all (\<lambda>kv. scanned (snd kv)) kvs \<Longrightarrow> Q d \<Longrightarrow> dec_fields names put kvs d = Some d' \<Longrightarrow> Q d'" for kvs d
  proof (induction kvs arbitrary: d)
    case (Cons kv kvs)
    then show ?case using put [of "snd kv" d] by (cases kv) (auto split: option.splits)
  qed simp
  with assms(1-3) show ?thesis by (cases v) auto
qed

interpretation k_int: json_keeps dec_int int64_range
proof
  fix v and x y :: int
  assume "int64_range x" "dec_int v x = Some y"
  then show "int64_range y" by (cases v) (auto simp: int64_range_def dest: Atoi_range split: sum.splits)
qed

interpretation k_string: json_keeps dec_string utf8_valid
proof
  fix v and x y :: string
  assume "scanned v" "utf8_valid x" "dec_string v x = Some y"
  then show "utf8_valid y" by (cases v) (auto intro: unquote_utf8)
qed

definition contact_typed :: "Contact \<Rightarrow> bool" where
  "contact_typed c \<longleftrightarrow> utf8_valid (ct_Address c)"

interpretation k_contact: json_keeps "dec_Contact env" contact_typed
proof
  fix v x y
  assume "scanned v" "contact_typed x" "dec_Contact env v x = Some y"
  then show "contact_typed y" unfolding dec_Contact_def
    by (rule struct_keeps) (auto simp: contact_typed_def put_Contact_def dest: k_string.keeps_dest split: if_splits)
qed

interpretation k_chunk_meta: json_keeps dec_ChunkMeta chunk_meta_ok
proof
  fix v x y
  assume "scanned v" "chunk_meta_ok x" "dec_ChunkMeta v x = Some y"
  then show "chunk_meta_ok y" unfolding dec_ChunkMeta_def
    by (rule struct_keeps) (auto simp: chunk_meta_ok_def put_ChunkMeta_def dest: k_int.keeps_dest split: if_splits)
qed

interpretation k_file_meta: json_keeps dec_FileMeta "\<lambda>m. file_meta_ok (fst m) \<and> list_all chunk_meta_ok (snd m)"
proof
  have z: "chunk_meta_ok ChunkMeta_zero" by (simp add: chunk_meta_ok_def ChunkMeta_zero_def int64_range_def)
  fix v x y
  assume "scanned v" "file_meta_ok (fst x) \<and> list_all chunk_meta_ok (snd x)" "dec_FileMeta v x = Some y"
  then show "file_meta_ok (fst y) \<and> list_all chunk_meta_ok (snd y)" unfolding dec_FileMeta_def
    by (rule struct_keeps)
      (auto simp: file_meta_ok_def put_FileMeta_def z dest: k_chunk_meta.keeps_dest split: if_splits, use k_int.dec_keeps in blast)
qed

section \<open>Messages\<close>

definition message_typed :: "('a) Message_scheme \<Rightarrow> bool" where
  "message_typed m \<longleftrightarrow>
     list_all utf8_valid [msg_Type m, msg_ChunkID m, msg_FileRoot m, msg_NodeAddr m, msg_Error m, msg_RequestID m] \<and>
     int64_range (msg_Timestamp m) \<and> list_all contact_typed (msg_Nodes m) \<and> list_all contact_typed (msg_Providers m) \<and>
     (\<forall>fm. msg_FileMeta m = Some fm \<longrightarrow> file_meta_ok fm)"

definition state_typed :: "msg_state \<Rightarrow> bool" where
  "state_typed m \<longleftrightarrow>
     message_typed m \<and> list_all contact_typed (st_nodes m) \<and> list_all contact_typed (st_providers m) \<and> list_all chunk_meta_ok (st_chunks m)"

lemma zeros_typed: "contact_typed Contact_zero" "file_meta_ok FileMeta_zero"
  by (simp_all add: contact_typed_def Contact_zero_def file_meta_ok_def FileMeta_zero_def int64_range_def)

lemma put_Message_keeps:
  assumes "scanned v" and "state_typed m" and "put_Message env f v m = Some m'"
  shows "state_typed m'"
proof (cases "f = ''file_meta'' \<and> v \<noteq> JtNull")
  case True
  then obtain x where x: "dec_FileMeta v (case msg_FileMeta m of None \<Rightarrow> (FileMeta_zero, []) | Some fm \<Rightarrow> (fm, st_chunks m)) = Some x"
    "m' = m\<lparr>msg_FileMeta := Some (fst x), st_chunks := snd x\<rparr>" using assms(3) by (auto simp: put_Message_def)
  have "file_meta_ok (fst x) \<and> list_all chunk_meta_ok (snd x)"
    by (rule k_file_meta.dec_keeps [OF assms(1) _ x(1)])
      (use assms(2) in \<open>auto simp: state_typed_def message_typed_def zeros_typed split: option.split\<close>)
  then show ?thesis using x(2) assms(2) by (simp add: state_typed_def message_typed_def)
next
  case False
  with assms show ?thesis
    by (auto simp: put_Message_def state_typed_def message_typed_def zeros_typed
        dest: k_string.keeps_dest k_int.keeps_dest k_contact.keeps_dest split: if_splits)
qed

lemma DecodeMessage_typed:
  assumes "DecodeMessage env b = Inr m"
  shows "message_typed m"
proof -
  from assms obtain v st where v: "json_parse (bytes_string b) = Some v"
    "dec_struct message_names (put_Message env) v (Message.extend Message_zero (msg_state.fields [] [] [] [])) = Some st"
    "m = Message.truncate st" by (auto simp: DecodeMessage_def split: option.splits)
  have "state_typed (Message.extend Message_zero (msg_state.fields [] [] [] []))"
    by (simp add: state_typed_def message_typed_def Message.defs msg_state.defs Message_zero_def int64_range_def)
  from struct_keeps [of v state_typed, OF json_parse_scanned [OF v(1)] this v(2)] have "state_typed st" using put_Message_keeps by blast
  then show ?thesis using v(3) by (simp add: state_typed_def message_typed_def Message.defs)
qed

lemma typed_ok: "message_typed m \<Longrightarrow> msg_Nodes m = [] \<Longrightarrow> msg_Providers m = [] \<Longrightarrow> message_ok env m"
  by (simp add: message_typed_def message_ok_def split: option.split)

section \<open>Properties\<close>

text \<open>
  C7: whatever bytes a peer sends, a message that \<^verbatim>\<open>DecodeMessage\<close> accepts is well typed: all its strings, the addresses of
  its contacts included, are UTF-8, and its timestamp, the file size and the index and size of every chunk are 64-bit integers. A message
  without contacts can therefore be encoded again, and decoding that gives the same message, up to an empty chunk.
\<close>

theorem decoded_message_typed:
  assumes "DecodeMessage env b = Inr m"
  shows "message_typed m \<and>
    (msg_Nodes m = [] \<and> msg_Providers m = [] \<longrightarrow>
     (\<exists>b'. Message_Encode env m = Inr b' \<and> DecodeMessage env b' = Inr (if msg_ChunkData m = Some [] then m\<lparr>msg_ChunkData := None\<rparr> else m)))"
proof -
  have "message_typed m" by (rule DecodeMessage_typed [OF assms])
  then show ?thesis using message_roundtrip [OF typed_ok] by (auto simp: wire_image_def)
qed

theorem decoded_message_typed_witness:
  "\<exists>m. DecodeMessage utc_env (string_bytes (json_print (JtObj [(''type'', JtStr [CHR 0xFF])]))) = Inr m \<and>
     message_typed m \<and> msg_Type m = EncodeRune 0xFFFD"
proof -
  let ?v = "JtObj [(''type'', JtStr [CHR 0xFF])]"
  let ?m = "Message_zero\<lparr>msg_Type := EncodeRune 0xFFFD\<rparr>"
  have "str_literal [CHR 0xFF]" by (intro literal_part_literal literal_part_plain) simp_all
  moreover have "str_literal ''type''" by (rule plain_literal) (simp add: plain_json_def)
  ultimately have "json_parse (json_print ?v) = Some ?v" by (intro json_parse_print) (simp_all add: maxNestingDepth_def)
  moreover have "unquote ''type'' = ''type''" by (simp add: unquote.simps(2))
  moreover have "unquote [CHR 0xFF] = EncodeRune 0xFFFD" by (simp add: unquote.simps(2) rune_len_def RuneError_def)
  ultimately have "DecodeMessage utc_env (string_bytes (json_print ?v)) = Inr ?m"
    by (simp add: DecodeMessage_def field_of_def message_names_def put_Message_def Message.defs msg_state.defs Message_zero_def)
  with decoded_message_typed [of utc_env "string_bytes (json_print ?v)" ?m] show ?thesis by simp
qed

end
