(* ===== verification/File_Transfer.thy ===== *)
theory File_Transfer
  imports Dht_Files Json_Message
begin

text \<open>
  A file on its way from one node to another, over JSON messages: the client's request functions and its download
  (\<^verbatim>\<open>internal/dht/service.go\<close>), the provider's \<^verbatim>\<open>HandleRPC\<close>
  (\<^verbatim>\<open>internal/dht/node.go\<close>), the encoding of both directions and the store
  on both sides are put together. Each request may meet the provider in a different state, as long as the file is
  still there.
\<close>

section \<open>Queries and replies\<close>





section \<open>What the provider answers\<close>

lemma utf8_hex [simp]: "utf8_valid (hex_EncodeToString bs)"
proof (rule utf8_valid_ascii, rule ballI)
  fix c assume "c \<in> set (hex_EncodeToString bs)"
  then have "unhex c \<noteq> None" by (rule hex_encode_chars)
  then show "nat_of c < 128" by (auto simp: unhex_def Let_def split: if_splits)
qed

lemma utf8_ids [simp]: "utf8_valid (ID_String i)" "utf8_valid (ChunkID_String j)"
  by (simp_all add: ID_String_def ChunkID_String_def)

lemma utf8_types [simp]:
  "utf8_valid MsgGetFileMeta" "utf8_valid MsgGetChunk" "utf8_valid MsgFileMeta" "utf8_valid MsgChunkData"
  by (intro utf8_valid_ascii, simp add: wire_consts)+









section \<open>Properties\<close>










end
