(* ===== verification/Wire_Limits.thy ===== *)
theory Wire_Limits
  imports Json_Message Json_Rpc Tcp_Transport
begin

text \<open>
  What fits on the wire. A DHT message is JSON, with its chunk in base64; the JSON is the payload of an RPC, which is JSON again, with
  the payload in base64 again; \<^verbatim>\<open>MaxMessageSize\<close> of \<^verbatim>\<open>internal/p2p/codec.go\<close> bounds the second text. The lemmas
  bound the lengths of the texts from both sides. They give the payloads that a frame can
  carry, the chunks that a node can hand out and the files whose description it can hand out,
  and put the encodings together with the TCP transport.
\<close>

section \<open>Lengths of texts\<close>

lemma length_commas: "length (commas sep ws) = sum_list (map length ws) + length sep * (length ws - 1)"
  by (induction sep ws rule: commas.induct) auto

lemma member_sum_le: "w \<in> set ws \<Longrightarrow> length w \<le> sum_list (map length ws)"
  by (simp add: member_le_sum_list)

lemma length_struct:
  "length (json_print (enc_struct fs)) =
     2 + sum_list (map (\<lambda>kv. length (quote (fst kv)) + 3 + length (json_print (snd kv))) fs) + (length fs - 1)"
  by (simp add: enc_struct_def length_commas comp_def case_prod_unfold add.commute add.left_commute numeral_3_eq_3)

lemma length_field_le:
  assumes "(k, v) \<in> set fs"
  shows "length (json_print v) \<le> length (json_print (enc_struct fs))"
proof -
  let ?f = "\<lambda>kv. length (quote (fst kv)) + 3 + length (json_print (snd kv))"
  have "?f (k, v) \<le> sum_list (map ?f fs)" using assms by (intro member_le_sum_list) force+
  then show ?thesis by (simp add: length_struct)
qed

lemma length_nat_str: "n < 10 ^ Suc k \<Longrightarrow> length (nat_str n) \<le> Suc k"
proof (induction k arbitrary: n)
  case (Suc k)
  show ?case
  proof (cases "n < 10")
    case False
    have "n div 10 < 10 ^ Suc k" using Suc.prems by (simp add: less_mult_imp_div_less mult.commute)
    from Suc.IH [OF this] False show ?thesis by (simp add: nat_str.simps [of n])
  qed (simp add: nat_str.simps [of n])
qed (simp add: nat_str.simps)

lemma length_itoa_int64: "int64_range i \<Longrightarrow> length (itoa i) \<le> 20"
  using length_nat_str [of "nat (- i)" 18] length_nat_str [of "nat i" 18]
  by (auto simp: itoa_def int64_range_def nat_less_iff)

lemma length_itoa_pos: "1 \<le> length (itoa i)"
  by (simp add: itoa_def Suc_le_eq)

lemma length_itoa_byte: "length (itoa (uint (b :: byte))) \<le> 3"
  using length_nat_str [of "unat b" 2] unat_byte [of b] by (simp add: itoa_uint)

lemma sum_list_bounds:
  fixes f :: "'a \<Rightarrow> nat"
  assumes "\<And>x. x \<in> set xs \<Longrightarrow> lo \<le> f x \<and> f x \<le> hi"
  shows "lo * length xs \<le> sum_list (map f xs) \<and> sum_list (map f xs) \<le> hi * length xs"
  using assms by (induction xs) (auto simp: add_mono)

lemma length_byte_array:
  assumes "bs \<noteq> []"
  shows "2 * length bs + 1 \<le> length (json_print (JtArr (map (\<lambda>b. JtNum (itoa (uint (b :: byte)))) bs)))"
    and "length (json_print (JtArr (map (\<lambda>b. JtNum (itoa (uint b))) bs))) \<le> 4 * length bs + 1"
proof -
  have "1 * length bs \<le> sum_list (map (\<lambda>b. length (itoa (uint b))) bs) \<and> sum_list (map (\<lambda>b. length (itoa (uint b))) bs) \<le> 3 * length bs"
    by (rule sum_list_bounds) (simp add: length_itoa_pos [simplified] length_itoa_byte)
  moreover have "length (json_print (JtArr (map (\<lambda>b. JtNum (itoa (uint b))) bs))) =
      2 + sum_list (map (\<lambda>b. length (itoa (uint b))) bs) + (length bs - 1)"
    by (simp add: length_commas comp_def)
  moreover have "0 < length bs" using assms by simp
  ultimately show "2 * length bs + 1 \<le> length (json_print (JtArr (map (\<lambda>b. JtNum (itoa (uint b))) bs)))"
    and "length (json_print (JtArr (map (\<lambda>b. JtNum (itoa (uint b))) bs))) \<le> 4 * length bs + 1"
    by linarith+
qed

lemma length_enc_ID: "length (json_print (enc_ID i)) \<le> 81"
proof -
  have "ID_arr i \<noteq> []" using length_ID_arr [of i] by fastforce
  from length_byte_array(2) [OF this] show ?thesis unfolding enc_ID_def by simp
qed

lemma length_enc_ChunkID: "65 \<le> length (json_print (enc_ChunkID i))"
proof -
  have l: "length (ChunkID_arr i) = 32" using ChunkID_arr by auto
  then have "ChunkID_arr i \<noteq> []" by fastforce
  from length_byte_array(1) [OF this] l show ?thesis unfolding enc_ChunkID_def by simp
qed

lemma length_enc_ChunkMeta: "91 \<le> length (json_print (enc_ChunkMeta c))"
  using length_enc_ChunkID [of "cm_ID c"] length_itoa_pos [of "cm_Index c"] length_itoa_pos [of "cm_Size c"]
  by (simp add: enc_ChunkMeta_def length_struct quote_plain_json plain_json_def)

lemma length_enc_FileMeta: "92 * length (fm_Chunks fm) \<le> length (json_print (enc_FileMeta fm))"
proof (cases "fm_Chunks fm = []")
  case False
  let ?l = "\<lambda>c. length (json_print (enc_ChunkMeta c))"
  have "91 * length cs \<le> sum_list (map ?l cs)" for cs
    using length_enc_ChunkMeta by (induction cs) (auto intro: add_mono)
  then have "91 * length (fm_Chunks fm) \<le> sum_list (map ?l (fm_Chunks fm))" .
  then have "92 * length (fm_Chunks fm) \<le> length (json_print (JtArr (map enc_ChunkMeta (fm_Chunks fm))))"
    using False by (simp add: length_commas comp_def)
  also have "\<dots> \<le> length (json_print (enc_FileMeta fm))"
    unfolding enc_FileMeta_def using False by (intro length_field_le [of "''chunks''"]) simp
  finally show ?thesis .
qed simp

lemma length_enc_bytes: "length (json_print (enc_bytes d)) = 2 + 4 * ((length d + 2) div 3)"
  by (simp add: enc_bytes_def quote_b64)

section \<open>What a frame carries\<close>

definition payload_limit :: nat where
  "payload_limit = 3145689"

lemma payload_fits:
  "rj_roundtrip (json_rpc env) (payload_rpc p)" "fits (json_rpc env) (payload_rpc p) \<longleftrightarrow> length p \<le> payload_limit"
proof -
  let ?d = "string_bytes (json_print (enc_struct (rpc_fields (payload_rpc p))))"
  have "?d \<noteq> []" by (simp add: string_bytes_def enc_struct_def)
  then show "rj_roundtrip (json_rpc env) (payload_rpc p)"
    using rpc_roundtrip by (simp add: rj_roundtrip_def json_rpc_def rpc_Marshal_def)
  have "length ?d \<le> MaxMessageSize \<longleftrightarrow> length p \<le> payload_limit"
  proof (cases "p = []")
    case True
    then show ?thesis
      by (simp add: payload_limit_def MaxMessageSize_def string_bytes_def enc_struct_def rpc_fields_def payload_rpc_def enc_string_def
          quote_plain_json plain_json_def)
  next
    case False
    have a: "(length p + 2) div 3 < 1048564 \<longleftrightarrow> length p + 2 < 1048564 * 3" by (rule div_less_iff_less_mult) simp
    have b: "51 + 4 * x \<le> 4194304 \<longleftrightarrow> x < 1048564" "x + 2 < 1048564 * 3 \<longleftrightarrow> x \<le> 3145689" for x :: nat by (rule iffI; linarith)+
    have "51 + 4 * ((length p + 2) div 3) \<le> 4194304 \<longleftrightarrow> length p \<le> 3145689" by (simp only: a b)
    then show ?thesis using rpc_length [OF False] by (simp add: payload_limit_def MaxMessageSize_def)
  qed
  then show "fits (json_rpc env) (payload_rpc p) \<longleftrightarrow> length p \<le> payload_limit"
    by (simp add: fits_def json_rpc_def rpc_Marshal_def)
qed

lemma payload_encode:
  assumes "w_sched w = []"
  shows "length p \<le> payload_limit \<Longrightarrow> fst (codec_Encode (json_rpc env) w (payload_rpc p)) = None"
    and "payload_limit < length p \<Longrightarrow> \<exists>e. codec_Encode (json_rpc env) w (payload_rpc p) = (Some e, w)"
  using payload_fits(2) [of env p] assms
  by (auto simp: fits_def codec_Encode_def json_rpc_def rpc_Marshal_def w_Write_def split: prod.splits)

lemma string_bytes_length [simp]: "length (string_bytes s) = length s"
  by (simp add: string_bytes_def)

lemma Message_Encode_text:
  assumes "msg_Nodes m = []" and "msg_Providers m = []"
  shows "Message_Encode env m = Inr (string_bytes (json_print (enc_struct (message_fields m [] []))))"
  using assms by (simp add: Message_Encode_def)

text \<open>The reply to a \<^verbatim>\<open>GET_CHUNK\<close> with the chunk \<open>d\<close>.\<close>

lemma hex_plain: "hex_DecodeString x = Inr bs \<Longrightarrow> list_all plain_json x"
proof -
  assume x: "hex_DecodeString x = Inr bs"
  have "plain_json c" if "c \<in> set x" for c
    using hex_decode_chars [OF x that] by (auto simp: unhex_def plain_json_def Let_def split: if_splits)
  then show ?thesis by (simp add: list_all_iff)
qed

lemma chunk_reply_length:
  assumes m: "m = (reply n MsgChunkData t)\<lparr>msg_RequestID := y, msg_ChunkID := x, msg_ChunkData := Some d\<rparr>"
    and "int64_range (Unix t)" and plain: "list_all plain_json (nd_addr n)" "list_all plain_json x" "list_all plain_json y"
    and len: "length (nd_addr n) \<le> 255" "length x = 64" "length y = 40"
  shows "length (json_print (enc_struct (message_fields m [] []))) \<le> 552 + 4 * ((length d + 2) div 3)"
proof -
  have "length (quote MsgChunkData) = 10" by (simp add: wire_consts quote_plain_json plain_json_def)
  then show ?thesis
    using length_enc_ID [of "nd_id n"] length_itoa_int64 [OF assms(2)] length_enc_bytes [of d] plain len
    by (simp add: m message_fields_def reply_def Message_zero_def opt_string_def opt_list_def length_struct enc_string_def
        quote_plain_json plain_json_def)
qed

lemma chunk_reply_form:
  assumes "fst (handle_get_chunk n s clk q) = Inr (Some m)" and "msg_ChunkData m = Some d"
  shows "m = (reply n MsgChunkData (clk 0))\<lparr>msg_RequestID := msg_RequestID q, msg_ChunkID := msg_ChunkID q, msg_ChunkData := Some d\<rparr> \<and>
    list_all plain_json (msg_ChunkID q) \<and> length (msg_ChunkID q) = 64"
proof -
  obtain cid where cid: "ChunkIDFromHex (msg_ChunkID q) = Inr cid"
    and m: "m = (reply n MsgChunkData (clk 0))\<lparr>msg_RequestID := msg_RequestID q, msg_ChunkID := msg_ChunkID q, msg_ChunkData := Some d\<rparr>"
    using assms by (auto simp: handle_get_chunk_def Let_def reply_def Message_zero_def split: if_splits result_splits)
  have h: "hex_DecodeString (msg_ChunkID q) = Inr (ChunkID_arr cid)" using ChunkIDFromHex_Inr cid by blast
  have "length (ChunkID_arr cid) = 32" using ChunkID_arr by auto
  with hex_plain [OF h] length_hex_decode [OF h] m show ?thesis by simp
qed

section \<open>Properties\<close>

text \<open>
  C31: the chunks a node can hand out. The reply to a \<^verbatim>\<open>GET_CHUNK\<close> request of this program that carries a chunk is always encoded;
  with a chunk of up to 2 MiB it fits into a frame and \<^verbatim>\<open>Encode\<close> writes it, and with one of 2.25
  MiB (2359296 bytes) or more \<^verbatim>\<open>Encode\<close> fails and writes nothing, so that no peer can ever fetch the chunk. The
  address of the node is assumed to be plain text of at most 255 characters.
\<close>

theorem chunk_reply_capacity:
  assumes reply: "fst (handle_get_chunk n s clk q) = Inr (Some m)" "msg_ChunkData m = Some d" "msg_RequestID q = ID_String i"
    and node: "int64_range (Unix (clk 0))" "list_all plain_json (nd_addr n)" "length (nd_addr n) \<le> 255" and w: "w_sched w = []"
  shows "\<exists>p. Message_Encode env m = Inr p \<and>
    (length d \<le> 2 ^ 21 \<longrightarrow> fst (codec_Encode (json_rpc env) w (payload_rpc p)) = None) \<and>
    (2359296 \<le> length d \<longrightarrow> (\<exists>e. codec_Encode (json_rpc env) w (payload_rpc p) = (Some e, w)))"
proof -
  note f = chunk_reply_form [OF reply(1,2)]
  let ?t = "json_print (enc_struct (message_fields m [] []))"
  have e: "Message_Encode env m = Inr (string_bytes ?t)"
    using f by (intro Message_Encode_text) (simp_all add: reply_def Message_zero_def)
  have "list_all plain_json (ID_String i)" "length (ID_String i) = 40"
    unfolding ID_String_def by (rule hex_plain [OF hex_decode_encode], simp)
  then have "length ?t \<le> 552 + 4 * ((length d + 2) div 3)"
    using chunk_reply_length [where n = n and t = "clk 0" and y = "msg_RequestID q" and x = "msg_ChunkID q" and d = d and m = m] f node reply(3) by simp
  moreover have "(length d + 2) div 3 \<le> 699051" if "length d \<le> 2 ^ 21"
    using div_le_mono [of "length d + 2" 2097154 3] that by simp
  ultimately have "length d \<le> 2 ^ 21 \<Longrightarrow> length (string_bytes ?t) \<le> payload_limit" by (simp add: payload_limit_def)
  moreover have "payload_limit < length (string_bytes ?t)" if "2359296 \<le> length d"
  proof -
    have "d \<noteq> []" using that by auto
    then have "(''chunk_data'', enc_bytes d) \<in> set (message_fields m [] [])" using f by (simp add: message_fields_def)
    from length_field_le [OF this] have "2 + 4 * ((length d + 2) div 3) \<le> length ?t" by (simp only: length_enc_bytes)
    moreover have "786432 \<le> (length d + 2) div 3" using div_le_mono [of 2359296 "length d + 2" 3] that by simp
    ultimately show ?thesis by (simp add: payload_limit_def)
  qed
  ultimately show ?thesis using payload_encode [OF w] e by blast
qed

text \<open>
  C32: the files a node can describe. The reply to a \<^verbatim>\<open>GET_FILE_META\<close> for a file of 34193 chunks or more (some 8.3 GiB at the
  default chunk size) never fits into a frame: \<^verbatim>\<open>Encode\<close> fails and writes nothing, so the file cannot be downloaded from
  anyone.
\<close>

theorem meta_reply_capacity:
  assumes "handle_get_meta n clk q = Inr (Some m)" and "msg_FileMeta m = Some fm" and "34193 \<le> length (fm_Chunks fm)"
    and "w_sched w = []"
  shows "\<exists>p e. Message_Encode env m = Inr p \<and> codec_Encode (json_rpc env) w (payload_rpc p) = (Some e, w)"
proof -
  let ?t = "json_print (enc_struct (message_fields m [] []))"
  have "msg_Nodes m = []" "msg_Providers m = []"
    using assms(1) by (auto simp: handle_get_meta_def Let_def reply_def Message_zero_def split: if_splits option.splits)
  then have e: "Message_Encode env m = Inr (string_bytes ?t)" by (rule Message_Encode_text)
  have "(''file_meta'', enc_FileMeta fm) \<in> set (message_fields m [] [])" using assms(2) by (simp add: message_fields_def)
  from length_field_le [OF this] length_enc_FileMeta [of fm] assms(3) have "payload_limit < length (string_bytes ?t)"
    by (simp add: payload_limit_def)
  with payload_encode(2) [OF assms(4)] e show ?thesis by blast
qed

text \<open>For the witnesses: a store that answers every request with a chunk of 3 million bytes, and a file of 40000 chunks.\<close>

definition big_store :: "unit ChunkStore" where
  "big_store = \<lparr>PutChunk = (\<lambda>s d. (Inr (NewChunkID d), s)), GetChunk = (\<lambda>s i. (Inr (replicate 3000000 0), s)),
     HasChunk = (\<lambda>s i. (Inr True, s)), DeleteChunk = (\<lambda>s i. (None, s)), ListChunks = (\<lambda>s. (Inr [], s))\<rparr>"

definition big_file :: FileMeta where
  "big_file = \<lparr>fm_Root = ChunkID_zero, fm_Chunks = replicate 40000 ChunkMeta_zero, fm_Size = 0\<rparr>"

definition big_node :: "unit Node" where
  "big_node = (NewNode ID_zero)\<lparr>nd_store := Some big_store, nd_addr := ''me'', nd_fileMeta := (\<lambda>_. Some big_file)\<rparr>"

definition big_query :: Message where
  "big_query = Message_zero\<lparr>msg_ChunkID := ChunkID_String ChunkID_zero, msg_FileRoot := ''r'', msg_RequestID := ID_String ID_zero\<rparr>"

theorem chunk_reply_capacity_witness:
  "\<exists>m p e. fst (handle_get_chunk big_node () (\<lambda>_. 0) big_query) = Inr (Some m) \<and> Message_Encode utc_env m = Inr p \<and>
     codec_Encode (json_rpc utc_env) \<lparr>w_out = [], w_sched = []\<rparr> (payload_rpc p) = (Some e, \<lparr>w_out = [], w_sched = []\<rparr>)"
proof -
  obtain m where m: "fst (handle_get_chunk big_node () (\<lambda>_. 0) big_query) = Inr (Some m)" "msg_ChunkData m = Some (replicate 3000000 0)"
    "msg_RequestID big_query = ID_String ID_zero"
    by (simp add: handle_get_chunk_def big_node_def NewNode_def big_query_def Message_zero_def GetLocalChunk_def big_store_def Let_def)
  have "int64_range (Unix 0)" "list_all plain_json (nd_addr big_node)" "length (nd_addr big_node) \<le> 255"
    by (simp_all add: int64_range_def Unix_def big_node_def NewNode_def plain_json_def)
  from chunk_reply_capacity [OF m this, of "\<lparr>w_out = [], w_sched = []\<rparr>" utc_env] m(1) show ?thesis by auto
qed

theorem meta_reply_capacity_witness:
  "\<exists>m p e. handle_get_meta big_node (\<lambda>_. 0) big_query = Inr (Some m) \<and> Message_Encode utc_env m = Inr p \<and>
     codec_Encode (json_rpc utc_env) \<lparr>w_out = [], w_sched = []\<rparr> (payload_rpc p) = (Some e, \<lparr>w_out = [], w_sched = []\<rparr>)"
proof -
  obtain m where m: "handle_get_meta big_node (\<lambda>_. 0) big_query = Inr (Some m)" "msg_FileMeta m = Some big_file"
    by (simp add: handle_get_meta_def big_node_def NewNode_def big_query_def Message_zero_def getFileMeta_def Let_def)
  have "34193 \<le> length (fm_Chunks big_file)" by (simp add: big_file_def)
  from meta_reply_capacity [OF m this, of "\<lparr>w_out = [], w_sched = []\<rparr>" utc_env] m(1) show ?thesis by auto
qed


definition json_opts :: TCPTransportOpts where
  "json_opts = demo_opts\<lparr>o_Decoder := Some (codec_Decode (json_rpc utc_env)), o_Encoder := Some (codec_Encode (json_rpc utc_env))\<rparr>"

lemma json_dialled [simp]:
  "tt_peers (dialled json_opts bs) = (\<lambda>_. None)(''p'' := Some 0)" "tt_rpcCh (dialled json_opts bs) = []"
  "tt_handlers (dialled json_opts bs) = [\<lparr>h_peer = NewTCPPeer (conn_to ''p'' bs) True, h_pc = HRead\<rparr>]"
  "tt_opts (dialled json_opts bs) = json_opts" "o_Encoder json_opts = Some (codec_Encode (json_rpc utc_env))"
  "o_Decoder json_opts = Some (codec_Decode (json_rpc utc_env))"
  by (simp_all add: json_opts_def dialled_def tcp_Dial_def demo_net_def spawn_def NewTCPTransport_def tcp_events_def tcp_event_step_def
      handler_step_def set_handler_def call_back_def Let_def peer_Addr_def NewTCPPeer_def conn_to_def)


end
