(* ===== verification/Spec2Isabelle.thy ===== *)
theory Spec2Isabelle
  imports Node_Flags Json_Typed File_Transfer Wire_Limits
begin

text \<open>
  A verification of decentfs, a peer-to-peer file store in Go: files are cut into content-addressed
  chunks with a Merkle root, kept in a local chunk store, optionally erasure-coded, announced in a
  Kademlia-style DHT and exchanged over TCP as length-prefixed JSON.

  \<^bold>\<open>The program and how its parts interact.\<close> \<^verbatim>\<open>cmd/node/main.go\<close> reads the flags, opens a transport
  (\<^verbatim>\<open>internal/p2p\<close>) and a chunk store (\<^verbatim>\<open>internal/storage\<close>) and starts a service (\<^verbatim>\<open>internal/dht\<close>) over
  both. The service owns a node (identity, routing table, provider and metadata tables) and a table
  of pending requests; its read loop takes RPCs from the transport's channel, hands responses to
  the pending request and every other message to \<^verbatim>\<open>Node.HandleRPC\<close>, whose reply it sends back. File operations
  of the service use the storage functions locally and requests to other nodes remotely.

  \<^bold>\<open>Theories, code and state.\<close>

  Standard library, as far as the sources reach it:
  \<^item> \<open>Go_Prelude\<close>: bytes, 64-bit wrap-around, errors as values, cutting a list into pieces, shared collections of split rules.
  \<^item> \<open>Go_Strings\<close>, \<open>Go_Parse\<close>: hexadecimal and decimal conversion, \<^verbatim>\<open>strings\<close> and \<^verbatim>\<open>strconv\<close>.
  \<^item> \<open>Go_Os\<close>, \<open>Go_Bufio\<close>: a file system in which every call can fail by a schedule; readers that cut the stream anywhere; \<^verbatim>\<open>bufio\<close> and \<^verbatim>\<open>io.ReadFull\<close>.
  \<^item> \<open>Sha256\<close>: the hash function, concretely. No theorem assumes that it never collides, only that it does not on the data concerned.
  \<^item> \<open>Json_Text\<close>, \<open>Json_String\<close>, \<open>Base64\<close>, \<open>Go_Time\<close>, \<open>Json_Codec\<close>: \<^verbatim>\<open>encoding/json\<close> from the text to Go values and back.

  \<^verbatim>\<open>internal/storage\<close>:
  \<^item> \<open>Chunk_Id\<close> (\<^verbatim>\<open>chunkid.go\<close>), \<open>Merkle_Tree\<close> (\<^verbatim>\<open>merkle.go\<close>).
  \<^item> \<open>Chunk_Store\<close> (the interface of \<^verbatim>\<open>store.go\<close>, a record of methods over a state; its contract is the locale \<open>chunk_store\<close>)
    and \<open>Fs_Store\<close> (\<^verbatim>\<open>FSChunkStore\<close>; the state is the file system \<open>os\<close>, \<open>fs_holds\<close> its abstraction to a map from identifiers to
    chunks, \<open>fs_inv\<close> its invariant; the interpretation \<open>fs\<close> discharges the contract).
  \<^item> \<open>Chunker\<close> (\<^verbatim>\<open>chunker.go\<close>), \<open>File_Meta\<close> (\<^verbatim>\<open>filemeta.go\<close>), \<open>Erasure\<close> (\<^verbatim>\<open>erasure.go\<close>), \<open>Ec_File\<close> (\<^verbatim>\<open>ec_chunk.go\<close>, \<^verbatim>\<open>ec_filemeta.go\<close>).

  \<^verbatim>\<open>internal/dht\<close>:
  \<^item> \<open>Kad_Id\<close> (\<^verbatim>\<open>id.go\<close>), \<open>Routing_Table\<close> (\<^verbatim>\<open>routing_table.go\<close>, \<^verbatim>\<open>constants.go\<close>).
  \<^item> \<open>Dht_Node\<close> (\<^verbatim>\<open>node.go\<close>): the record \<open>Node\<close>, the message, \<open>HandleRPC\<close> with one definition per case.
  \<^item> \<open>Dht_Service\<close> (\<^verbatim>\<open>service.go\<close>, requests): the record \<open>Service\<close> with its channels; \<open>readLoop_step\<close>, \<open>request_step\<close>, and the
    request functions \<open>StoreChunkRemote\<close>, \<open>FetchChunkRemote\<close>, \<open>FetchFileMetaFromProvider\<close>, \<open>requestFileProvidersFrom\<close>.
  \<^item> \<open>Dht_Lookup\<close> (\<^verbatim>\<open>client.go\<close>, \<^verbatim>\<open>lookup.go\<close>), \<open>Dht_Files\<close> (\<^verbatim>\<open>service.go\<close>, files).
  \<^item> \<open>Json_Message\<close>: \<^verbatim>\<open>Message.Encode\<close> and \<^verbatim>\<open>DecodeMessage\<close> with the struct tags; \<open>Json_Typed\<close>: what any decoded message satisfies.

  \<^verbatim>\<open>internal/p2p\<close>:
  \<^item> \<open>P2p_Types\<close> (\<^verbatim>\<open>types.go\<close>; the locale \<open>transport\<close>), \<open>Wire_Codec\<close> (\<^verbatim>\<open>codec.go\<close>), \<open>Json_Rpc\<close> (the JSON form of an RPC).
  \<^item> \<open>Tcp_Transport\<close> (\<^verbatim>\<open>tcp_transport.go\<close>): one state machine per connection handler, \<open>tcp_step\<close> the steps of a transport, \<open>tcp_reach\<close>
    its runs; the interpretation \<open>tcp\<close> shows that it is a \<open>transport\<close>.

  \<^verbatim>\<open>cmd/node\<close>: \<open>Node_Main\<close> (\<^verbatim>\<open>main\<close> from the parsed flags on, \<^verbatim>\<open>parseECParams\<close>), \<open>Node_Flags\<close> (\<^verbatim>\<open>flag.Parse\<close> and the whole program).

  Compositions: \<open>File_Transfer\<close> (client, JSON in both directions, provider, store), \<open>Wire_Limits\<close> (JSON in JSON in frames over TCP), and this
  theory (files in the filesystem store).

  \<^bold>\<open>What the lemmas show.\<close> Storage: a stored file is read back, whatever the segmentation of the reader, and under every schedule of
  failing system calls nothing is lost or half-written; the store refines a map; the Merkle root is the root of the reference tree
  and determines the list of chunks; an erasure-coded file survives the loss of any shards that leaves enough. DHT: the routing
  table keeps its invariant, its buckets are least-recently-seen lists and \<open>FindClosest\<close> returns the closest contacts; no schedule of requests and read-loop
  iterations panics or blocks, responses reach their own request only, and every request ends; a lookup returns and asks a bounded number
  of peers; downloads only return chunks that match their identifiers. Network: frames are read back however the stream is cut; malformed frames are
  refused; the peer table is sound in all reachable states; every connection is served to its end. JSON: messages survive the encoding, decoded messages
  are well typed; which chunks and which file descriptions fit into a frame. Program: the flags are read as written, and which runs
  end in which way. Some theorems state what the code does where that is not what its documentation says: a
  provider is trusted for the chunk list, a peer that is dialled by name is not found in the peer table, a stream RPC stops its connection.

  \<^bold>\<open>Interfaces.\<close> \<open>chunk_store\<close> (interpreted by \<open>fs\<close>): what puts, gets and deletes do to the abstract map, on which the chunker, the file metadata and the
  erasure-coded files rest. \<open>transport\<close> (by \<open>tcp\<close>). \<open>json_type\<close> (by \<open>j_int\<close>, \<open>j_byte\<close>, \<open>j_string\<close>, \<open>j_time\<close>, \<open>j_contact\<close>, \<open>j_chunk_meta\<close>): an encoder and a
  decoder that undoes it over any previous value, carried over to slices and arrays. \<open>json_keeps\<close> (by \<open>k_int\<close>, \<open>k_string\<close>, \<open>k_contact\<close>, \<open>k_chunk_meta\<close>,
  \<open>k_file_meta\<close>): a decoder that keeps a predicate.

  \<^bold>\<open>Arguments, bounds and partiality.\<close> The Reed-Solomon library (\<open>rs_lib\<close>, with \<open>rs_correct\<close> its documented behaviour), random bytes, clocks, the results
  of \<^verbatim>\<open>net\<close> and \<^verbatim>\<open>tls\<close>, the time zone, \<^verbatim>\<open>time.Parse\<close> on texts that are not strict RFC 3339 and the formatting of floats
  (\<open>json_env\<close>) are arguments. Service and node are defined over any message encoding and any JSON form of an RPC; \<open>json_codec\<close> and \<open>json_rpc\<close> are
  the ones the program has. Goroutines run by explicit schedules: the value \<open>None\<close> of a service step stands for a panic or for
  blocking, and the theorems show it does not occur. \<^verbatim>\<open>int\<close> and \<^verbatim>\<open>int64\<close> are integers with their wrap-around where the code adds; bytes are
  8-bit words. All loops are total functions: by structure, by a measure, or by the code's own bound (5 rounds of
  a lookup, 10000 levels of JSON nesting). \<open>trim_with\<close> has the length of its string as fuel, and each of its steps shortens the string.

  \<^bold>\<open>Not modelled.\<close> Log output; the Go tests and \<^verbatim>\<open>_test.go\<close> helpers; the commented-out first version of \<^verbatim>\<open>lookup.go\<close>; the texts of JSON errors; the accessors \<^verbatim>\<open>Node.ID\<close>,
  \<^verbatim>\<open>Node.RoutingTable\<close> and \<^verbatim>\<open>Service.Node\<close>, which are record selectors here; two file-system calls of different goroutines at the same
  time (each storage call is one step); the handling of several RPCs of one connection in parallel, which the read loop does not do either. A
  decoded time keeps its instant, not the zone it was written in.
\<close>

section \<open>Files in the filesystem store\<close>

text \<open>
  C1: a file that is stored without failures can be read back from the store: for every reader that
  ends normally with at least one byte, \<^verbatim>\<open>BuildFileMetaFromReader\<close> on the filesystem store
  succeeds; reading the described chunks in order with \<^verbatim>\<open>GetChunk\<close> gives pieces whose
  concatenation is the content, all of the chunk size but the last; the root is the Merkle
  root of the chunk identifiers. The only assumption on the hash is that it does not collide
  on the data concerned.
\<close>

theorem store_file_roundtrip:
  assumes inv: "fs_inv st s" and ok: "os_healthy s" "at_end (rd_err r)" "rd_content r \<noteq> []"
    and inj: "inj_on NewChunkID (set (chunks_of (effective_size cs) (rd_content r)) \<union> ran (fs_holds st s))"
  shows "\<exists>m s1. BuildFileMetaFromReader (Some (FSStore st)) s r cs = (Inr m, s1) \<and> fs_inv st s1 \<and>
    MerkleRootForChunks (map cm_ID (fm_Chunks m)) = Inr (fm_Root m) \<and>
    (\<exists>ps. map (\<lambda>cm. fst (fs_GetChunk st s1 (cm_ID cm))) (fm_Chunks m) = map Inr ps \<and>
       concat ps = rd_content r \<and>
       (\<forall>p \<in> set (butlast ps). length p = effective_size cs) \<and>
       map cm_Size (fm_Chunks m) = map (int \<circ> length) ps)"
proof -
  let ?ps = "chunks_of (effective_size cs) (rd_content r)"
  obtain m s1 where build: "BuildFileMetaFromReader (Some (FSStore st)) s r cs = (Inr m, s1)"
    using fs.BuildFileMetaFromReader_healthy [OF inv ok] by blast
  note res = fs.BuildFileMetaFromReader_ok [OF inv build]
  have h: "os_healthy s1" using fs.put_list_healthy [OF inv ok(1) res(2)] by simp
  have ids: "map cm_ID (fm_Chunks m) = map NewChunkID ?ps"
    using res(1) by (simp add: meta_of_def chunk_metas_ids)
  have "map (\<lambda>cm. fs_holds st s1 (cm_ID cm)) (fm_Chunks m) = map Some ?ps"
    by (rule fs.BuildFileMetaFromReader_readable [OF inv build inj])
  moreover have "fst (fs_GetChunk st s1 i) = Inr x" if "fs_holds st s1 i = Some x" for i x
    using fs_GetChunk_effect(4) [OF res(3)] h that by (metis option.simps(5) prod.collapse)
  ultimately have "map (\<lambda>cm. fst (fs_GetChunk st s1 (cm_ID cm))) (fm_Chunks m) = map Inr ?ps"
    by (auto simp: list_eq_iff_nth_eq)
  moreover have "MerkleRootForChunks (map cm_ID (fm_Chunks m)) = Inr (fm_Root m)"
    using res(1,4) ids by (simp add: MerkleRootForChunks_root meta_of_def chunks_of_eq_Nil)
  moreover have "map cm_Size (fm_Chunks m) = map (int \<circ> length) ?ps"
    using res(1) by (simp add: meta_of_def chunk_metas_sizes)
  moreover have "\<forall>p \<in> set (butlast ?ps). length p = effective_size cs"
    using chunks_of_butlast by blast
  ultimately show ?thesis
    using build res(3) concat_chunks_of [OF effective_size_pos] by blast
qed

theorem store_file_roundtrip_witness:
  "\<exists>m s1. BuildFileMetaFromReader (Some (FSStore \<lparr>baseDir = ''d''\<rparr>)) one_dir
     \<lparr>rd_segs = [[7], [7]], rd_err = Io_EOF, rd_joint = False\<rparr> 1 = (Inr m, s1)"
  using store_file_roundtrip [of "\<lparr>baseDir = ''d''\<rparr>" one_dir
      "\<lparr>rd_segs = [[7], [7]], rd_err = Io_EOF, rd_joint = False\<rparr>" 1]
  by (fastforce simp: at_end_def rd_content_def effective_size_def chunks_of.simps)

text \<open>
  C8: storing a file is safe under every schedule of failing system calls and every ending of the
  reader: the store keeps its invariant and every chunk it had; and whenever a description is
  returned, it describes the content and all its chunks are in the store.
\<close>

theorem store_file_any_faults:
  assumes inv: "fs_inv st s" and build: "BuildFileMetaFromReader (Some (FSStore st)) s r cs = (res, s1)"
    and inj: "inj_on NewChunkID (set (chunks_of (effective_size cs) (rd_content r)) \<union> ran (fs_holds st s))"
  shows "fs_inv st s1 \<and> fs_holds st s \<subseteq>\<^sub>m fs_holds st s1 \<and>
    (case res of
       Inl _ \<Rightarrow> True
     | Inr m \<Rightarrow> at_end (rd_err r) \<and> m = meta_of (chunks_of (effective_size cs) (rd_content r)) \<and>
         (\<forall>cm \<in> set (fm_Chunks m). fs_holds st s1 (cm_ID cm) \<noteq> None) \<and>
         concat (map (the \<circ> fs_holds st s1 \<circ> cm_ID) (fm_Chunks m)) = rd_content r)"
proof -
  let ?ps = "chunks_of (effective_size cs) (rd_content r)"
  obtain ps x where put: "put_list (FSStore st) s 0 ps = (x, s1)" and sub: "set ps \<subseteq> set ?ps"
    using BuildFileMetaFromReader_puts [OF build] by blast
  have inj': "inj_on NewChunkID (set ps \<union> ran (fs_holds st s))"
    using inj by (rule inj_on_subset) (use sub in auto)
  have "fs_inv st s1" by (rule fs.put_list_inv [OF inv put])
  moreover have "fs_holds st s \<subseteq>\<^sub>m fs_holds st s1"
    unfolding map_le_def using fs.put_list_keeps [OF inv put _ inj'] by force
  moreover have "at_end (rd_err r) \<and> m = meta_of ?ps \<and>
      (\<forall>cm \<in> set (fm_Chunks m). fs_holds st s1 (cm_ID cm) \<noteq> None) \<and>
      concat (map (the \<circ> fs_holds st s1 \<circ> cm_ID) (fm_Chunks m)) = rd_content r" if "res = Inr m" for m
  proof -
    have b: "BuildFileMetaFromReader (Some (FSStore st)) s r cs = (Inr m, s1)" using build that by simp
    have rd: "map (\<lambda>cm. fs_holds st s1 (cm_ID cm)) (fm_Chunks m) = map Some ?ps"
      by (rule fs.BuildFileMetaFromReader_readable [OF inv b inj])
    have "map (the \<circ> fs_holds st s1 \<circ> cm_ID) (fm_Chunks m) =
        map the (map (\<lambda>cm. fs_holds st s1 (cm_ID cm)) (fm_Chunks m))"
      by simp
    also have "\<dots> = ?ps" unfolding rd by (simp add: comp_def)
    finally have "concat (map (the \<circ> fs_holds st s1 \<circ> cm_ID) (fm_Chunks m)) = rd_content r"
      by (simp add: concat_chunks_of)
    moreover have "fs_holds st s1 (cm_ID cm) \<noteq> None" if "cm \<in> set (fm_Chunks m)" for cm
    proof -
      have "fs_holds st s1 (cm_ID cm) \<in> set (map Some ?ps)" using that unfolding rd [symmetric] by simp
      then show ?thesis by auto
    qed
    ultimately show ?thesis using fs.BuildFileMetaFromReader_ok [OF inv b] by blast
  qed
  ultimately show ?thesis by (cases res) simp_all
qed

theorem store_file_any_faults_witness:
  "fs_inv \<lparr>baseDir = ''d''\<rparr> (snd (BuildFileMetaFromReader (Some (FSStore \<lparr>baseDir = ''d''\<rparr>))
     (one_dir\<lparr>os_sched := [None, Some (FailAfter 1)]\<rparr>)
     \<lparr>rd_segs = [[7, 7], [8]], rd_err = Io_EOF, rd_joint = False\<rparr> 3))"
proof -
  let ?s = "one_dir\<lparr>os_sched := [None, Some (FailAfter 1)]\<rparr>"
  let ?r = "\<lparr>rd_segs = [[7, 7], [8]], rd_err = Io_EOF, rd_joint = False\<rparr>"
  have s: "fs_inv \<lparr>baseDir = ''d''\<rparr> ?s" "fs_holds \<lparr>baseDir = ''d''\<rparr> ?s = Map.empty"
    by (simp_all add: fs_inv_def fs_holds_def one_dir_def os_node_def fun_eq_iff)
  obtain res s1 where b: "BuildFileMetaFromReader (Some (FSStore \<lparr>baseDir = ''d''\<rparr>)) ?s ?r 3 = (res, s1)"
    by fastforce
  have "inj_on NewChunkID (set (chunks_of (effective_size 3) (rd_content ?r)) \<union> ran (fs_holds \<lparr>baseDir = ''d''\<rparr> ?s))"
    unfolding s(2) by (simp add: rd_content_def effective_size_def chunks_of.simps)
  from store_file_any_faults [OF s(1) b this] show ?thesis unfolding b by simp
qed

section \<open>Erasure-coded files in the filesystem store\<close>





end
